(* ===== verification/Prelude.thy ===== *)
theory Prelude
  imports Main "HOL-Library.Word" "HOL-Library.Monad_Syntax"
begin

text \<open>
  Shared vocabulary of the development: the C integer types as words, the
  byte-order helpers used by several drivers, alignment and masking lemmas on
  words, and the option-monad facts by which the component proofs step through
  a \<open>do\<close> block.  Nothing here models a particular source file.
\<close>

unbundle bit_operations_syntax

section \<open>C integer types\<close>

type_synonym u8 = "8 word"
type_synonym u16 = "16 word"
type_synonym u32 = "32 word"
type_synonym u64 = "64 word"
type_synonym i16 = "16 word"
type_synonym i32 = "32 word"

text \<open>Byte-addressed memory, and the C view of a string literal.\<close>

type_synonym mem = "u64 \<Rightarrow> u8"

definition byte_of_char :: "char \<Rightarrow> u8" where
  "byte_of_char c = of_nat (of_char c)"

definition bytes_of :: "string \<Rightarrow> u8 list" where
  "bytes_of s = map byte_of_char s"

abbreviation UINT32_MAX :: u32 where
  "UINT32_MAX \<equiv> 0xFFFFFFFF"

named_theorems hal_word "word-to-natural conversions used by the components"
named_theorems hal_step "unfolding equations of one step of a driver"

section \<open>The option monad\<close>

lemma bind_weak_cong: "x = y \<Longrightarrow> Option.bind x f = Option.bind y f"
  by simp

lemma bind_Some_iff:
  "Option.bind x f = Some y \<longleftrightarrow> (\<exists>z. x = Some z \<and> f z = Some y)"
  by (cases x) auto

lemma bind_SomeE:
  assumes "Option.bind x f = Some y"
  obtains z where "x = Some z" "f z = Some y"
  using assms by (cases x) auto

section \<open>Lists\<close>

text \<open>Reading an updated list, the update past its end included.\<close>

lemma nth_update: "xs[i := x] ! k = (if k = i \<and> i < length xs then x else xs ! k)"
  by (cases "i < length xs") (simp_all add: nth_list_update list_update_beyond)

section \<open>Words as naturals\<close>

lemma unat_add_no_wrap [hal_word]:
  fixes a b :: "'a::len word"
  assumes "unat a + unat b < 2 ^ LENGTH('a)"
  shows "unat (a + b) = unat a + unat b"
  using assms by (simp add: unat_word_ariths)

lemma unat_mult_no_wrap [hal_word]:
  fixes a b :: "'a::len word"
  assumes "unat a * unat b < 2 ^ LENGTH('a)"
  shows "unat (a * b) = unat a * unat b"
  using assms by (simp add: unat_word_ariths)

lemma unat_sub_no_wrap [hal_word]:
  fixes a b :: "'a::len word"
  assumes "b \<le> a"
  shows "unat (a - b) = unat a - unat b"
  using assms by (rule unat_sub)

lemma unat_of_nat_small [hal_word]:
  assumes "n < 2 ^ LENGTH('a::len)"
  shows "unat (of_nat n :: 'a word) = n"
  using assms by (simp add: unat_of_nat take_bit_nat_eq_self)

lemma unat_u64_less: "unat (x :: u64) < 18446744073709551616"
  by (rule order.strict_trans2 [OF unsigned_less]) simp

lemma unat_u32_less: "unat (x :: u32) < 4294967296"
  by (rule order.strict_trans2 [OF unsigned_less]) simp

lemma unat_u16_less: "unat (x :: u16) < 65536"
  by (rule order.strict_trans2 [OF unsigned_less]) simp

lemma unat_u8_less: "unat (x :: u8) < 256"
  by (rule order.strict_trans2 [OF unsigned_less]) simp

lemma ucast_eq_of_nat: "(ucast (w :: 'a::len word) :: 'b::len word) = of_nat (unat w)"
  by (simp add: word_unat_eq_iff unsigned_ucast_eq unsigned_of_nat)

lemma unat_ucast_up:
  "LENGTH('a) \<le> LENGTH('b) \<Longrightarrow> unat (ucast (w :: 'a::len word) :: 'b::len word) = unat w"
  by (simp add: unsigned_ucast_eq take_bit_nat_eq_self order.strict_trans2 [OF unsigned_less])

lemma ucast_ucast_up:
  "LENGTH('a) \<le> LENGTH('b) \<Longrightarrow>
    (ucast (ucast (w :: 'a::len word) :: 'b::len word) :: 'c::len word) = ucast w"
  by (rule bit_word_eqI) (auto simp: bit_ucast_iff dest: bit_imp_le_length)

lemma ucast_ucast_down:
  "LENGTH('c) \<le> LENGTH('b) \<Longrightarrow>
    (ucast (ucast (w :: 'a::len word) :: 'b::len word) :: 'c::len word) = ucast w"
  by (rule bit_word_eqI) (auto simp: bit_ucast_iff)

lemma unat_drop_bit: "unat (drop_bit k (w :: 'a::len word)) = unat w div 2 ^ k"
  unfolding unat_drop_bit_eq by (simp only: drop_bit_eq_div)

lemma and_not_mask_eq:
  fixes x :: "'a::len word"
  shows "x AND NOT (mask n) = push_bit n (drop_bit n x)"
  by (rule bit_word_eqI)
     (auto simp: bit_and_iff bit_not_iff bit_mask_iff bit_push_bit_iff bit_drop_bit_eq)

lemma unat_and_not_mask:
  fixes x :: "'a::len word"
  shows "unat (x AND NOT (mask n)) = unat x div 2 ^ n * 2 ^ n"
proof -
  have bound: "unat x div 2 ^ n * 2 ^ n < 2 ^ LENGTH('a)"
    using unsigned_less [of x] by (metis div_mult_mod_eq le_add1 le_less_trans)
  have "unat (x AND NOT (mask n)) = take_bit LENGTH('a) (push_bit n (drop_bit n (unat x)))"
    unfolding and_not_mask_eq unsigned_push_bit_eq unat_drop_bit_eq ..
  also have "\<dots> = unat x div 2 ^ n * 2 ^ n"
    using bound by (simp add: push_bit_eq_mult drop_bit_eq_div take_bit_nat_eq_self)
  finally show ?thesis .
qed

lemma unat_and_mask:
  fixes x :: "'a::len word"
  shows "unat (x AND mask n) = unat x mod 2 ^ n"
proof -
  have "unat (x AND mask n) = take_bit n (unat x)"
    unfolding take_bit_eq_mask [symmetric] by (rule unsigned_take_bit_eq)
  then show ?thesis by (simp add: take_bit_eq_mod)
qed

text \<open>The idiom \<open>(n + 3) & ~3U\<close>: round up to a multiple of four.\<close>

definition align4 :: "u32 \<Rightarrow> u32" where
  "align4 n = (n + 3) AND NOT 3"

lemma mask2_32: "(3 :: u32) = mask 2"
  by (simp add: mask_eq_exp_minus_1)

lemma unat_align4:
  assumes "unat n + 3 < 2 ^ 32"
  shows "unat (align4 n) = (unat n + 3) div 4 * 4"
proof -
  have "unat (n + 3) = unat n + 3"
    using assms by (simp add: unat_add_no_wrap)
  then show ?thesis
    unfolding align4_def mask2_32 by (subst unat_and_not_mask) (simp add: mask_eq_exp_minus_1)
qed

section \<open>Byte order\<close>

lemma join_halves:
  fixes a :: u64
  assumes "lo = ucast a"
  shows "ucast (lo :: u32) OR push_bit 32 (ucast (ucast (drop_bit 32 a) :: u32)) = a"
  unfolding assms
  by (rule bit_word_eqI) (auto simp: bit_or_iff bit_ucast_iff bit_push_bit_iff bit_drop_bit_eq)

lemma bit_u8_ge: "8 \<le> k \<Longrightarrow> bit (w :: u8) k = False"
  using bit_imp_le_length [of w k] by auto

definition be16_of :: "u8 \<Rightarrow> u8 \<Rightarrow> u16" where
  "be16_of a b = push_bit 8 (ucast a) OR ucast b"

definition be32_of :: "u8 \<Rightarrow> u8 \<Rightarrow> u8 \<Rightarrow> u8 \<Rightarrow> u32" where
  "be32_of a b c d =
     push_bit 24 (ucast a) OR push_bit 16 (ucast b) OR push_bit 8 (ucast c) OR ucast d"

definition be32_bytes :: "u32 \<Rightarrow> u8 list" where
  "be32_bytes v = [ucast (drop_bit 24 v), ucast (drop_bit 16 v), ucast (drop_bit 8 v), ucast v]"

definition le32_bytes :: "u32 \<Rightarrow> u8 list" where
  "le32_bytes v = rev (be32_bytes v)"

lemma length_be32_bytes [simp]: "length (be32_bytes v) = 4"
  by (simp add: be32_bytes_def)

lemma be32_roundtrip:
  "be32_of (ucast (drop_bit 24 v)) (ucast (drop_bit 16 v)) (ucast (drop_bit 8 v)) (ucast v) = v"
proof (rule bit_word_eqI)
  fix n
  assume n: "n < LENGTH(32)"
  have "n - 8 < 8 \<longleftrightarrow> n < 16" "n - 16 < 8 \<longleftrightarrow> n < 24" "n - 24 < 8" "n - 8 < 32" "n - 16 < 32"
    using n by auto
  then show "bit (be32_of (ucast (drop_bit 24 v)) (ucast (drop_bit 16 v))
      (ucast (drop_bit 8 v)) (ucast v)) n = bit v n"
    using n by (auto simp: be32_of_def bit_or_iff bit_push_bit_iff bit_drop_bit_eq bit_ucast_iff)
qed

text \<open>Big-endian value of a byte string.\<close>

definition be_val :: "u8 list \<Rightarrow> nat" where
  "be_val bs = foldl (\<lambda>n b. 256 * n + unat b) 0 bs"

lemma unat_push_ucast:
  "k + 8 \<le> LENGTH('a::len) \<Longrightarrow> unat (push_bit k (ucast (x :: u8)) :: 'a word) = unat x * 2 ^ k"
proof -
  assume k: "k + 8 \<le> LENGTH('a)"
  have x: "unat x < 2 ^ 8" using unat_u8_less [of x] by simp
  have "unat x * 2 ^ k < 2 ^ (k + 8)" using x by (simp add: power_add)
  also have "\<dots> \<le> 2 ^ LENGTH('a)" using k by (simp add: power_increasing)
  finally have lt: "unat x * 2 ^ k < 2 ^ LENGTH('a)" .
  have "(push_bit k (ucast x) :: 'a word) = of_nat (unat x * 2 ^ k)"
    by (simp only: push_bit_eq_mult ucast_eq_of_nat of_nat_mult of_nat_power of_nat_numeral)
  show ?thesis
    unfolding \<open>(push_bit k (ucast x) :: 'a word) = of_nat (unat x * 2 ^ k)\<close>
    by (rule unat_of_nat_small [OF lt])
qed

lemma or_disjoint_bytes:
  fixes y :: "'a::len word"
  assumes "unat y < 2 ^ k"
  shows "push_bit k x OR y = push_bit k x + y"
proof -
  have "unat (take_bit k y) = unat y"
    unfolding unsigned_take_bit_eq using assms by (simp add: take_bit_nat_eq_self)
  then have y: "take_bit k y = y" by (simp only: word_unat_eq_iff)
  have "push_bit k x AND y = 0"
  proof (rule bit_word_eqI)
    fix n assume "n < LENGTH('a)"
    have "bit y n \<Longrightarrow> n < k" using bit_take_bit_iff [of k y n] y by simp
    then show "bit (push_bit k x AND y) n = bit 0 n"
      by (auto simp: bit_and_iff bit_push_bit_iff)
  qed
  then show ?thesis by (simp add: disjunctive_add_eq_or)
qed


lemma unat_be32_of: "unat (be32_of a b c d) = be_val [a, b, c, d]"
proof -
  note u = unat_u8_less [of a] unat_u8_less [of b] unat_u8_less [of c] unat_u8_less [of d]
  let ?a = "push_bit 24 (ucast a) :: u32" and ?b = "push_bit 16 (ucast b) :: u32"
    and ?c = "push_bit 8 (ucast c) :: u32" and ?d = "ucast d :: u32"
  have v: "unat ?a = unat a * 2 ^ 24" "unat ?b = unat b * 2 ^ 16" "unat ?c = unat c * 2 ^ 8"
    by (rule unat_push_ucast, simp)+
  have vd: "unat ?d = unat d" using unat_push_ucast [of 0 d, where 'a = 32] by simp
  have cd: "?c OR ?d = ?c + ?d" by (rule or_disjoint_bytes) (use u in \<open>simp add: vd\<close>)
  have ucd: "unat (?c + ?d) = unat c * 256 + unat d"
    by (subst unat_add_no_wrap) (use u in \<open>simp_all only: v vd\<close>, simp_all)
  have bcd: "?b OR (?c + ?d) = ?b + (?c + ?d)"
    by (rule or_disjoint_bytes) (unfold ucd, use u in simp)
  have ubcd: "unat (?b + (?c + ?d)) = unat b * 65536 + (unat c * 256 + unat d)"
    by (subst unat_add_no_wrap) (unfold ucd v, use u in simp_all)
  have abcd: "?a OR (?b + (?c + ?d)) = ?a + (?b + (?c + ?d))"
    by (rule or_disjoint_bytes) (unfold ubcd, use u in simp)
  have "unat (?a + (?b + (?c + ?d))) = unat a * 16777216 + (unat b * 65536 + (unat c * 256 + unat d))"
    by (subst unat_add_no_wrap) (unfold ubcd v, use u in simp_all)
  moreover have "be32_of a b c d = ?a + (?b + (?c + ?d))"
    unfolding be32_of_def by (simp only: or.assoc cd bcd abcd)
  ultimately show ?thesis by (simp add: be_val_def)
qed

lemma mod_shift_inj:
  fixes i j n r :: nat
  assumes "i < n" "j < n"
  shows "(r + i) mod n = (r + j) mod n \<longleftrightarrow> i = j"
proof
  assume e: "(r + i) mod n = (r + j) mod n"
  have "(r mod n + x) mod n = (if r mod n + x < n then r mod n + x else r mod n + x - n)" if "x < n" for x
  proof -
    have "r mod n < n" using assms by simp
    moreover from this that have "r mod n + x - n < n" by linarith
    ultimately show ?thesis using that by (auto simp: le_mod_geq not_less)
  qed
  then show "i = j" using e assms mod_add_left_eq [of r n i] mod_add_left_eq [of r n j] by (auto split: if_splits)
qed simp

lemma unat_add_mod:
  fixes a b n :: u32
  assumes "unat a + unat b < 2 ^ 32"
  shows "unat ((a + b) mod n) = (unat a + unat b) mod unat n"
  using assms by (simp add: unat_mod unat_add_no_wrap)

end
