(* ===== verification/StringC.thy ===== *)
theory StringC
  imports Prelude
begin

text \<open>
  The freestanding memory primitives of \<open>src/string.c\<close>: \<open>memset\<close>, \<open>memcpy\<close>,
  \<open>memmove\<close> and \<open>memcmp\<close>.  Memory is a total map from 64-bit addresses to bytes,
  pointers are addresses and \<open>size_t\<close> is a 64-bit word, so pointer arithmetic wraps
  as it does on the machine.  Every \<open>while\<close> of the source is a recursive function
  of its own; the 8-byte accesses of the word path are little-endian loads and stores.
  The specifications are \<open>fill_mem\<close> and \<open>copy_mem\<close>, which say what every byte of
  memory holds afterwards.
\<close>

section \<open>Word-sized accesses\<close>

definition load64 :: "mem \<Rightarrow> u64 \<Rightarrow> u64" where
  "load64 m a =
     ucast (m a) OR push_bit 8 (ucast (m (a + 1))) OR push_bit 16 (ucast (m (a + 2)))
     OR push_bit 24 (ucast (m (a + 3))) OR push_bit 32 (ucast (m (a + 4)))
     OR push_bit 40 (ucast (m (a + 5))) OR push_bit 48 (ucast (m (a + 6)))
     OR push_bit 56 (ucast (m (a + 7)))"

definition store64 :: "mem \<Rightarrow> u64 \<Rightarrow> u64 \<Rightarrow> mem" where
  "store64 m a v = m
     (a := ucast v, a + 1 := ucast (drop_bit 8 v), a + 2 := ucast (drop_bit 16 v),
      a + 3 := ucast (drop_bit 24 v), a + 4 := ucast (drop_bit 32 v),
      a + 5 := ucast (drop_bit 40 v), a + 6 := ucast (drop_bit 48 v),
      a + 7 := ucast (drop_bit 56 v))"

section \<open>memset\<close>

function memset_head :: "u64 \<Rightarrow> u8 \<Rightarrow> u64 \<Rightarrow> mem \<Rightarrow> u64 \<times> u64 \<times> mem" where
  "memset_head d b n m =
     (if n \<noteq> 0 \<and> d AND 7 \<noteq> 0 then memset_head (d + 1) b (n - 1) (m(d := b)) else (d, n, m))"
  by pat_completeness auto
termination
  by (relation "measure (\<lambda>(d, b, n, m). unat n)") (auto simp: unat_minus_one unat_gt_0)

function memset_words :: "u64 \<Rightarrow> u64 \<Rightarrow> u64 \<Rightarrow> mem \<Rightarrow> u64 \<times> u64 \<times> mem" where
  "memset_words dw w n m =
     (if 8 \<le> n then memset_words (dw + 8) w (n - 8) (store64 m dw w) else (dw, n, m))"
  by pat_completeness auto
termination
  by (relation "measure (\<lambda>(dw, w, n, m). unat n)") (auto simp: unat_sub word_le_nat_alt)

function memset_tail :: "u64 \<Rightarrow> u8 \<Rightarrow> u64 \<Rightarrow> mem \<Rightarrow> mem" where
  "memset_tail d b n m = (if n \<noteq> 0 then memset_tail (d + 1) b (n - 1) (m(d := b)) else m)"
  by pat_completeness auto
termination
  by (relation "measure (\<lambda>(d, b, n, m). unat n)") (auto simp: unat_minus_one unat_gt_0)

definition memset :: "u64 \<Rightarrow> i32 \<Rightarrow> u64 \<Rightarrow> mem \<Rightarrow> u64 \<times> mem" where
  "memset dst c n m =
     (let b = ucast c :: u8;
          (d, n, m) = memset_head dst b n m;
          w = ucast b * 0x0101010101010101 :: u64;
          (d, n, m) = memset_words d w n m
      in (dst, memset_tail d b n m))"

section \<open>memcpy and memmove\<close>

function copy_fwd_head :: "u64 \<Rightarrow> u64 \<Rightarrow> u64 \<Rightarrow> mem \<Rightarrow> u64 \<times> u64 \<times> u64 \<times> mem" where
  "copy_fwd_head d s n m =
     (if n \<noteq> 0 \<and> d AND 7 \<noteq> 0 then copy_fwd_head (d + 1) (s + 1) (n - 1) (m(d := m s))
      else (d, s, n, m))"
  by pat_completeness auto
termination
  by (relation "measure (\<lambda>(d, s, n, m). unat n)") (auto simp: unat_minus_one unat_gt_0)

function copy_fwd_words :: "u64 \<Rightarrow> u64 \<Rightarrow> u64 \<Rightarrow> mem \<Rightarrow> u64 \<times> u64 \<times> u64 \<times> mem" where
  "copy_fwd_words dw sw n m =
     (if 8 \<le> n then copy_fwd_words (dw + 8) (sw + 8) (n - 8) (store64 m dw (load64 m sw))
      else (dw, sw, n, m))"
  by pat_completeness auto
termination
  by (relation "measure (\<lambda>(d, s, n, m). unat n)") (auto simp: unat_sub word_le_nat_alt)

function copy_fwd_tail :: "u64 \<Rightarrow> u64 \<Rightarrow> u64 \<Rightarrow> mem \<Rightarrow> mem" where
  "copy_fwd_tail d s n m =
     (if n \<noteq> 0 then copy_fwd_tail (d + 1) (s + 1) (n - 1) (m(d := m s)) else m)"
  by pat_completeness auto
termination
  by (relation "measure (\<lambda>(d, s, n, m). unat n)") (auto simp: unat_minus_one unat_gt_0)

definition memcpy :: "u64 \<Rightarrow> u64 \<Rightarrow> u64 \<Rightarrow> mem \<Rightarrow> u64 \<times> mem" where
  "memcpy dst src n m =
     (let (d, s, n, m) =
        (if (dst XOR src) AND 7 = 0
         then (let (d, s, n, m) = copy_fwd_head dst src n m in copy_fwd_words d s n m)
         else (dst, src, n, m))
      in (dst, copy_fwd_tail d s n m))"

function copy_bwd_head :: "u64 \<Rightarrow> u64 \<Rightarrow> u64 \<Rightarrow> mem \<Rightarrow> u64 \<times> u64 \<times> u64 \<times> mem" where
  "copy_bwd_head d s n m =
     (if n \<noteq> 0 \<and> d AND 7 \<noteq> 0
      then copy_bwd_head (d - 1) (s - 1) (n - 1) (m(d - 1 := m (s - 1)))
      else (d, s, n, m))"
  by pat_completeness auto
termination
  by (relation "measure (\<lambda>(d, s, n, m). unat n)") (auto simp: unat_minus_one unat_gt_0)

function copy_bwd_words :: "u64 \<Rightarrow> u64 \<Rightarrow> u64 \<Rightarrow> mem \<Rightarrow> u64 \<times> u64 \<times> u64 \<times> mem" where
  "copy_bwd_words dw sw n m =
     (if 8 \<le> n
      then copy_bwd_words (dw - 8) (sw - 8) (n - 8) (store64 m (dw - 8) (load64 m (sw - 8)))
      else (dw, sw, n, m))"
  by pat_completeness auto
termination
  by (relation "measure (\<lambda>(d, s, n, m). unat n)") (auto simp: unat_sub word_le_nat_alt)

function copy_bwd_tail :: "u64 \<Rightarrow> u64 \<Rightarrow> u64 \<Rightarrow> mem \<Rightarrow> mem" where
  "copy_bwd_tail d s n m =
     (if n \<noteq> 0 then copy_bwd_tail (d - 1) (s - 1) (n - 1) (m(d - 1 := m (s - 1))) else m)"
  by pat_completeness auto
termination
  by (relation "measure (\<lambda>(d, s, n, m). unat n)") (auto simp: unat_minus_one unat_gt_0)

definition memmove :: "u64 \<Rightarrow> u64 \<Rightarrow> u64 \<Rightarrow> mem \<Rightarrow> u64 \<times> mem" where
  "memmove dst src n m =
     (if dst = src \<or> n = 0 then (dst, m)
      else if dst < src then memcpy dst src n m
      else
        (let d = dst + n; s = src + n;
             (d, s, n, m) =
               (if (d XOR s) AND 7 = 0
                then (let (d, s, n, m) = copy_bwd_head d s n m in copy_bwd_words d s n m)
                else (d, s, n, m))
         in (dst, copy_bwd_tail d s n m)))"

section \<open>memcmp\<close>

function memcmp :: "mem \<Rightarrow> u64 \<Rightarrow> u64 \<Rightarrow> u64 \<Rightarrow> int" where
  "memcmp m x y n =
     (if n \<noteq> 0
      then (if m x \<noteq> m y then uint (m x) - uint (m y) else memcmp m (x + 1) (y + 1) (n - 1))
      else 0)"
  by pat_completeness auto
termination
  by (relation "measure (\<lambda>(m, x, y, n). unat n)") (auto simp: unat_minus_one unat_gt_0)

declare memset_head.simps [simp del] memset_words.simps [simp del] memset_tail.simps [simp del]
  copy_fwd_head.simps [simp del] copy_fwd_words.simps [simp del] copy_fwd_tail.simps [simp del]
  copy_bwd_head.simps [simp del] copy_bwd_words.simps [simp del] copy_bwd_tail.simps [simp del]
  memcmp.simps [simp del]

section \<open>What memory holds afterwards\<close>


definition fill_mem :: "u64 \<Rightarrow> u64 \<Rightarrow> u8 \<Rightarrow> mem \<Rightarrow> mem" where
  "fill_mem d n b m = (\<lambda>a. if a - d < n then b else m a)"

definition copy_mem :: "u64 \<Rightarrow> u64 \<Rightarrow> u64 \<Rightarrow> mem \<Rightarrow> mem" where
  "copy_mem d s n m = (\<lambda>a. if a - d < n then m (s + (a - d)) else m a)"

lemma word_less_8_cases:
  fixes i :: u64
  assumes "i < 8"
  shows "i = 0 \<or> i = 1 \<or> i = 2 \<or> i = 3 \<or> i = 4 \<or> i = 5 \<or> i = 6 \<or> i = 7"
  using assms by unat_arith

lemma store64_region:
  "store64 m a v = (\<lambda>x. if x - a < 8 then ucast (drop_bit (8 * unat (x - a)) v) else m x)"
proof
  fix x
  obtain i where x: "x = a + i" by (metis diff_add_cancel add.commute)
  show "store64 m a v x = (if x - a < 8 then ucast (drop_bit (8 * unat (x - a)) v) else m x)"
  proof (cases "i < 8")
    case True
    then show ?thesis using word_less_8_cases [of i] by (auto simp: store64_def x)
  next
    case False
    then have "i \<notin> {0,1,2,3,4,5,6,7}" by auto
    with False show ?thesis by (simp add: store64_def x)
  qed
qed

lemma load64_byte:
  assumes "i < 8"
  shows "ucast (drop_bit (8 * unat i) (load64 m s)) = m (s + i)"
proof (rule bit_word_eqI)
  fix n assume "n < LENGTH(8)"
  then have n: "n < 8" by simp
  show "bit (ucast (drop_bit (8 * unat i) (load64 m s)) :: u8) n = bit (m (s + i)) n"
    using word_less_8_cases [OF assms] n
    by (elim disjE)
       (simp_all add: load64_def bit_or_iff bit_push_bit_iff bit_drop_bit_eq bit_ucast_iff bit_u8_ge)
qed

lemma store64_load64: "store64 m d (load64 m s) = copy_mem d s 8 m"
  by (rule ext) (simp add: store64_region copy_mem_def load64_byte)

lemma fill_mem_0 [simp]: "fill_mem d 0 b m = m"
  by (simp add: fill_mem_def)
lemma copy_mem_0 [simp]: "copy_mem d s 0 m = m"
  by (simp add: copy_mem_def)
lemma fill_mem_1: "fill_mem d 1 b m = m(d := b)"
  by (rule ext) (auto simp: fill_mem_def word_less_1)
lemma copy_mem_1: "copy_mem d s 1 m = m(d := m s)"
  by (rule ext) (auto simp: copy_mem_def word_less_1)

lemma region_split:
  fixes x k n :: u64
  assumes "k \<le> n"
  shows "x < n \<longleftrightarrow> x < k \<or> x - k < n - k"
  using assms by unat_arith

lemma fill_mem_split:
  assumes "k \<le> n"
  shows "fill_mem (d + k) (n - k) b (fill_mem d k b m) = fill_mem d n b m"
proof
  fix a
  define x where "x = a - d"
  have e1: "a - (d + k) = x - k" by (simp add: x_def)
  show "fill_mem (d + k) (n - k) b (fill_mem d k b m) a = fill_mem d n b m a"
    unfolding fill_mem_def e1 x_def [symmetric]
    using region_split [OF assms, of x] by auto
qed

lemma copy_mem_split_fwd:
  assumes "k \<le> n" "d = s \<or> n \<le> d - s"
  shows "copy_mem (d + k) (s + k) (n - k) (copy_mem d s k m) = copy_mem d s n m"
proof
  fix a
  define x D where "x = a - d" and "D = d - s"
  have e1: "a - (d + k) = x - k" "s + k + (x - k) = s + x" "s + x - d = x - D" by (simp_all add: x_def D_def)
  have e2: "D = 0 \<or> n \<le> D" using assms(2) by (auto simp: D_def)
  have a1: "x < n \<longleftrightarrow> x < k \<or> x - k < n - k" by (rule region_split [OF assms(1)])
  have a2: "x - k < n - k \<Longrightarrow> x < k \<Longrightarrow> False" using assms(1) by unat_arith
  have a3: "x - k < n - k \<Longrightarrow> D = 0 \<or> \<not> x - D < k" using e2 assms(1) by unat_arith
  have a4: "D = 0 \<Longrightarrow> s + x = a" by (simp add: x_def D_def)
  have a5: "D = 0 \<Longrightarrow> s = d" by (simp add: D_def)
  show "copy_mem (d + k) (s + k) (n - k) (copy_mem d s k m) a = copy_mem d s n m a"
    unfolding copy_mem_def e1 x_def [symmetric]
    using a1 a2 a3 a4 a5 by (auto simp: e1 x_def)
qed

lemma copy_mem_split_bwd:
  assumes "k \<le> n" "n \<le> s - d"
  shows "copy_mem d s (n - k) (copy_mem (d + (n - k)) (s + (n - k)) k m) = copy_mem d s n m"
proof
  fix a
  define x D j where "x = a - d" and "D = s - d" and "j = n - k"
  have e1: "a - (d + j) = x - j" "s + j + (x - j) = s + x" "s + x - (d + j) = x + D - j"
    "s + x - d = x + D"
    by (simp_all add: x_def D_def)
  have "n - k \<le> n" using assms(1) by unat_arith
  then have j: "j \<le> n" "n - j = k" by (simp_all add: j_def)
  have e2: "n \<le> D" using assms(2) by (simp add: D_def)
  have a1: "x < n \<longleftrightarrow> x < j \<or> x - j < k" using region_split [OF j(1)] j(2) by simp
  have a2: "x < j \<Longrightarrow> x + D - j < k \<Longrightarrow> False" using e2 j(1) unfolding j(2) [symmetric] by unat_arith
  show "copy_mem d s (n - k) (copy_mem (d + (n - k)) (s + (n - k)) k m) a = copy_mem d s n m a"
    unfolding copy_mem_def e1 x_def [symmetric] j_def [symmetric]
    using a1 a2 by (auto simp: e1 x_def)
qed

lemma div_mod_digit:
  fixes b :: nat
  assumes "r = l + 2 ^ j * (1 + 256 * h)" "b * l < 2 ^ j" "b < 256"
  shows "b * r div 2 ^ j mod 256 = b"
proof -
  have "b * r = b * l + 2 ^ j * (b + 256 * (b * h))"
    by (simp add: assms(1) algebra_simps)
  then have "b * r div 2 ^ j = b + 256 * (b * h)"
    using assms(2) by simp
  then show ?thesis using assms(3) by simp
qed

lemma byte_repeat_nat:
  fixes b :: nat
  assumes b: "b < 256" and i: "i < 8"
  shows "b * 0x0101010101010101 div 2 ^ (8 * i) mod 256 = b"
proof -
  have "i = 0 \<or> i = 1 \<or> i = 2 \<or> i = 3 \<or> i = 4 \<or> i = 5 \<or> i = 6 \<or> i = 7" using i by auto
  then show ?thesis
  proof (elim disjE)
    assume "i = 0" then show ?thesis using b div_mod_digit [of _ 0 0 "0x01010101010101" b] by simp
  next
    assume "i = 1" then show ?thesis using b div_mod_digit [of _ "0x01" 8 "0x010101010101" b] by simp
  next
    assume "i = 2" then show ?thesis using b div_mod_digit [of _ "0x0101" 16 "0x0101010101" b] by simp
  next
    assume "i = 3" then show ?thesis using b div_mod_digit [of _ "0x010101" 24 "0x01010101" b] by simp
  next
    assume "i = 4" then show ?thesis using b div_mod_digit [of _ "0x01010101" 32 "0x010101" b] by simp
  next
    assume "i = 5" then show ?thesis using b div_mod_digit [of _ "0x0101010101" 40 "0x0101" b] by simp
  next
    assume "i = 6" then show ?thesis using b div_mod_digit [of _ "0x010101010101" 48 "0x01" b] by simp
  next
    assume "i = 7" then show ?thesis using b div_mod_digit [of _ "0x01010101010101" 56 0 b] by simp
  qed
qed

lemma ucast_drop_bit_repeat:
  fixes b :: u8
  assumes "i < 8"
  shows "ucast (drop_bit (8 * i) (ucast b * 0x0101010101010101 :: u64)) = b"
proof (rule word_unat_eq_iff [THEN iffD2])
  have b: "unat b < 256" using unsigned_less [of b] by simp
  have ub: "unat (ucast b :: u64) = unat b"
    using b by (simp add: unsigned_ucast_eq take_bit_nat_eq_self)
  have "unat (ucast b * 0x0101010101010101 :: u64) = unat b * 0x0101010101010101"
    using b by (subst unat_mult_no_wrap) (simp_all add: ub)
  then have "unat (drop_bit (8 * i) (ucast b * 0x0101010101010101 :: u64))
      = unat b * 0x0101010101010101 div 2 ^ (8 * i)"
    unfolding unat_drop_bit_eq by (simp only: drop_bit_eq_div)
  then show "unat (ucast (drop_bit (8 * i) (ucast b * 0x0101010101010101 :: u64)) :: u8) = unat b"
    using byte_repeat_nat [OF b assms] by (simp only: unsigned_ucast_eq) (simp add: take_bit_eq_mod)
qed

lemma store64_repeat: "store64 m d (ucast b * 0x0101010101010101) = fill_mem d 8 b m"
proof (rule ext)
  fix a
  have "a - d < 8 \<Longrightarrow> unat (a - d) < 8" by unat_arith
  then show "store64 m d (ucast b * 0x0101010101010101) a = fill_mem d 8 b m a"
    by (simp add: store64_region fill_mem_def ucast_drop_bit_repeat)
qed

section \<open>Loops\<close>

text \<open>One byte, then the rest: the bookkeeping shared by every byte loop.\<close>

lemma count_down:
  fixes n n' :: u64
  assumes "n' \<le> n - 1" "n \<noteq> 0"
  shows "n' \<le> n" "1 \<le> n - n'" "n - 1 - n' = n - n' - 1"
  using assms by (unat_arith, unat_arith, simp)

lemma count_down8:
  fixes n n' :: u64
  assumes "n' \<le> n - 8" "8 \<le> n"
  shows "n' \<le> n" "8 \<le> n - n'" "n - 8 - n' = n - n' - 8"
  using assms by (unat_arith, unat_arith, simp)

lemma memset_head_spec:
  "memset_head d b n m = (d', n', m') \<Longrightarrow>
    n' \<le> n \<and> d' = d + (n - n') \<and> m' = fill_mem d (n - n') b m"
proof (induction d b n m rule: memset_head.induct)
  case (1 d b n m)
  show ?case
  proof (cases "n \<noteq> 0 \<and> d AND 7 \<noteq> 0")
    case True
    from "1.prems" True have "memset_head (d + 1) b (n - 1) (m(d := b)) = (d', n', m')"
      by (subst (asm) memset_head.simps) (simp only: simp_thms if_True)
    from "1.IH" [OF True this] have IH: "n' \<le> n - 1" "d' = d + 1 + (n - 1 - n')"
      "m' = fill_mem (d + 1) (n - 1 - n') b (fill_mem d 1 b m)"
      by (simp_all only: fill_mem_1)
    note cd = count_down [OF IH(1)]
    show ?thesis
      using True cd IH(2,3) fill_mem_split [OF cd(2), of d b m] by (simp add: cd(3))
  next
    case False
    with "1.prems" show ?thesis by (auto simp: memset_head.simps [of d])
  qed
qed

lemma memset_words_spec:
  "memset_words d (ucast b * 0x0101010101010101) n m = (d', n', m') \<Longrightarrow>
    n' \<le> n \<and> d' = d + (n - n') \<and> m' = fill_mem d (n - n') b m"
proof (induction d "ucast b * 0x0101010101010101 :: u64" n m rule: memset_words.induct)
  case (1 d n m)
  show ?case
  proof (cases "8 \<le> n")
    case True
    from "1.prems" True have "memset_words (d + 8) (ucast b * 0x0101010101010101) (n - 8)
        (store64 m d (ucast b * 0x0101010101010101)) = (d', n', m')"
      by (subst (asm) memset_words.simps) (simp only: simp_thms if_True)
    from "1.hyps" [OF True this] have IH: "n' \<le> n - 8" "d' = d + 8 + (n - 8 - n')"
      "m' = fill_mem (d + 8) (n - 8 - n') b (fill_mem d 8 b m)"
      by (simp_all only: store64_repeat)
    note cd = count_down8 [OF IH(1) True]
    show ?thesis
      using True cd IH(2,3) fill_mem_split [OF cd(2), of d b m] by (simp add: cd(3))
  next
    case False
    with "1.prems" show ?thesis by (auto simp: memset_words.simps [of d])
  qed
qed

lemma memset_tail_spec: "memset_tail d b n m = fill_mem d n b m"
proof (induction d b n m rule: memset_tail.induct)
  case (1 d b n m)
  show ?case
  proof (cases "n \<noteq> 0")
    case True
    then have "memset_tail d b n m = memset_tail (d + 1) b (n - 1) (m(d := b))"
      by (subst memset_tail.simps) (simp only: simp_thms if_True)
    also have "\<dots> = fill_mem (d + 1) (n - 1) b (fill_mem d 1 b m)"
      unfolding "1.IH" [OF True] fill_mem_1 ..
    also have "\<dots> = fill_mem d n b m"
      by (rule fill_mem_split) (use True in unat_arith)
    finally show ?thesis .
  next
    case False
    then show ?thesis by (simp add: memset_tail.simps [of d])
  qed
qed

text \<open>Two consecutive phases of a loop that counts down from \<open>n\<close> through \<open>n1\<close> to \<open>n2\<close>.\<close>

lemma phases:
  fixes n n1 n2 :: u64
  assumes "n1 \<le> n" "n2 \<le> n1"
  shows "n2 \<le> n" "n - n1 \<le> n - n2" "n - n2 \<le> n" "n - n2 - (n - n1) = n1 - n2"
    "n - (n - n2) = n2" "d + (n - n1) + (n1 - n2) = d + (n - n2)"
  using assms by (unat_arith, unat_arith, unat_arith, simp, simp, simp)

lemma memset_spec: "memset dst c n m = (dst, fill_mem dst n (ucast c) m)"
proof -
  obtain d1 n1 m1 where h: "memset_head dst (ucast c) n m = (d1, n1, m1)"
    by (cases "memset_head dst (ucast c) n m") auto
  obtain d2 n2 m2 where w: "memset_words d1 (ucast (ucast c :: u8) * 0x0101010101010101) n1 m1
      = (d2, n2, m2)"
    by (cases "memset_words d1 (ucast (ucast c :: u8) * 0x0101010101010101) n1 m1") auto
  have H: "n1 \<le> n" "d1 = dst + (n - n1)" "m1 = fill_mem dst (n - n1) (ucast c) m"
    using memset_head_spec [OF h] by auto
  have W: "n2 \<le> n1" "d2 = d1 + (n1 - n2)" "m2 = fill_mem d1 (n1 - n2) (ucast c) m1"
    using memset_words_spec [OF w] by auto
  note p = phases [OF H(1) W(1)]
  have "m2 = fill_mem dst (n - n2) (ucast c) m"
    using fill_mem_split [OF p(2), of dst "ucast c" m] by (simp only: p H W)
  moreover have "d2 = dst + (n - n2)" by (simp only: p H W)
  ultimately have "memset_tail d2 (ucast c) n2 m2 = fill_mem dst n (ucast c) m"
    using fill_mem_split [OF p(3), of dst "ucast c" m] by (simp only: memset_tail_spec p)
  then show ?thesis by (simp add: memset_def h w)
qed

section \<open>Forward copy\<close>

text \<open>The condition under which copying upwards reads every source byte before it is
  overwritten: the destination is the source itself, or lies outside the \<open>n\<close> bytes
  after it (modulo the address space).\<close>

definition fwd_ok :: "u64 \<Rightarrow> u64 \<Rightarrow> u64 \<Rightarrow> bool" where
  "fwd_ok d s n = (d = s \<or> n \<le> d - s)"

lemma fwd_ok_shift: "fwd_ok d s n \<Longrightarrow> k \<le> n \<Longrightarrow> fwd_ok (d + j) (s + j) k"
  unfolding fwd_ok_def by auto

lemma copy_fwd_head_spec:
  "copy_fwd_head d s n m = (d', s', n', m') \<Longrightarrow> fwd_ok d s n \<Longrightarrow>
    n' \<le> n \<and> d' = d + (n - n') \<and> s' = s + (n - n') \<and> m' = copy_mem d s (n - n') m"
proof (induction d s n m rule: copy_fwd_head.induct)
  case (1 d s n m)
  show ?case
  proof (cases "n \<noteq> 0 \<and> d AND 7 \<noteq> 0")
    case True
    from "1.prems"(1) True have eq: "copy_fwd_head (d + 1) (s + 1) (n - 1) (m(d := m s)) = (d', s', n', m')"
      by (subst (asm) copy_fwd_head.simps) (simp only: simp_thms if_True)
    have n1: "n - 1 \<le> n" using True by unat_arith
    from "1.IH" [OF True eq fwd_ok_shift [OF "1.prems"(2) n1]]
    have IH: "n' \<le> n - 1" "d' = d + 1 + (n - 1 - n')" "s' = s + 1 + (n - 1 - n')"
      "m' = copy_mem (d + 1) (s + 1) (n - 1 - n') (copy_mem d s 1 m)"
      by (simp_all only: copy_mem_1)
    note cd = count_down [OF IH(1)]
    have ok: "d = s \<or> n - n' \<le> d - s"
      using fwd_ok_shift [OF "1.prems"(2), of "n - n'" 0] cd(1) True
      by (simp add: fwd_ok_def word_sub_le)
    show ?thesis
      using True cd IH(2,3,4) copy_mem_split_fwd [OF cd(2) ok, of m] by (simp add: cd(3))
  next
    case False
    with "1.prems" show ?thesis by (auto simp: copy_fwd_head.simps [of d])
  qed
qed

lemma copy_fwd_words_spec:
  "copy_fwd_words d s n m = (d', s', n', m') \<Longrightarrow> fwd_ok d s n \<Longrightarrow>
    n' \<le> n \<and> d' = d + (n - n') \<and> s' = s + (n - n') \<and> m' = copy_mem d s (n - n') m"
proof (induction d s n m rule: copy_fwd_words.induct)
  case (1 d s n m)
  show ?case
  proof (cases "8 \<le> n")
    case True
    from "1.prems"(1) True have eq: "copy_fwd_words (d + 8) (s + 8) (n - 8) (store64 m d (load64 m s))
        = (d', s', n', m')"
      by (subst (asm) copy_fwd_words.simps) (simp only: simp_thms if_True)
    have n1: "n - 8 \<le> n" using True by unat_arith
    from "1.IH" [OF True eq fwd_ok_shift [OF "1.prems"(2) n1]]
    have IH: "n' \<le> n - 8" "d' = d + 8 + (n - 8 - n')" "s' = s + 8 + (n - 8 - n')"
      "m' = copy_mem (d + 8) (s + 8) (n - 8 - n') (copy_mem d s 8 m)"
      by (simp_all only: store64_load64)
    note cd = count_down8 [OF IH(1) True]
    have ok: "d = s \<or> n - n' \<le> d - s"
      using fwd_ok_shift [OF "1.prems"(2), of "n - n'" 0] cd(1) True
      by (simp add: fwd_ok_def word_sub_le)
    show ?thesis
      using True cd IH(2,3,4) copy_mem_split_fwd [OF cd(2) ok, of m] by (simp add: cd(3))
  next
    case False
    with "1.prems" show ?thesis by (auto simp: copy_fwd_words.simps [of d])
  qed
qed

lemma copy_fwd_tail_spec: "fwd_ok d s n \<Longrightarrow> copy_fwd_tail d s n m = copy_mem d s n m"
proof (induction d s n m rule: copy_fwd_tail.induct)
  case (1 d s n m)
  show ?case
  proof (cases "n \<noteq> 0")
    case True
    then have "copy_fwd_tail d s n m = copy_fwd_tail (d + 1) (s + 1) (n - 1) (m(d := m s))"
      by (subst copy_fwd_tail.simps) (simp only: simp_thms if_True)
    also have "\<dots> = copy_mem (d + 1) (s + 1) (n - 1) (copy_mem d s 1 m)"
      unfolding copy_mem_1 by (rule "1.IH" [OF True fwd_ok_shift [OF "1.prems"]]) (use True in unat_arith)
    also have "\<dots> = copy_mem d s n m"
      by (rule copy_mem_split_fwd) (use True "1.prems" in \<open>unat_arith, simp add: fwd_ok_def\<close>)
    finally show ?thesis .
  next
    case False
    then show ?thesis by (simp add: copy_fwd_tail.simps [of d])
  qed
qed

lemma memcpy_spec:
  assumes ok: "fwd_ok dst src n"
  shows "memcpy dst src n m = (dst, copy_mem dst src n m)"
proof (cases "(dst XOR src) AND 7 = 0")
  case True
  obtain d1 s1 n1 m1 where h: "copy_fwd_head dst src n m = (d1, s1, n1, m1)"
    by (cases "copy_fwd_head dst src n m") auto
  obtain d2 s2 n2 m2 where w: "copy_fwd_words d1 s1 n1 m1 = (d2, s2, n2, m2)"
    by (cases "copy_fwd_words d1 s1 n1 m1") auto
  have H: "n1 \<le> n" "d1 = dst + (n - n1)" "s1 = src + (n - n1)" "m1 = copy_mem dst src (n - n1) m"
    using copy_fwd_head_spec [OF h ok] by auto
  have "fwd_ok d1 s1 n1" unfolding H(2,3) by (rule fwd_ok_shift [OF ok H(1)])
  note W0 = copy_fwd_words_spec [OF w this]
  have W: "n2 \<le> n1" "d2 = d1 + (n1 - n2)" "s2 = s1 + (n1 - n2)" "m2 = copy_mem d1 s1 (n1 - n2) m1"
    using W0 by auto
  note p = phases [OF H(1) W(1)]
  have ok2: "fwd_ok dst src (n - n2)" using fwd_ok_shift [OF ok p(3), of 0] by simp
  have "m2 = copy_mem dst src (n - n2) m"
    using copy_mem_split_fwd [OF p(2), of dst src m] ok2 by (simp only: p H W fwd_ok_def)
  moreover have "d2 = dst + (n - n2)" "s2 = src + (n - n2)" by (simp_all only: p H W)
  moreover from this have "fwd_ok d2 s2 n2" using fwd_ok_shift [OF ok p(1)] by simp
  ultimately have "copy_fwd_tail d2 s2 n2 m2 = copy_mem dst src n m"
    using copy_mem_split_fwd [OF p(3), of dst src m] ok
    by (simp only: copy_fwd_tail_spec p fwd_ok_def)
  then show ?thesis by (simp add: memcpy_def h w True)
next
  case False
  then show ?thesis by (simp add: memcpy_def copy_fwd_tail_spec [OF ok])
qed

section \<open>Backward copy\<close>

definition bwd_ok :: "u64 \<Rightarrow> u64 \<Rightarrow> u64 \<Rightarrow> bool" where
  "bwd_ok d s n = (n \<le> s - d)"

lemma bwd_ok_le: "bwd_ok d s n \<Longrightarrow> k \<le> n \<Longrightarrow> bwd_ok d s k"
  unfolding bwd_ok_def by auto

text \<open>The pointers of the backward loops are one past the region that is left.\<close>

lemma copy_bwd_head_spec:
  "copy_bwd_head (d + n) (s + n) n m = (d', s', n', m') \<Longrightarrow> bwd_ok d s n \<Longrightarrow>
    n' \<le> n \<and> d' = d + n' \<and> s' = s + n' \<and> m' = copy_mem (d + n') (s + n') (n - n') m"
proof (induction "unat n" arbitrary: n m rule: less_induct)
  case less
  show ?case
  proof (cases "n \<noteq> 0 \<and> (d + n) AND 7 \<noteq> 0")
    case True
    have sh: "d + n - 1 = d + (n - 1)" "s + n - 1 = s + (n - 1)" by simp_all
    from less.prems(1) True have eq: "copy_bwd_head (d + (n - 1)) (s + (n - 1)) (n - 1)
        (copy_mem (d + (n - 1)) (s + (n - 1)) 1 m) = (d', s', n', m')"
      by (subst (asm) copy_bwd_head.simps) (simp only: simp_thms if_True sh copy_mem_1)
    have n1: "n - 1 \<le> n" "unat (n - 1) < unat n" using True by unat_arith+
    from less.hyps [OF n1(2) eq bwd_ok_le [OF less.prems(2) n1(1)]]
    have IH: "n' \<le> n - 1" "d' = d + n'" "s' = s + n'"
      "m' = copy_mem (d + n') (s + n') (n - 1 - n') (copy_mem (d + (n - 1)) (s + (n - 1)) 1 m)"
      by simp_all
    note cd = count_down [OF IH(1)]
    have e: "d + n' + (n - n' - 1) = d + (n - 1)" "s + n' + (n - n' - 1) = s + (n - 1)" by simp_all
    have "n - n' \<le> n" using cd(1) True by (simp add: word_sub_le)
    then have "n - n' \<le> s + n' - (d + n')"
      using bwd_ok_le [OF less.prems(2)] by (simp add: bwd_ok_def)
    from copy_mem_split_bwd [OF _ this, of 1 m] cd True IH show ?thesis by (simp add: e cd(3))
  next
    case False
    with less.prems show ?thesis by (auto simp: copy_bwd_head.simps [of "d + n"])
  qed
qed

lemma copy_bwd_words_spec:
  "copy_bwd_words (d + n) (s + n) n m = (d', s', n', m') \<Longrightarrow> bwd_ok d s n \<Longrightarrow>
    n' \<le> n \<and> d' = d + n' \<and> s' = s + n' \<and> m' = copy_mem (d + n') (s + n') (n - n') m"
proof (induction "unat n" arbitrary: n m rule: less_induct)
  case less
  show ?case
  proof (cases "8 \<le> n")
    case True
    have sh: "d + n - 8 = d + (n - 8)" "s + n - 8 = s + (n - 8)" by simp_all
    from less.prems(1) True have eq: "copy_bwd_words (d + (n - 8)) (s + (n - 8)) (n - 8)
        (copy_mem (d + (n - 8)) (s + (n - 8)) 8 m) = (d', s', n', m')"
      by (subst (asm) copy_bwd_words.simps) (simp only: simp_thms if_True sh store64_load64)
    have n1: "n - 8 \<le> n" "unat (n - 8) < unat n" using True by unat_arith+
    from less.hyps [OF n1(2) eq bwd_ok_le [OF less.prems(2) n1(1)]]
    have IH: "n' \<le> n - 8" "d' = d + n'" "s' = s + n'"
      "m' = copy_mem (d + n') (s + n') (n - 8 - n') (copy_mem (d + (n - 8)) (s + (n - 8)) 8 m)"
      by simp_all
    note cd = count_down8 [OF IH(1) True]
    have e: "d + n' + (n - n' - 8) = d + (n - 8)" "s + n' + (n - n' - 8) = s + (n - 8)" by simp_all
    have "n - n' \<le> n" using cd(1) by (simp add: word_sub_le)
    then have "n - n' \<le> s + n' - (d + n')"
      using bwd_ok_le [OF less.prems(2)] by (simp add: bwd_ok_def)
    from copy_mem_split_bwd [OF cd(2) this, of m] cd IH show ?thesis by (simp add: e cd(3))
  next
    case False
    with less.prems show ?thesis by (auto simp: copy_bwd_words.simps [of "d + n"])
  qed
qed

lemma copy_bwd_tail_spec: "bwd_ok d s n \<Longrightarrow> copy_bwd_tail (d + n) (s + n) n m = copy_mem d s n m"
proof (induction "unat n" arbitrary: n m rule: less_induct)
  case less
  show ?case
  proof (cases "n \<noteq> 0")
    case True
    have sh: "d + n - 1 = d + (n - 1)" "s + n - 1 = s + (n - 1)" by simp_all
    from True have "copy_bwd_tail (d + n) (s + n) n m = copy_bwd_tail (d + (n - 1)) (s + (n - 1)) (n - 1)
        (copy_mem (d + (n - 1)) (s + (n - 1)) 1 m)"
      by (subst copy_bwd_tail.simps) (simp only: simp_thms if_True sh copy_mem_1)
    also have "\<dots> = copy_mem d s (n - 1) (copy_mem (d + (n - 1)) (s + (n - 1)) 1 m)"
      by (rule less.hyps [OF _ bwd_ok_le [OF less.prems]]) (use True in unat_arith, use True in unat_arith)
    also have "\<dots> = copy_mem d s n m"
      by (rule copy_mem_split_bwd) (use True less.prems in \<open>unat_arith, simp add: bwd_ok_def\<close>)
    finally show ?thesis .
  next
    case False
    then show ?thesis by (simp add: copy_bwd_tail.simps [of d s 0])
  qed
qed

lemma memmove_down_spec:
  assumes ok: "bwd_ok dst src n" and gt: "src < dst" and nz: "n \<noteq> 0"
  shows "memmove dst src n m = (dst, copy_mem dst src n m)"
proof -
  have br: "\<not> (dst = src \<or> n = 0)" "\<not> dst < src" using gt nz by auto
  show ?thesis
  proof (cases "((dst + n) XOR (src + n)) AND 7 = 0")
    case True
    obtain d1 s1 n1 m1 where h: "copy_bwd_head (dst + n) (src + n) n m = (d1, s1, n1, m1)"
      by (cases "copy_bwd_head (dst + n) (src + n) n m") auto
    have H: "n1 \<le> n" "d1 = dst + n1" "s1 = src + n1"
      "m1 = copy_mem (dst + n1) (src + n1) (n - n1) m"
      using copy_bwd_head_spec [OF h ok] by auto
    obtain d2 s2 n2 m2 where w: "copy_bwd_words (dst + n1) (src + n1) n1 m1 = (d2, s2, n2, m2)"
      by (cases "copy_bwd_words (dst + n1) (src + n1) n1 m1") auto
    have W: "n2 \<le> n1" "d2 = dst + n2" "s2 = src + n2"
      "m2 = copy_mem (dst + n2) (src + n2) (n1 - n2) m1"
      using copy_bwd_words_spec [OF w bwd_ok_le [OF ok H(1)]] by auto
    note le = order.trans [OF W(1) H(1)]
    have e: "n - (n - n1) = n1" "n1 - (n1 - n2) = n2" "n1 - n2 \<le> n1" "n - n1 \<le> n"
      using H(1) W(1) by (simp, simp, simp add: word_sub_le, simp add: word_sub_le)
    have "copy_bwd_tail d2 s2 n2 m2 = copy_mem dst src n2 m2"
      unfolding W(2,3) by (rule copy_bwd_tail_spec [OF bwd_ok_le [OF ok le]])
    also have "\<dots> = copy_mem dst src n1 m1"
      using copy_mem_split_bwd [OF e(3), of src dst m1] bwd_ok_le [OF ok H(1)]
      by (simp only: e(2) W(4) bwd_ok_def)
    also have "\<dots> = copy_mem dst src n m"
      using copy_mem_split_bwd [OF e(4), of src dst m] ok by (simp only: e(1) H(4) bwd_ok_def)
    finally show ?thesis
      unfolding memmove_def if_not_P [OF br(1)] if_not_P [OF br(2)] Let_def if_P [OF True]
      by (simp add: h) (simp add: w H(2,3))
  next
    case False
    show ?thesis
      unfolding memmove_def if_not_P [OF br(1)] if_not_P [OF br(2)] Let_def if_not_P [OF False]
      by (simp add: copy_bwd_tail_spec [OF ok])
  qed
qed

text \<open>Neither region wraps around the end of the address space.\<close>

lemma no_wrap_fwd:
  fixes d s n :: u64
  assumes "d < s" "unat s + unat n \<le> 2 ^ 64"
  shows "fwd_ok d s n"
proof -
  have "unat (d - s) = 2 ^ 64 - unat s + unat d"
    using assms(1) unat_u64_less [of s] unat_u64_less [of d]
    by (simp add: unat_sub_if_size word_size word_less_nat_alt)
  then show ?thesis using assms(2) by (intro fwd_ok_def [THEN iffD2] disjI2) (simp add: word_le_nat_alt)
qed

lemma no_wrap_bwd:
  fixes d s n :: u64
  assumes "s < d" "unat d + unat n \<le> 2 ^ 64"
  shows "bwd_ok d s n"
proof -
  have "unat (s - d) = 2 ^ 64 - unat d + unat s"
    using assms(1) unat_u64_less [of s] unat_u64_less [of d]
    by (simp add: unat_sub_if_size word_size word_less_nat_alt)
  then show ?thesis using assms(2) by (simp add: bwd_ok_def word_le_nat_alt)
qed

lemma copy_mem_self: "copy_mem d d n m = m"
  by (rule ext) (simp add: copy_mem_def)

lemma memmove_spec:
  assumes "unat src + unat n \<le> 2 ^ 64" "unat dst + unat n \<le> 2 ^ 64"
  shows "memmove dst src n m = (dst, copy_mem dst src n m)"
proof (cases rule: linorder_cases [of dst src])
  case less
  show ?thesis
  proof (cases "n = 0")
    case False
    with less have "memmove dst src n m = memcpy dst src n m" by (auto simp: memmove_def)
    also have "\<dots> = (dst, copy_mem dst src n m)"
      by (rule memcpy_spec [OF no_wrap_fwd [OF less assms(1)]])
    finally show ?thesis .
  qed (simp add: memmove_def)
next
  case equal
  then show ?thesis by (simp add: memmove_def copy_mem_self)
next
  case greater
  then show ?thesis
    using memmove_down_spec [OF no_wrap_bwd [OF greater assms(2)] greater]
    by (cases "n = 0") (simp_all add: memmove_def)
qed

section \<open>Comparison\<close>

text \<open>The bytes of a region, as a list, and the lexicographic three-way comparison.\<close>

definition region :: "mem \<Rightarrow> u64 \<Rightarrow> nat \<Rightarrow> u8 list" where
  "region m a k = map (\<lambda>i. m (a + of_nat i)) [0..<k]"

fun lex_sign :: "u8 list \<Rightarrow> u8 list \<Rightarrow> int" where
  "lex_sign (x # xs) (y # ys) = (if x < y then -1 else if y < x then 1 else lex_sign xs ys)"
| "lex_sign _ _ = 0"

lemma region_0 [simp]: "region m a 0 = []"
  by (simp add: region_def)

lemma length_region [simp]: "length (region m a k) = k"
  by (simp add: region_def)

lemma region_Suc: "region m a (Suc k) = m a # region m (a + 1) k"
  by (simp add: region_def map_upt_Suc algebra_simps del: upt_Suc)

lemma region_nth: "i < k \<Longrightarrow> region m a k ! i = m (a + of_nat i)"
  by (simp add: region_def)

lemma sgn_byte_diff:
  fixes x y :: u8
  shows "sgn (uint x - uint y) = (if x < y then -1 else if y < x then 1 else 0)"
  by (auto simp: word_less_def sgn_if)

lemma memcmp_spec: "sgn (memcmp m x y n) = lex_sign (region m x (unat n)) (region m y (unat n))"
proof (induction m x y n rule: memcmp.induct)
  case (1 m x y n)
  show ?case
  proof (cases "n = 0")
    case True
    then show ?thesis by (simp add: memcmp.simps [of m x y 0])
  next
    case False
    have n: "unat n = Suc (unat (n - 1))" using False by unat_arith
    show ?thesis
    proof (cases "m x = m y")
      case True
      then show ?thesis using 1 False by (simp add: memcmp.simps [of m x y n] n region_Suc)
    next
      case ne: False
      then show ?thesis
        using False by (auto simp: memcmp.simps [of m x y n] n region_Suc sgn_byte_diff)
    qed
  qed
qed

lemma lex_sign_eq_0: "length xs = length ys \<Longrightarrow> lex_sign xs ys = 0 \<longleftrightarrow> xs = ys"
  by (induction xs ys rule: lex_sign.induct) auto

section \<open>Properties\<close>

text \<open>C7: \<open>memmove\<close> returns its destination and leaves memory exactly as if the
  source bytes had first been read and then written: every byte of the destination region
  holds the byte the source region held before the call, however the regions overlap and
  whatever their alignment, and every other byte is unchanged, provided neither region runs
  past the end of the address space.\<close>

theorem memmove_correct:
  assumes "unat src + unat n \<le> 2 ^ 64" "unat dst + unat n \<le> 2 ^ 64"
  shows "fst (memmove dst src n m) = dst \<and>
    (\<forall>a. snd (memmove dst src n m) a = (if a - dst < n then m (src + (a - dst)) else m a))"
  using memmove_spec [OF assms] by (simp add: copy_mem_def)

lemma memmove_correct_witness:
  "snd (memmove 0x1001 0x1000 3 (\<lambda>a. ucast a)) 0x1002 = 1"
  using memmove_correct [of "0x1000" 3 "0x1001" "\<lambda>a. ucast a"] by simp

text \<open>C22: \<open>memset\<close> sets exactly the \<open>n\<close> bytes from \<open>dst\<close> to the low byte of its
  argument, for every alignment and length, and returns \<open>dst\<close>: the byte loops and the
  eight-byte store loop with the replicated pattern together equal the byte-wise fill.\<close>

theorem memset_correct:
  "fst (memset dst c n m) = dst \<and>
    (\<forall>a. snd (memset dst c n m) a = (if a - dst < n then ucast c else m a))"
  by (simp add: memset_spec fill_mem_def)

text \<open>C23: \<open>memcpy\<close> copies exactly, under the weakest condition its ascending order
  allows: the destination equals the source or does not start inside the source region
  after its first byte (overlap from above is what \<open>memmove\<close> is for).\<close>

theorem memcpy_correct:
  assumes "dst = src \<or> n \<le> dst - src"
  shows "fst (memcpy dst src n m) = dst \<and>
    (\<forall>a. snd (memcpy dst src n m) a = (if a - dst < n then m (src + (a - dst)) else m a))"
  using memcpy_spec [of dst src n m] assms by (simp add: copy_mem_def fwd_ok_def)

lemma memcpy_correct_witness:
  "snd (memcpy 0x1000 0x1001 16 (\<lambda>a. ucast a)) 0x1002 = 3"
  using memcpy_correct [of "0x1000" "0x1001" 16 "\<lambda>a. ucast a"] by simp

text \<open>C24: \<open>memcmp\<close> is the lexicographic three-way comparison of the two regions as
  unsigned bytes: the sign of its result is the sign of the first difference, and it is zero
  exactly when the regions are equal.\<close>

theorem memcmp_correct:
  "sgn (memcmp m x y n) = lex_sign (region m x (unat n)) (region m y (unat n)) \<and>
    (memcmp m x y n = 0 \<longleftrightarrow> region m x (unat n) = region m y (unat n))"
proof
  show sg: "sgn (memcmp m x y n) = lex_sign (region m x (unat n)) (region m y (unat n))"
    by (rule memcmp_spec)
  have "memcmp m x y n = 0 \<longleftrightarrow> sgn (memcmp m x y n) = 0" by (simp only: sgn_0_0)
  also have "\<dots> \<longleftrightarrow> region m x (unat n) = region m y (unat n)"
    unfolding sg by (rule lex_sign_eq_0) simp
  finally show "memcmp m x y n = 0 \<longleftrightarrow> region m x (unat n) = region m y (unat n)" .
qed

end
