(* ===== verification/Machine.thy ===== *)
theory Machine
  imports Prelude
begin

text \<open>
  The hart as the drivers see it: \<open>include/mmio.h\<close>, \<open>include/priv.h\<close> and the
  inline assembly of the platform code.  A state is the chronological list of accesses
  the program has made (volatile loads and stores, fences, \<open>wfi\<close>, reads of the
  \<open>time\<close> register, SBI calls, reads of CSRs that hardware writes, calls through
  function pointers the firmware registered, atomic instructions) together with the CSRs software owns.  What an access returns is decided by the environment, a function
  of the whole history and of the access: it stands for the devices, for memory a device
  writes by DMA, and for the execution environment below the program.  A theorem that
  quantifies over the environment therefore holds against every device behaviour.
\<close>

section \<open>State\<close>

datatype csr = CSR_STATUS | CSR_IE | CSR_IP | CSR_TVEC | CSR_EPC | CSR_CAUSE | CSR_TVAL
  | CSR_HARTID | CSR_STIMECMP

datatype amo = AmoSwap | AmoAdd | AmoAnd | AmoOr | AmoXor

datatype access =
    Rd8 u64 | Rd16 u64 | Rd32 u64 | Rd64 u64
  | Wr8 u64 u8 | Wr16 u64 u16 | Wr32 u64 u32 | Wr64 u64 u64
  | Fence | Wfi | Rdtime
  | CsrRd csr | CsrWr csr u64
  | Ecall u64 u64 "u64 list"
  | CallFn u64 "u64 list"
  | Lr32 u64 | Sc32 u64 u32 | Amo32 amo u64 u32
  | Lr64 u64 | Sc64 u64 u64 | Amo64 amo u64 u64
  | Pause

type_synonym history = "access list"
type_synonym env = "history \<Rightarrow> access \<Rightarrow> u64"

text \<open>\<open>xstatus\<close> and \<open>xie\<close> are only changed by the program's own set and clear
  instructions between traps, so they are state; \<open>xip\<close>, \<open>xcause\<close> and the like are
  written by hardware and are read through the environment.\<close>

record mach =
  trace :: history
  xstatus :: u64
  xie :: u64

definition emit :: "access \<Rightarrow> mach \<Rightarrow> mach" where
  "emit a m = m\<lparr>trace := trace m @ [a]\<rparr>"

definition ask :: "env \<Rightarrow> access \<Rightarrow> mach \<Rightarrow> u64 \<times> mach" where
  "ask E a m = (E (trace m) a, emit a m)"

section \<open>MMIO accessors (\<open>include/mmio.h\<close>)\<close>

definition mmio_r8 :: "env \<Rightarrow> u64 \<Rightarrow> mach \<Rightarrow> u8 \<times> mach" where
  "mmio_r8 E a m = (let (v, m) = ask E (Rd8 a) m in (ucast v, m))"

definition mmio_r16 :: "env \<Rightarrow> u64 \<Rightarrow> mach \<Rightarrow> u16 \<times> mach" where
  "mmio_r16 E a m = (let (v, m) = ask E (Rd16 a) m in (ucast v, m))"

definition mmio_r32 :: "env \<Rightarrow> u64 \<Rightarrow> mach \<Rightarrow> u32 \<times> mach" where
  "mmio_r32 E a m = (let (v, m) = ask E (Rd32 a) m in (ucast v, m))"

definition mmio_r64 :: "env \<Rightarrow> u64 \<Rightarrow> mach \<Rightarrow> u64 \<times> mach" where
  "mmio_r64 E a m = ask E (Rd64 a) m"

definition mmio_w8 :: "u64 \<Rightarrow> u8 \<Rightarrow> mach \<Rightarrow> mach" where
  "mmio_w8 a v m = emit (Wr8 a v) m"

definition mmio_w16 :: "u64 \<Rightarrow> u16 \<Rightarrow> mach \<Rightarrow> mach" where
  "mmio_w16 a v m = emit (Wr16 a v) m"

definition mmio_w32 :: "u64 \<Rightarrow> u32 \<Rightarrow> mach \<Rightarrow> mach" where
  "mmio_w32 a v m = emit (Wr32 a v) m"

definition mmio_w64 :: "u64 \<Rightarrow> u64 \<Rightarrow> mach \<Rightarrow> mach" where
  "mmio_w64 a v m = emit (Wr64 a v) m"

definition mmio_barrier :: "mach \<Rightarrow> mach" where
  "mmio_barrier m = emit Fence m"

section \<open>Privilege-level constants (\<open>include/priv.h\<close>)\<close>

datatype priv = MMode | SMode

text \<open>The builds can be enumerated, so a claim about every privilege level is evaluated.\<close>

instantiation priv :: enum
begin

definition enum_priv :: "priv list" where "enum_priv = [MMode, SMode]"
definition enum_all_priv :: "(priv \<Rightarrow> bool) \<Rightarrow> bool" where "enum_all_priv P \<longleftrightarrow> P MMode \<and> P SMode"
definition enum_ex_priv :: "(priv \<Rightarrow> bool) \<Rightarrow> bool" where "enum_ex_priv P \<longleftrightarrow> P MMode \<or> P SMode"

instance
proof
  show "(UNIV :: priv set) = set enum_class.enum" using priv.exhaust by (auto simp: enum_priv_def)
  show "distinct (enum_class.enum :: priv list)" by (simp add: enum_priv_def)
  show "enum_class.enum_all P \<longleftrightarrow> Ball UNIV P" for P :: "priv \<Rightarrow> bool" by (metis UNIV_I enum_all_priv_def priv.exhaust)
  show "enum_class.enum_ex P \<longleftrightarrow> Bex UNIV P" for P :: "priv \<Rightarrow> bool" by (metis UNIV_I enum_ex_priv_def priv.exhaust)
qed

end

definition STATUS_IE_BIT :: "priv \<Rightarrow> u64" where
  "STATUS_IE_BIT p = (case p of MMode \<Rightarrow> push_bit 3 1 | SMode \<Rightarrow> push_bit 1 1)"

definition IE_EXT_BIT :: "priv \<Rightarrow> u64" where
  "IE_EXT_BIT p = (case p of MMode \<Rightarrow> push_bit 11 1 | SMode \<Rightarrow> push_bit 9 1)"

definition IE_TIMER_BIT :: "priv \<Rightarrow> u64" where
  "IE_TIMER_BIT p = (case p of MMode \<Rightarrow> push_bit 7 1 | SMode \<Rightarrow> push_bit 5 1)"

definition IE_SOFT_BIT :: "priv \<Rightarrow> u64" where
  "IE_SOFT_BIT p = (case p of MMode \<Rightarrow> push_bit 3 1 | SMode \<Rightarrow> push_bit 1 1)"

definition CAUSE_EXTERNAL :: "priv \<Rightarrow> u64" where
  "CAUSE_EXTERNAL p = (case p of MMode \<Rightarrow> 11 | SMode \<Rightarrow> 9)"

definition CAUSE_TIMER :: "priv \<Rightarrow> u64" where
  "CAUSE_TIMER p = (case p of MMode \<Rightarrow> 7 | SMode \<Rightarrow> 5)"

definition CAUSE_SOFTWARE :: "priv \<Rightarrow> u64" where
  "CAUSE_SOFTWARE p = (case p of MMode \<Rightarrow> 3 | SMode \<Rightarrow> 1)"

definition CAUSE_INTERRUPT_BIT :: u64 where
  "CAUSE_INTERRUPT_BIT = push_bit 63 1"

section \<open>Facts\<close>

text \<open>An interrupt's enable bit is the bit its cause numbers.\<close>

lemma enable_bit_of_cause:
  "\<forall>B. IE_EXT_BIT B = 2 ^ unat (CAUSE_EXTERNAL B) \<and> IE_TIMER_BIT B = 2 ^ unat (CAUSE_TIMER B) \<and>
     IE_SOFT_BIT B = 2 ^ unat (CAUSE_SOFTWARE B)"
  by code_simp


lemma mach_access_simps [simp]:
  "trace (emit a m) = trace m @ [a]"
  "xstatus (emit a m) = xstatus m"
  "xie (emit a m) = xie m"
  by (simp_all add: emit_def)

lemma emit_update [simp]:
  "emit a (m\<lparr>xstatus := s\<rparr>) = (emit a m)\<lparr>xstatus := s\<rparr>"
  "emit a (m\<lparr>xie := s\<rparr>) = (emit a m)\<lparr>xie := s\<rparr>"
  by (simp_all add: emit_def)

lemma ask_simp [simp]: "ask E a m = (E (trace m) a, emit a m)"
  by (simp add: ask_def)

lemma mmio_simps [simp]:
  "mmio_r8 E a m = (ucast (E (trace m) (Rd8 a)), emit (Rd8 a) m)"
  "mmio_r16 E a m = (ucast (E (trace m) (Rd16 a)), emit (Rd16 a) m)"
  "mmio_r32 E a m = (ucast (E (trace m) (Rd32 a)), emit (Rd32 a) m)"
  "mmio_r64 E a m = (E (trace m) (Rd64 a), emit (Rd64 a) m)"
  "mmio_w8 a v8 m = emit (Wr8 a v8) m"
  "mmio_w16 a v16 m = emit (Wr16 a v16) m"
  "mmio_w32 a v32 m = emit (Wr32 a v32) m"
  "mmio_w64 a v64 m = emit (Wr64 a v64) m"
  "mmio_barrier m = emit Fence m"
  by (simp_all add: mmio_r8_def mmio_r16_def mmio_r32_def mmio_r64_def mmio_w8_def
      mmio_w16_def mmio_w32_def mmio_w64_def mmio_barrier_def)

text \<open>Several accesses at once: the net effect of a straight-line register sequence.\<close>

definition emits :: "history \<Rightarrow> mach \<Rightarrow> mach" where
  "emits as m = m\<lparr>trace := trace m @ as\<rparr>"

lemma emits_simps [simp]:
  "trace (emits as m) = trace m @ as"
  "xstatus (emits as m) = xstatus m"
  "xie (emits as m) = xie m"
  "emits [] m = m"
  "emit a (emits as m) = emits (as @ [a]) m"
  "emits bs (emits as m) = emits (as @ bs) m"
  by (simp_all add: emits_def emit_def)

lemma emit_emits: "emit a m = emits [a] m"
  by (simp add: emits_def emit_def)

lemma emits_eqI: "trace m' = trace m @ as \<Longrightarrow> xstatus m' = xstatus m \<Longrightarrow> xie m' = xie m \<Longrightarrow>
  mach.more m' = mach.more m \<Longrightarrow> m' = emits as m"
  by (simp add: emits_def)

text \<open>A fresh hart: nothing accessed, every CSR zero.\<close>

definition mach0 :: mach where
  "mach0 = \<lparr>trace = [], xstatus = 0, xie = 0\<rparr>"

lemma mach0_simps [simp]: "trace mach0 = []" "xstatus mach0 = 0" "xie mach0 = 0"
  by (simp_all add: mach0_def)

text \<open>The writes of one width to one address, oldest first.\<close>

definition writes8 :: "u64 \<Rightarrow> history \<Rightarrow> u8 list" where
  "writes8 a h = List.map_filter (\<lambda>x. case x of Wr8 b v \<Rightarrow> if b = a then Some v else None | _ \<Rightarrow> None) h"

definition writes32 :: "u64 \<Rightarrow> history \<Rightarrow> u32 list" where
  "writes32 a h = List.map_filter (\<lambda>x. case x of Wr32 b v \<Rightarrow> if b = a then Some v else None | _ \<Rightarrow> None) h"

lemma writes_Nil [simp]: "writes8 a [] = []" "writes32 a [] = []"
  by (simp_all add: writes8_def writes32_def)

lemma writes_append [simp]:
  "writes8 a (h @ k) = writes8 a h @ writes8 a k"
  "writes32 a (h @ k) = writes32 a h @ writes32 a k"
  by (simp_all add: writes8_def writes32_def List.map_filter_def)

lemma writes8_Cons:
  "writes8 a (x # h) = (case x of Wr8 b v \<Rightarrow> if b = a then v # writes8 a h else writes8 a h
     | _ \<Rightarrow> writes8 a h)"
  by (cases x) (simp_all add: writes8_def List.map_filter_def)

lemma writes32_Cons:
  "writes32 a (x # h) = (case x of Wr32 b v \<Rightarrow> if b = a then v # writes32 a h else writes32 a h
     | _ \<Rightarrow> writes32 a h)"
  by (cases x) (simp_all add: writes32_def List.map_filter_def)

end
