(* ===== verification/Uart.thy ===== *)
theory Uart
  imports Machine
begin

text \<open>
  The NS16550A driver, \<open>src/uart.c\<close>.  The static \<open>uart_base\<close> is the argument
  \<open>b\<close> of every accessor (\<open>uart_init\<close> returns its new value).  Characters are bytes;
  a C string is the list of its bytes, ended by a zero byte or by the end of the list.
  \<open>None\<close> stands for a call that does not return, or for an access outside an array.
  The formatters are refined to pure renderings: each one sends exactly the bytes of a
  list, one by one, through \<open>uart_putc\<close>.
\<close>

section \<open>Registers and character I/O\<close>

definition RVVM_UART_BASE :: u64 where "RVVM_UART_BASE = 0x10000000"
definition UART_RBR :: u32 where "UART_RBR = 0"
definition UART_THR :: u32 where "UART_THR = 0"
definition UART_DLL :: u32 where "UART_DLL = 0"
definition UART_IER :: u32 where "UART_IER = 1"
definition UART_DLM :: u32 where "UART_DLM = 1"
definition UART_FCR :: u32 where "UART_FCR = 2"
definition UART_LCR :: u32 where "UART_LCR = 3"
definition UART_MCR :: u32 where "UART_MCR = 4"
definition UART_LSR :: u32 where "UART_LSR = 5"
definition LSR_DR :: u8 where "LSR_DR = 0x01"
definition LSR_THRE :: u8 where "LSR_THRE = 0x20"

lemmas uart_regs = UART_RBR_def UART_THR_def UART_DLL_def UART_IER_def UART_DLM_def
  UART_FCR_def UART_LCR_def UART_MCR_def UART_LSR_def

definition uart_r :: "env \<Rightarrow> u64 \<Rightarrow> u32 \<Rightarrow> mach \<Rightarrow> u8 \<times> mach" where
  "uart_r E b off m = mmio_r8 E (b + ucast off) m"

definition uart_w :: "u64 \<Rightarrow> u32 \<Rightarrow> u8 \<Rightarrow> mach \<Rightarrow> mach" where
  "uart_w b off v m = mmio_w8 (b + ucast off) v m"

definition uart_init :: "u64 \<Rightarrow> u64 \<Rightarrow> mach \<Rightarrow> u64 \<times> mach" where
  "uart_init uart_base base m =
     (let b = (if base \<noteq> 0 then base else uart_base);
          m = uart_w b UART_IER 0x00 m;
          m = uart_w b UART_LCR 0x80 m;
          m = uart_w b UART_DLL 0x01 m;
          m = uart_w b UART_DLM 0x00 m;
          m = uart_w b UART_LCR 0x03 m;
          m = uart_w b UART_FCR (0x01 OR 0x02 OR 0x04 OR 0xC0) m;
          m = uart_w b UART_MCR (0x01 OR 0x02 OR 0x08) m
      in (b, m))"

partial_function (option) uart_wait_thre :: "env \<Rightarrow> u64 \<Rightarrow> mach \<Rightarrow> mach option" where
  "uart_wait_thre E b m =
     (let (v, m) = uart_r E b UART_LSR m
      in if v AND LSR_THRE = 0 then uart_wait_thre E b m else Some m)"

definition uart_putc :: "env \<Rightarrow> u64 \<Rightarrow> u8 \<Rightarrow> mach \<Rightarrow> mach option" where
  "uart_putc E b c m = do { m \<leftarrow> uart_wait_thre E b m; Some (uart_w b UART_THR c m) }"

fun uart_puts :: "env \<Rightarrow> u64 \<Rightarrow> u8 list \<Rightarrow> mach \<Rightarrow> mach option" where
  "uart_puts E b [] m = Some m"
| "uart_puts E b (c # cs) m =
     (if c = 0 then Some m
      else do {
        m \<leftarrow> (if c = 10 then uart_putc E b 13 m else Some m);
        m \<leftarrow> uart_putc E b c m;
        uart_puts E b cs m })"

text \<open>\<open>uart_write(buf, len)\<close>, with \<open>buf\<close> as the list of the bytes it points to: a
  buffer shorter than \<open>len\<close> is an out-of-bounds read.\<close>

fun uart_write_loop :: "env \<Rightarrow> u64 \<Rightarrow> u8 list \<Rightarrow> nat \<Rightarrow> mach \<Rightarrow> mach option" where
  "uart_write_loop E b p 0 m = Some m"
| "uart_write_loop E b [] (Suc n) m = None"
| "uart_write_loop E b (c # cs) (Suc n) m =
     do { m \<leftarrow> uart_putc E b c m; uart_write_loop E b cs n m }"

definition uart_write :: "env \<Rightarrow> u64 \<Rightarrow> u8 list \<Rightarrow> u64 \<Rightarrow> mach \<Rightarrow> mach option" where
  "uart_write E b buf len m = uart_write_loop E b buf (unat len) m"

definition uart_getc_nb :: "env \<Rightarrow> u64 \<Rightarrow> mach \<Rightarrow> int \<times> mach" where
  "uart_getc_nb E b m =
     (let (lsr, m) = uart_r E b UART_LSR m
      in if lsr AND LSR_DR \<noteq> 0
         then (let (c, m) = uart_r E b UART_RBR m in (uint c, m))
         else (- 1, m))"

partial_function (option) uart_getc :: "env \<Rightarrow> u64 \<Rightarrow> mach \<Rightarrow> (u8 \<times> mach) option" where
  "uart_getc E b m =
     (let (c, m) = uart_getc_nb E b m
      in if c < 0 then uart_getc E b m else Some (of_int c, m))"

definition uart_irq_rx_enable :: "env \<Rightarrow> u64 \<Rightarrow> bool \<Rightarrow> mach \<Rightarrow> mach" where
  "uart_irq_rx_enable E b enable m =
     (let (ier, m) = uart_r E b UART_IER m
      in uart_w b UART_IER (if enable then ier OR 1 else ier AND NOT 1) m)"

section \<open>Number formatting\<close>

definition hex_digits :: "u8 list" where
  "hex_digits = bytes_of ''0123456789abcdef''"

definition hex_digit :: "u64 \<Rightarrow> u8" where
  "hex_digit x = hex_digits ! unat (x AND 0xF)"

definition uart_put_hex8 :: "env \<Rightarrow> u64 \<Rightarrow> u8 \<Rightarrow> mach \<Rightarrow> mach option" where
  "uart_put_hex8 E b v m =
     do { m \<leftarrow> uart_putc E b (hex_digit (ucast (drop_bit 4 v))) m;
          uart_putc E b (hex_digit (ucast v)) m }"

text \<open>\<open>for (int i = 4 * k - 4; i >= 0; i -= 4)\<close>, counted by \<open>k\<close>.\<close>

fun uart_hex_loop :: "env \<Rightarrow> u64 \<Rightarrow> u64 \<Rightarrow> nat \<Rightarrow> mach \<Rightarrow> mach option" where
  "uart_hex_loop E b v 0 m = Some m"
| "uart_hex_loop E b v (Suc k) m =
     do { m \<leftarrow> uart_putc E b (hex_digit (drop_bit (4 * k) v)) m; uart_hex_loop E b v k m }"

definition uart_put_hex32 :: "env \<Rightarrow> u64 \<Rightarrow> u32 \<Rightarrow> mach \<Rightarrow> mach option" where
  "uart_put_hex32 E b v m =
     do { m \<leftarrow> uart_puts E b (bytes_of ''0x'') m; uart_hex_loop E b (ucast v) 8 m }"

definition uart_put_hex64 :: "env \<Rightarrow> u64 \<Rightarrow> u64 \<Rightarrow> mach \<Rightarrow> mach option" where
  "uart_put_hex64 E b v m =
     do { m \<leftarrow> uart_puts E b (bytes_of ''0x'') m; uart_hex_loop E b v 16 m }"

text \<open>The digit buffer \<open>char buf[24]\<close> is a list of that length; a store past its end is
  \<open>None\<close>.\<close>

function udec_fill :: "u64 \<Rightarrow> u8 list \<Rightarrow> nat \<Rightarrow> (u8 list \<times> nat) option" where
  "udec_fill v buf i =
     (if v \<noteq> 0
      then (if i < length buf
            then udec_fill (v div 10) (buf[i := 48 + ucast (v mod 10)]) (i + 1)
            else None)
      else Some (buf, i))"
  by pat_completeness auto
termination
proof (relation "measure (\<lambda>(v, buf, i). unat v)")
  fix v :: u64 and buf :: "u8 list" and i
  assume "v \<noteq> 0"
  then have "0 < unat v" by (simp add: unat_gt_0)
  then show "((v div 10, buf[i := 48 + ucast (v mod 10)], i + 1), v, buf, i)
      \<in> measure (\<lambda>(v, buf, i). unat v)"
    by (simp add: unat_div_distrib)
qed simp

declare udec_fill.simps [simp del]

fun udec_emit :: "env \<Rightarrow> u64 \<Rightarrow> u8 list \<Rightarrow> nat \<Rightarrow> mach \<Rightarrow> mach option" where
  "udec_emit E b buf 0 m = Some m"
| "udec_emit E b buf (Suc i) m = do { m \<leftarrow> uart_putc E b (buf ! i) m; udec_emit E b buf i m }"

definition uart_put_udec :: "env \<Rightarrow> u64 \<Rightarrow> u64 \<Rightarrow> mach \<Rightarrow> mach option" where
  "uart_put_udec E b v m =
     (if v = 0 then uart_putc E b 48 m
      else do { (buf, i) \<leftarrow> udec_fill v (replicate 24 0) 0; udec_emit E b buf i m })"

text \<open>The negation of the most negative value wraps, as the generated code does.\<close>

definition uart_put_dec :: "env \<Rightarrow> u64 \<Rightarrow> u64 \<Rightarrow> mach \<Rightarrow> mach option" where
  "uart_put_dec E b v m =
     (if v <s 0 then do { m \<leftarrow> uart_putc E b 45 m; uart_put_udec E b (- v) m }
      else uart_put_udec E b v m)"

section \<open>Hex dump\<close>

text \<open>The dumped memory is \<open>mm\<close>, the pointer \<open>p\<close>; the inner loops run over the
  sixteen columns, counted by the columns that are left.\<close>

fun hexdump_cols :: "env \<Rightarrow> u64 \<Rightarrow> mem \<Rightarrow> u64 \<Rightarrow> u64 \<Rightarrow> u64 \<Rightarrow> nat \<Rightarrow> mach \<Rightarrow> mach option" where
  "hexdump_cols E b mm p len off 0 m = Some m"
| "hexdump_cols E b mm p len off (Suc k) m =
     (let i = of_nat (15 - k) :: u64 in
      do {
        m \<leftarrow> (if off + i < len
              then do { m \<leftarrow> uart_put_hex8 E b (mm (p + (off + i))) m; uart_putc E b 32 m }
              else uart_puts E b (bytes_of ''   '') m);
        m \<leftarrow> (if i = 7 then uart_putc E b 32 m else Some m);
        hexdump_cols E b mm p len off k m })"

fun hexdump_text :: "env \<Rightarrow> u64 \<Rightarrow> mem \<Rightarrow> u64 \<Rightarrow> u64 \<Rightarrow> u64 \<Rightarrow> nat \<Rightarrow> mach \<Rightarrow> mach option" where
  "hexdump_text E b mm p len off 0 m = Some m"
| "hexdump_text E b mm p len off (Suc k) m =
     (let i = of_nat (15 - k) :: u64 in
      if off + i < len
      then do {
        let c = mm (p + (off + i));
        m \<leftarrow> uart_putc E b (if 0x20 \<le> c \<and> c < 0x7F then c else 46) m;
        hexdump_text E b mm p len off k m }
      else Some m)"

partial_function (option) hexdump_rows ::
  "env \<Rightarrow> u64 \<Rightarrow> mem \<Rightarrow> u64 \<Rightarrow> u64 \<Rightarrow> u64 \<Rightarrow> mach \<Rightarrow> mach option" where
  "hexdump_rows E b mm p len off m =
     (if off < len
      then do {
        m \<leftarrow> uart_put_hex64 E b (p + off) m;
        m \<leftarrow> uart_puts E b (bytes_of ''  '') m;
        m \<leftarrow> hexdump_cols E b mm p len off 16 m;
        m \<leftarrow> uart_puts E b (bytes_of '' |'') m;
        m \<leftarrow> hexdump_text E b mm p len off 16 m;
        m \<leftarrow> uart_puts E b [124, 10] m;
        hexdump_rows E b mm p len (off + 16) m }
      else Some m)"

definition uart_hexdump :: "env \<Rightarrow> u64 \<Rightarrow> mem \<Rightarrow> u64 \<Rightarrow> u64 \<Rightarrow> mach \<Rightarrow> mach option" where
  "uart_hexdump E b mm p len m = hexdump_rows E b mm p len 0 m"

section \<open>Formatted output\<close>

text \<open>An argument of the variadic call: a machine word, or a pointer to a string.  Reading
  an argument that is not there, or of the other kind, is undefined.\<close>

datatype vararg = VWord u64 | VStr "u8 list"

fun va_word :: "vararg list \<Rightarrow> (u64 \<times> vararg list) option" where
  "va_word (VWord w # ap) = Some (w, ap)"
| "va_word _ = None"

fun va_str :: "vararg list \<Rightarrow> (u8 list \<times> vararg list) option" where
  "va_str (VStr s # ap) = Some (s, ap)"
| "va_str _ = None"

fun uart_vprintf :: "env \<Rightarrow> u64 \<Rightarrow> u8 list \<Rightarrow> vararg list \<Rightarrow> mach \<Rightarrow> mach option" where
  "uart_vprintf E b [] ap m = Some m"
| "uart_vprintf E b [f] ap m =
     (if f = 0 \<or> f = 37 then Some m else uart_putc E b f m)"
| "uart_vprintf E b (f # g # fmt) ap m =
     (if f = 0 then Some m
      else if f \<noteq> 37 then do { m \<leftarrow> uart_putc E b f m; uart_vprintf E b (g # fmt) ap m }
      else if g = 99 then do { (w, ap) \<leftarrow> va_word ap; m \<leftarrow> uart_putc E b (ucast w) m;
                               uart_vprintf E b fmt ap m }
      else if g = 115 then do { (s, ap) \<leftarrow> va_str ap; m \<leftarrow> uart_puts E b s m;
                                uart_vprintf E b fmt ap m }
      else if g = 100 then do { (w, ap) \<leftarrow> va_word ap; m \<leftarrow> uart_put_dec E b w m;
                                uart_vprintf E b fmt ap m }
      else if g = 117 then do { (w, ap) \<leftarrow> va_word ap; m \<leftarrow> uart_put_udec E b w m;
                                uart_vprintf E b fmt ap m }
      else if g = 120 \<or> g = 112 then do { (w, ap) \<leftarrow> va_word ap; m \<leftarrow> uart_put_hex64 E b w m;
                                           uart_vprintf E b fmt ap m }
      else if g = 37 then do { m \<leftarrow> uart_putc E b 37 m; uart_vprintf E b fmt ap m }
      else if g = 0 then Some m
      else do { m \<leftarrow> uart_putc E b 63 m; uart_vprintf E b fmt ap m })"

definition uart_printf :: "env \<Rightarrow> u64 \<Rightarrow> string \<Rightarrow> vararg list \<Rightarrow> mach \<Rightarrow> mach option" where
  "uart_printf E b fmt ap m = uart_vprintf E b (bytes_of fmt) ap m"



section \<open>Sending a list of bytes\<close>

fun put_all :: "(u8 \<Rightarrow> 's \<Rightarrow> 's option) \<Rightarrow> u8 list \<Rightarrow> 's \<Rightarrow> 's option" where
  "put_all putc [] s = Some s"
| "put_all putc (c # cs) s = Option.bind (putc c s) (put_all putc cs)"

lemma put_all_append:
  "put_all putc (xs @ ys) s = Option.bind (put_all putc xs s) (put_all putc ys)"
  by (induction xs arbitrary: s) (simp_all split: bind_split)

lemma put_all_Nil_fun [simp]: "put_all putc [] = Some"
  by (rule ext) simp

lemma put_all_Cons_fun [simp]:
  "put_all putc (c # cs) = (\<lambda>s. Option.bind (putc c s) (put_all putc cs))"
  by (rule ext) simp

text \<open>What a character device promises its formatters: a call that returns has sent the
  byte after everything sent before, and on a live device every call returns.\<close>

locale byte_sink =
  fixes putc :: "u8 \<Rightarrow> 's \<Rightarrow> 's option"
    and sent :: "'s \<Rightarrow> u8 list"
    and live :: bool
  assumes putc_sent: "putc c s = Some s' \<Longrightarrow> sent s' = sent s @ [c]"
    and putc_live: "live \<Longrightarrow> \<exists>s'. putc c s = Some s'"
begin

lemma put_all_sent: "put_all putc cs s = Some s' \<Longrightarrow> sent s' = sent s @ cs"
  by (induction cs arbitrary: s) (auto simp: bind_Some_iff dest: putc_sent)

lemma put_all_live:
  assumes live
  shows "\<exists>s'. put_all putc cs s = Some s'"
proof (induction cs arbitrary: s)
  case (Cons c cs)
  obtain s1 where "putc c s = Some s1" using putc_live [OF assms] by blast
  then show ?case using Cons.IH [of s1] by simp
qed simp

lemma put_all_total:
  assumes live
  shows "\<exists>s'. put_all putc cs s = Some s' \<and> sent s' = sent s @ cs"
  using put_all_live [OF assms] put_all_sent by blast

end

section \<open>Waiting for the transmitter\<close>

definition lsr_addr :: "u64 \<Rightarrow> u64" where "lsr_addr b = b + 5"

text \<open>After \<open>k\<close> polls of the line status register that follow the history \<open>h\<close>, the
  transmitter is ready.\<close>

definition thre_at :: "env \<Rightarrow> u64 \<Rightarrow> history \<Rightarrow> nat \<Rightarrow> bool" where
  "thre_at E b h k =
     ((ucast (E (h @ replicate k (Rd8 (lsr_addr b))) (Rd8 (lsr_addr b))) :: u8) AND LSR_THRE \<noteq> 0)"

definition uart_live :: "env \<Rightarrow> u64 \<Rightarrow> bool" where
  "uart_live E b = (\<forall>h. \<exists>k. thre_at E b h k)"

lemma uart_wait_thre_step:
  "uart_wait_thre E b m =
     (if thre_at E b (trace m) 0 then Some (emit (Rd8 (lsr_addr b)) m)
      else uart_wait_thre E b (emit (Rd8 (lsr_addr b)) m))"
  by (subst uart_wait_thre.simps) (simp add: uart_r_def thre_at_def lsr_addr_def UART_LSR_def)

lemma thre_at_shift: "thre_at E b (h @ [Rd8 (lsr_addr b)]) k = thre_at E b h (Suc k)"
  by (simp add: thre_at_def)

lemma uart_wait_thre_reaches:
  assumes "thre_at E b (trace m) k" "\<And>j. j < k \<Longrightarrow> \<not> thre_at E b (trace m) j"
  shows "uart_wait_thre E b m = Some (emits (replicate (Suc k) (Rd8 (lsr_addr b))) m)"
  using assms
proof (induction k arbitrary: m)
  case 0
  then show ?case by (simp add: uart_wait_thre_step [of E b m] emit_emits)
next
  case (Suc k)
  have n0: "\<not> thre_at E b (trace m) 0" using Suc.prems(2) by blast
  let ?m = "emit (Rd8 (lsr_addr b)) m"
  have "uart_wait_thre E b ?m = Some (emits (replicate (Suc k) (Rd8 (lsr_addr b))) ?m)"
  proof (rule Suc.IH)
    show "thre_at E b (trace ?m) k" using Suc.prems(1) by (simp add: thre_at_shift)
    fix j assume "j < k"
    then show "\<not> thre_at E b (trace ?m) j" using Suc.prems(2) [of "Suc j"] by (simp add: thre_at_shift)
  qed
  then show ?case using n0 by (simp add: uart_wait_thre_step [of E b m] emit_emits)
qed

lemma uart_wait_thre_Some:
  assumes "uart_wait_thre E b m = Some m'"
  shows "\<exists>k. thre_at E b (trace m) k \<and> (\<forall>j<k. \<not> thre_at E b (trace m) j) \<and>
        m' = emits (replicate (Suc k) (Rd8 (lsr_addr b))) m"
proof -
  have "\<exists>k. thre_at E b (trace m) k"
  proof (rule uart_wait_thre.raw_induct [where P = "\<lambda>E b m m'. \<exists>k. thre_at E b (trace m) k", OF _ assms])
    fix f :: "env \<Rightarrow> u64 \<Rightarrow> mach \<Rightarrow> mach option" and E b m m'
    assume IH: "\<And>E b m m'. f E b m = Some m' \<Longrightarrow> \<exists>k. thre_at E b (trace m) k"
      and eq: "(let (v, m) = uart_r E b UART_LSR m
        in if v AND LSR_THRE = 0 then f E b m else Some m) = Some m'"
    show "\<exists>k. thre_at E b (trace m) k"
    proof (cases "thre_at E b (trace m) 0")
      case False
      with eq have "f E b (emit (Rd8 (lsr_addr b)) m) = Some m'"
        by (simp add: uart_r_def thre_at_def lsr_addr_def UART_LSR_def)
      from IH [OF this] show ?thesis by (auto simp: thre_at_shift)
    qed blast
  qed
  then obtain k where k: "thre_at E b (trace m) k" "\<forall>j<k. \<not> thre_at E b (trace m) j"
    using exists_least_iff [of "thre_at E b (trace m)"] by blast
  with uart_wait_thre_reaches [of E b m k] assms show ?thesis by auto
qed

lemma uart_wait_thre_live:
  assumes "uart_live E b"
  shows "\<exists>m'. uart_wait_thre E b m = Some m'"
proof -
  obtain k where "thre_at E b (trace m) k" "\<forall>j<k. \<not> thre_at E b (trace m) j"
    using assms exists_least_iff [of "thre_at E b (trace m)"] unfolding uart_live_def by blast
  with uart_wait_thre_reaches [of E b m k] show ?thesis by auto
qed

definition uart_out :: "u64 \<Rightarrow> mach \<Rightarrow> u8 list" where
  "uart_out b m = writes8 b (trace m)"

lemma writes8_replicate_Rd8 [simp]: "writes8 a (replicate k (Rd8 x)) = []"
  by (induction k) (simp_all add: writes8_Cons)

lemma uart_putc_Some:
  "uart_putc E b c m = Some m' \<Longrightarrow>
    \<exists>k. thre_at E b (trace m) k \<and> (\<forall>j<k. \<not> thre_at E b (trace m) j) \<and>
        m' = emits (replicate (Suc k) (Rd8 (lsr_addr b)) @ [Wr8 b c]) m"
  by (auto simp: uart_putc_def bind_Some_iff uart_w_def UART_THR_def dest!: uart_wait_thre_Some)

lemma uart_putc_sent: "uart_putc E b c m = Some m' \<Longrightarrow> uart_out b m' = uart_out b m @ [c]"
  by (auto simp: uart_out_def writes8_Cons dest!: uart_putc_Some)

lemma uart_putc_live: "uart_live E b \<Longrightarrow> \<exists>m'. uart_putc E b c m = Some m'"
  using uart_wait_thre_live [of E b m] by (auto simp: uart_putc_def)

interpretation uart: byte_sink "uart_putc E b" "uart_out b" "uart_live E b" for E b
  by unfold_locales (rule uart_putc_sent, assumption, rule uart_putc_live)

section \<open>Formatters are renderings sent byte by byte\<close>

fun render_puts :: "u8 list \<Rightarrow> u8 list" where
  "render_puts [] = []"
| "render_puts (c # cs) = (if c = 0 then [] else if c = 10 then 13 # 10 # render_puts cs
     else c # render_puts cs)"

function dec_rev :: "nat \<Rightarrow> u8 list" where
  "dec_rev n = (if n = 0 then [] else (48 + of_nat (n mod 10)) # dec_rev (n div 10))"
  by pat_completeness auto
termination by (relation "measure id") auto

declare dec_rev.simps [simp del]

definition render_udec :: "u64 \<Rightarrow> u8 list" where
  "render_udec v = (if v = 0 then [48] else rev (dec_rev (unat v)))"

definition render_dec :: "u64 \<Rightarrow> u8 list" where
  "render_dec v = (if v <s 0 then 45 # render_udec (- v) else render_udec v)"

definition render_hex :: "nat \<Rightarrow> u64 \<Rightarrow> u8 list" where
  "render_hex k v = map (\<lambda>i. hex_digit (drop_bit (4 * i) v)) (rev [0..<k])"

definition render_hex64 :: "u64 \<Rightarrow> u8 list" where
  "render_hex64 v = bytes_of ''0x'' @ render_hex 16 v"

lemma uart_puts_put_all: "uart_puts E b cs m = put_all (uart_putc E b) (render_puts cs) m"
proof (induction cs arbitrary: m)
  case (Cons c cs)
  have "uart_puts E b cs = put_all (uart_putc E b) (render_puts cs)" by (rule ext) (rule Cons)
  then show ?case by simp
qed simp

lemma bytes_of_0x: "bytes_of ''0x'' = [48, 120]"
  by (simp add: bytes_of_def byte_of_char_def)

lemma uart_hex_loop_put_all:
  "uart_hex_loop E b v k m = put_all (uart_putc E b) (render_hex k v) m"
proof (induction k arbitrary: m)
  case (Suc k)
  have "uart_hex_loop E b v k = put_all (uart_putc E b) (render_hex k v)" by (rule ext) (rule Suc)
  then show ?case by (simp add: render_hex_def)
qed (simp add: render_hex_def)

lemma uart_put_hex64_put_all:
  "uart_put_hex64 E b v m = put_all (uart_putc E b) (render_hex64 v) m"
  by (simp add: uart_put_hex64_def uart_puts_put_all bytes_of_0x render_hex64_def
      uart_hex_loop_put_all [abs_def])

lemma length_dec_rev: "n < 10 ^ k \<Longrightarrow> length (dec_rev n) \<le> k"
proof (induction k arbitrary: n)
  case 0
  then show ?case by (simp add: dec_rev.simps)
next
  case (Suc k)
  have "n div 10 < 10 ^ k" using Suc.prems by (simp add: less_mult_imp_div_less mult.commute)
  from Suc.IH [OF this] show ?case by (subst dec_rev.simps) simp
qed

lemma udec_fill_spec:
  "i + length (dec_rev (unat v)) \<le> length buf \<Longrightarrow>
    \<exists>buf'. udec_fill v buf i = Some (buf', i + length (dec_rev (unat v))) \<and>
      take (i + length (dec_rev (unat v))) buf' = take i buf @ dec_rev (unat v)"
proof (induction v buf i rule: udec_fill.induct)
  case (1 v buf i)
  show ?case
  proof (cases "v = 0")
    case True
    then show ?thesis by (simp add: udec_fill.simps [of 0] dec_rev.simps)
  next
    case False
    then have nz: "0 < unat v" by (simp only: unat_gt_0 not_False_eq_True)
    let ?d = "48 + ucast (v mod 10) :: u8"
    have d: "dec_rev (unat v) = ?d # dec_rev (unat (v div 10))"
      using nz by (subst dec_rev.simps) (simp add: unat_div_distrib unat_mod_distrib unat_gt_0 ucast_eq_of_nat)
    from "1.prems" d have i: "i < length buf" by simp
    from "1.IH" [OF False i] "1.prems" d obtain buf' where
      "udec_fill (v div 10) (buf[i := ?d]) (i + 1) = Some (buf', i + 1 + length (dec_rev (unat (v div 10))))"
      "take (i + 1 + length (dec_rev (unat (v div 10)))) buf'
        = take (i + 1) (buf[i := ?d]) @ dec_rev (unat (v div 10))"
      by auto
    then show ?thesis using i False d by (simp add: udec_fill.simps [of v] take_Suc_conv_app_nth)
  qed
qed

lemma udec_emit_put_all:
  "i \<le> length buf \<Longrightarrow> udec_emit E b buf i m = put_all (uart_putc E b) (rev (take i buf)) m"
proof (induction i arbitrary: m)
  case (Suc i)
  then show ?case by (simp add: take_Suc_conv_app_nth cong: Option.bind_cong)
qed simp

lemma uart_put_udec_put_all:
  "uart_put_udec E b v m = put_all (uart_putc E b) (render_udec v) m"
proof (cases "v = 0")
  case False
  have "unat v < 10 ^ 20" using unat_u64_less [of v] by simp
  then have len: "length (dec_rev (unat v)) \<le> 20" by (rule length_dec_rev)
  then obtain buf' where buf: "udec_fill v (replicate 24 0) 0 = Some (buf', length (dec_rev (unat v)))"
    "take (length (dec_rev (unat v))) buf' = dec_rev (unat v)"
    using udec_fill_spec [of 0 v "replicate 24 0"] by auto
  then have "length (dec_rev (unat v)) \<le> length buf'"
    by (metis length_take min.cobounded1)
  with buf False show ?thesis by (simp add: uart_put_udec_def udec_emit_put_all render_udec_def)
qed (simp add: uart_put_udec_def render_udec_def)

lemma uart_put_dec_put_all:
  "uart_put_dec E b v m = put_all (uart_putc E b) (render_dec v) m"
  by (simp add: uart_put_dec_def render_dec_def uart_put_udec_put_all [abs_def])

section \<open>Formatted output\<close>

text \<open>What a format string and its arguments render to; \<open>None\<close> when an argument is
  missing or of the wrong kind.\<close>

fun render_arg :: "u8 \<Rightarrow> vararg list \<Rightarrow> (u8 list \<times> vararg list) option" where
  "render_arg g ap =
     (if g = 99 then map_option (\<lambda>(w, ap). ([ucast w], ap)) (va_word ap)
      else if g = 115 then map_option (\<lambda>(s, ap). (render_puts s, ap)) (va_str ap)
      else if g = 100 then map_option (\<lambda>(w, ap). (render_dec w, ap)) (va_word ap)
      else if g = 117 then map_option (\<lambda>(w, ap). (render_udec w, ap)) (va_word ap)
      else if g = 120 \<or> g = 112 then map_option (\<lambda>(w, ap). (render_hex64 w, ap)) (va_word ap)
      else if g = 37 then Some ([37], ap)
      else Some ([63], ap))"

fun render_printf :: "u8 list \<Rightarrow> vararg list \<Rightarrow> u8 list option" where
  "render_printf [] ap = Some []"
| "render_printf [f] ap = Some (if f = 0 \<or> f = 37 then [] else [f])"
| "render_printf (f # g # fmt) ap =
     (if f = 0 then Some []
      else if f \<noteq> 37 then map_option ((#) f) (render_printf (g # fmt) ap)
      else if g = 0 then Some []
      else case render_arg g ap of None \<Rightarrow> None
        | Some (out, ap) \<Rightarrow> map_option ((@) out) (render_printf fmt ap))"

lemma put_all_app: "put_all putc (xs @ ys) = (\<lambda>s. Option.bind (put_all putc xs s) (put_all putc ys))"
  by (rule ext) (rule put_all_append)

lemma uart_vprintf_put_all:
  "render_printf fmt ap = Some out \<Longrightarrow> uart_vprintf E b fmt ap m = put_all (uart_putc E b) out m"
proof (induction fmt ap arbitrary: out m rule: render_printf.induct)
  case (3 f g fmt ap)
  consider "f = 0" | "f \<noteq> 0" "f \<noteq> 37" | "f = 37" "g = 0" | "f = 37" "g \<noteq> 0" by blast
  then show ?case
  proof cases
    case 2
    with 3(3) obtain out' where o': "render_printf (g # fmt) ap = Some out'" "out = f # out'" by auto
    from 3(1) [OF _ _ o'(1)] 2 have "uart_vprintf E b (g # fmt) ap = put_all (uart_putc E b) out'"
      by (intro ext) simp
    with 2 o' show ?thesis by simp
  next
    case 4
    with 3(3) obtain o1 ap' o2 where a: "render_arg g ap = Some (o1, ap')"
      and r: "render_printf fmt ap' = Some o2" "out = o1 @ o2"
      by (auto split: option.splits simp del: render_arg.simps)
    from 3(2) [OF _ _ _ a refl r(1)] 4
    have IH: "uart_vprintf E b fmt ap' = put_all (uart_putc E b) o2"
      by (intro ext) simp
    note s = put_all_app IH uart_puts_put_all uart_put_dec_put_all uart_put_udec_put_all
      uart_put_hex64_put_all
    show ?thesis using a 4 unfolding r(2)
      by (auto simp: s split: if_splits)
  qed (use 3(3) in auto)
qed auto

text \<open>Output changes no CSR.\<close>

lemma put_all_keeps:
  assumes "\<And>c s s'. putc c s = Some s' \<Longrightarrow> f s' = f s"
  shows "put_all putc cs s = Some s' \<Longrightarrow> f s' = f s"
  by (induction cs arbitrary: s) (auto simp: bind_Some_iff dest: assms)

lemma uart_putc_keeps: "uart_putc E b c m = Some m' \<Longrightarrow> xie m' = xie m \<and> xstatus m' = xstatus m"
  by (auto dest!: uart_putc_Some)

lemma put_all_uart_keeps:
  assumes "put_all (uart_putc E b) cs m = Some m'"
  shows "xie m' = xie m \<and> xstatus m' = xstatus m"
  using put_all_keeps [of "uart_putc E b" xie, OF _ assms]
    put_all_keeps [of "uart_putc E b" xstatus, OF _ assms] uart_putc_keeps by blast

lemma uart_puts_keeps: "uart_puts E b cs m = Some m' \<Longrightarrow> xie m' = xie m \<and> xstatus m' = xstatus m"
  by (simp only: uart_puts_put_all) (rule put_all_uart_keeps)

lemma uart_vprintf_keeps:
  assumes "render_printf fmt ap = Some out" "uart_vprintf E b fmt ap m = Some m'"
  shows "xie m' = xie m \<and> xstatus m' = xstatus m"
  using assms(2) unfolding uart_vprintf_put_all [OF assms(1)] by (rule put_all_uart_keeps)

section \<open>Reading a number back\<close>

definition dec_val :: "u8 list \<Rightarrow> nat" where
  "dec_val cs = foldl (\<lambda>n c. 10 * n + unat (c - 48)) 0 cs"

definition hex_digit_val :: "u8 \<Rightarrow> nat" where
  "hex_digit_val c = (if 97 \<le> c then unat (c - 87) else unat (c - 48))"

definition hex_val :: "u8 list \<Rightarrow> nat" where
  "hex_val cs = foldl (\<lambda>n c. 16 * n + hex_digit_val c) 0 cs"

lemma dec_val_snoc [simp]: "dec_val (cs @ [c]) = 10 * dec_val cs + unat (c - 48)"
  by (simp add: dec_val_def)

lemma hex_val_snoc [simp]: "hex_val (cs @ [c]) = 16 * hex_val cs + hex_digit_val c"
  by (simp add: hex_val_def)

lemma dec_val_rev_dec_rev: "dec_val (rev (dec_rev n)) = n"
proof (induction n rule: dec_rev.induct)
  case (1 n)
  show ?case
  proof (cases "n = 0")
    case True
    then show ?thesis by (simp add: dec_rev.simps dec_val_def)
  next
    case False
    have "unat (of_nat (n mod 10) :: u8) = n mod 10" by (rule unat_of_nat_small) simp
    then show ?thesis using 1 [OF False] False by (subst dec_rev.simps) simp
  qed
qed

lemma dec_rev_digits: "set (dec_rev n) \<subseteq> {48..57}"
proof (induction n rule: dec_rev.induct)
  case (1 n)
  have u: "unat (of_nat (n mod 10) :: u8) = n mod 10" by (rule unat_of_nat_small) simp
  have "unat (48 + of_nat (n mod 10) :: u8) = 48 + n mod 10"
    by (subst unat_add_no_wrap) (simp_all add: u)
  then have "48 + of_nat (n mod 10) \<in> {48..57 :: u8}" by (simp add: word_le_nat_alt)
  with 1 show ?case by (subst dec_rev.simps) auto
qed

lemma last_dec_rev: "n \<noteq> 0 \<Longrightarrow> last (dec_rev n) \<noteq> 48"
proof (induction n rule: dec_rev.induct)
  case (1 n)
  show ?case
  proof (cases "n div 10 = 0")
    case True
    then have n: "n < 10" by auto
    then have "dec_rev n = [48 + of_nat n]"
      using 1 by (subst dec_rev.simps) (simp add: dec_rev.simps [of 0])
    moreover have "unat (of_nat n :: u8) = n"
      by (rule unat_of_nat_small) (use n in simp)
    then have "(of_nat n :: u8) \<noteq> 0" using "1.prems" by (metis unat_0)
    ultimately show ?thesis by simp
  next
    case False
    moreover from False have "dec_rev (n div 10) \<noteq> []" by (subst dec_rev.simps) simp
    ultimately show ?thesis using 1 by (subst dec_rev.simps) simp
  qed
qed

lemma render_udec_val: "dec_val (render_udec v) = unat v"
  by (simp add: render_udec_def dec_val_rev_dec_rev) (simp add: dec_val_def)

lemma render_udec_digits: "set (render_udec v) \<subseteq> {48..57}"
  using dec_rev_digits [of "unat v"] by (simp add: render_udec_def)

lemma render_udec_hd: "v \<noteq> 0 \<Longrightarrow> hd (render_udec v) \<noteq> 48"
  using last_dec_rev [of "unat v"] by (simp add: render_udec_def hd_rev unat_eq_zero)

lemma hex_digit_table:
  "k < 16 \<Longrightarrow> hex_digit_val (hex_digits ! k) = k"
proof -
  have "\<forall>k \<in> {0..<16}. hex_digit_val (hex_digits ! k) = k"
    by (simp add: hex_digit_val_def hex_digits_def bytes_of_def byte_of_char_def
        atLeastLessThan_nat_numeral)
  then show "k < 16 \<Longrightarrow> hex_digit_val (hex_digits ! k) = k" by simp
qed

lemma hex_digit_val: "hex_digit_val (hex_digit x) = unat x mod 16"
proof -
  have "unat (x AND 0xF) = unat x mod 16"
    using unat_and_mask [of x 4] by (simp add: mask_eq_exp_minus_1)
  then show ?thesis by (simp add: hex_digit_def hex_digit_table)
qed

lemma render_hex_Suc: "render_hex (Suc k) v = render_hex k (drop_bit 4 v) @ [hex_digit v]"
proof -
  have "rev [0..<Suc k] = map Suc (rev [0..<k]) @ [0]"
    by (simp only: rev_map [symmetric] map_Suc_upt upt_conv_Cons zero_less_Suc rev.simps append.simps)
  then show ?thesis by (simp add: render_hex_def drop_bit_drop_bit add.commute del: upt_Suc)
qed

lemma hex_val_render_hex: "hex_val (render_hex k v) = unat v mod 16 ^ k"
proof (induction k arbitrary: v)
  case 0
  then show ?case by (simp add: render_hex_def hex_val_def)
next
  case (Suc k)
  have "unat (drop_bit 4 v) = unat v div 16"
    by (simp add: unat_drop_bit)
  then show ?case
    using mod_mult2_eq [of "unat v" 16 "16 ^ k"]
    by (simp add: render_hex_Suc Suc hex_digit_val mult.commute)
qed

section \<open>Properties\<close>

text \<open>C19: on a live transmitter a formatted print returns, and has sent exactly the
  rendering of its format string and arguments, byte by byte and in order, after everything
  sent before: every conversion, the line-feed expansion of strings, and an unknown or
  truncated conversion included.\<close>

theorem uart_printf_correct:
  assumes "uart_live E b" "render_printf (bytes_of fmt) ap = Some out"
  shows "\<exists>m'. uart_printf E b fmt ap m = Some m' \<and> uart_out b m' = uart_out b m @ out"
  unfolding uart_printf_def uart_vprintf_put_all [OF assms(2)]
  by (rule uart.put_all_total [OF assms(1)])

lemma uart_printf_correct_witness:
  "\<exists>m'. uart_printf (\<lambda>h a. 0x20) 0x10000000 ''n=%u%c'' [VWord 42, VWord 10] mach0 = Some m' \<and>
    uart_out 0x10000000 m' = [110, 61, 52, 50, 10]"
proof -
  have live: "uart_live (\<lambda>h a. 0x20) 0x10000000"
    by (simp add: uart_live_def thre_at_def LSR_THRE_def)
  have r: "render_printf (bytes_of ''n=%u%c'') [VWord 42, VWord 10] = Some [110, 61, 52, 50, 10]"
    by (simp add: bytes_of_def byte_of_char_def render_udec_def dec_rev.simps)
  show ?thesis using uart_printf_correct [OF live r, of mach0] by (simp add: uart_out_def)
qed

lemma render_udec_ne: "render_udec v \<noteq> []"
  by (cases "v = 0") (auto simp: render_udec_def dec_rev.simps unat_gt_0)

text \<open>C20: decimal and hexadecimal output read back to the number printed: on a live
  transmitter \<open>uart_put_udec\<close> returns without leaving its 24-byte buffer, and what it sent
  is not empty, consists of decimal digits, has no leading zero, and denotes the argument; and
  \<open>uart_put_hex64\<close> sends \<open>0x\<close> and digits that denote the argument.\<close>

theorem uart_numbers_roundtrip:
  assumes "uart_live E b"
  shows "(\<exists>m' ds. uart_put_udec E b v m = Some m' \<and> uart_out b m' = uart_out b m @ ds \<and>
            dec_val ds = unat v \<and> set ds \<subseteq> {48..57} \<and> ds \<noteq> [] \<and> (v = 0 \<or> hd ds \<noteq> 48)) \<and>
    (\<exists>m' ds. uart_put_hex64 E b v m = Some m' \<and>
            uart_out b m' = uart_out b m @ bytes_of ''0x'' @ ds \<and>
            length ds = 16 \<and> hex_val ds = unat v)"
proof
  obtain m1 where "uart_put_udec E b v m = Some m1" "uart_out b m1 = uart_out b m @ render_udec v"
    using uart.put_all_total [OF assms, of "render_udec v" m] uart_put_udec_put_all by metis
  then show "\<exists>m' ds. uart_put_udec E b v m = Some m' \<and> uart_out b m' = uart_out b m @ ds \<and>
      dec_val ds = unat v \<and> set ds \<subseteq> {48..57} \<and> ds \<noteq> [] \<and> (v = 0 \<or> hd ds \<noteq> 48)"
    using render_udec_val render_udec_digits render_udec_hd render_udec_ne by blast
next
  obtain m1 where m1: "uart_put_hex64 E b v m = Some m1" "uart_out b m1 = uart_out b m @ render_hex64 v"
    using uart.put_all_total [OF assms, of "render_hex64 v" m] uart_put_hex64_put_all by metis
  have "hex_val (render_hex 16 v) = unat v"
    using unat_u64_less [of v] by (simp add: hex_val_render_hex)
  moreover have "length (render_hex 16 v) = 16" by (simp add: render_hex_def)
  ultimately show "\<exists>m' ds. uart_put_hex64 E b v m = Some m' \<and>
      uart_out b m' = uart_out b m @ bytes_of ''0x'' @ ds \<and> length ds = 16 \<and> hex_val ds = unat v"
    using m1 unfolding render_hex64_def by blast
qed

lemma uart_numbers_roundtrip_witness:
  "\<exists>m' ds. uart_put_udec (\<lambda>h a. 0x20) 0x10000000 1234 mach0 = Some m' \<and>
      uart_out 0x10000000 m' = ds \<and> dec_val ds = 1234"
proof -
  have "uart_live (\<lambda>h a. 0x20) 0x10000000"
    by (simp add: uart_live_def thre_at_def LSR_THRE_def)
  from uart_numbers_roundtrip [OF this, of 1234 mach0] show ?thesis
    by (auto simp: uart_out_def)
qed

text \<open>C25: \<open>uart_putc\<close> returns exactly when some poll of the line status register
  reports an empty holding register; it then has polled up to and including the first such
  answer and written the byte once, and made no other access.\<close>

theorem uart_putc_iff:
  "uart_putc E b c m = Some m' \<longleftrightarrow>
    (\<exists>k. thre_at E b (trace m) k \<and> (\<forall>j<k. \<not> thre_at E b (trace m) j) \<and>
         m' = emits (replicate (Suc k) (Rd8 (lsr_addr b)) @ [Wr8 b c]) m)"
proof
  assume "\<exists>k. thre_at E b (trace m) k \<and> (\<forall>j<k. \<not> thre_at E b (trace m) j) \<and>
         m' = emits (replicate (Suc k) (Rd8 (lsr_addr b)) @ [Wr8 b c]) m"
  then show "uart_putc E b c m = Some m'"
    using uart_wait_thre_reaches [of E b m] by (auto simp: uart_putc_def uart_w_def UART_THR_def)
qed (rule uart_putc_Some)

lemma uart_putc_iff_witness:
  "uart_putc (\<lambda>h a. if length h < 2 then 0 else 0x60) 0x100 65 mach0 =
    Some (emits [Rd8 0x105, Rd8 0x105, Rd8 0x105, Wr8 0x100 65] mach0)"
  unfolding uart_putc_iff
  by (intro exI [of _ "Suc (Suc 0)"] conjI)
     (simp_all add: thre_at_def LSR_THRE_def lsr_addr_def less_Suc_eq)

end
