(* ===== verification/Fdt.thy ===== *)
theory Fdt
  imports Prelude
begin

text \<open>
  The flattened device tree walker, \<open>src/fdt.c\<close>, over a byte-addressed memory.
  Offsets are the 32-bit words of the source, with their wrap-around; the walks are partial
  functions, because a malformed blob can make them run forever.  A C string passed in is
  the list of its bytes.  The specification is a list of tokens: \<open>holds\<close> says that the
  structure block is the encoding of a token list, and each walker is refined to a function
  on tokens, termination included.
\<close>

section \<open>The walker\<close>

definition FDT_BEGIN_NODE :: u32 where "FDT_BEGIN_NODE = 1"
definition FDT_END_NODE :: u32 where "FDT_END_NODE = 2"
definition FDT_PROP :: u32 where "FDT_PROP = 3"
definition FDT_NOP :: u32 where "FDT_NOP = 4"
definition FDT_END :: u32 where "FDT_END = 9"
definition FDT_MAGIC :: u32 where "FDT_MAGIC = 0xD00DFEED"

lemmas fdt_tokens = FDT_BEGIN_NODE_def FDT_END_NODE_def FDT_PROP_def FDT_NOP_def FDT_END_def

record fdt =
  struct_blob :: u64
  strings :: u64
  struct_size :: u32

definition fdt_read_be32 :: "mem \<Rightarrow> u64 \<Rightarrow> u32 \<Rightarrow> u32" where
  "fdt_read_be32 M data off =
     (let p = data + ucast off in be32_of (M p) (M (p + 1)) (M (p + 2)) (M (p + 3)))"

definition fdt_read_be64 :: "mem \<Rightarrow> u64 \<Rightarrow> u32 \<Rightarrow> u64" where
  "fdt_read_be64 M data off =
     push_bit 32 (ucast (fdt_read_be32 M data off)) OR ucast (fdt_read_be32 M data (off + 4))"

fun str_eq :: "mem \<Rightarrow> u64 \<Rightarrow> u8 list \<Rightarrow> bool" where
  "str_eq M a [] = (M a = 0)"
| "str_eq M a (c # cs) =
     (if M a \<noteq> 0 \<and> M a = c then str_eq M (a + 1) cs else M a = 0 \<and> c = 0)"

definition fdt_init :: "mem \<Rightarrow> u64 \<Rightarrow> fdt option" where
  "fdt_init M blob =
     (if fdt_read_be32 M blob 0 \<noteq> FDT_MAGIC then None
      else if fdt_read_be32 M blob 20 < 17 then None
      else Some \<lparr>struct_blob = blob + ucast (fdt_read_be32 M blob 8),
                 strings = blob + ucast (fdt_read_be32 M blob 12),
                 struct_size = fdt_read_be32 M blob 36\<rparr>)"

definition fdt_node_name :: "fdt \<Rightarrow> u32 \<Rightarrow> u64" where
  "fdt_node_name fdt node_off = struct_blob fdt + ucast node_off + 4"

partial_function (option) skip_name_scan :: "mem \<Rightarrow> fdt \<Rightarrow> u32 \<Rightarrow> u32 option" where
  "skip_name_scan M fdt p =
     (if M (struct_blob fdt + ucast p) \<noteq> 0 then skip_name_scan M fdt (p + 1) else Some p)"

definition skip_name :: "mem \<Rightarrow> fdt \<Rightarrow> u32 \<Rightarrow> u32 option" where
  "skip_name M fdt off =
     do { p \<leftarrow> skip_name_scan M fdt (off + 4); Some (align4 (p + 1)) }"

definition skip_prop :: "mem \<Rightarrow> fdt \<Rightarrow> u32 \<Rightarrow> u32" where
  "skip_prop M fdt off =
     (let len = fdt_read_be32 M (struct_blob fdt) (off + 4) in off + 12 + align4 len)"

partial_function (option) fdt_next_node :: "mem \<Rightarrow> fdt \<Rightarrow> u32 \<Rightarrow> u32 option" where
  "fdt_next_node M fdt off =
     (if off < struct_size fdt
      then (let tok = fdt_read_be32 M (struct_blob fdt) off in
        if tok = FDT_BEGIN_NODE then Some off
        else if tok = FDT_END_NODE \<or> tok = FDT_NOP then fdt_next_node M fdt (off + 4)
        else if tok = FDT_PROP then fdt_next_node M fdt (skip_prop M fdt off)
        else Some UINT32_MAX)
      else Some UINT32_MAX)"

text \<open>The result of a property lookup is \<open>NULL\<close> (\<open>None\<close>) or the data pointer and the
  length written through \<open>out_len\<close>.\<close>

partial_function (option) fdt_node_prop_loop ::
  "mem \<Rightarrow> fdt \<Rightarrow> u8 list \<Rightarrow> u32 \<Rightarrow> (u64 \<times> u32) option option" where
  "fdt_node_prop_loop M fdt name off =
     (if off < struct_size fdt
      then (let tok = fdt_read_be32 M (struct_blob fdt) off in
        if tok = FDT_BEGIN_NODE \<or> tok = FDT_END_NODE \<or> tok = FDT_END then Some None
        else if tok = FDT_NOP then fdt_node_prop_loop M fdt name (off + 4)
        else if tok = FDT_PROP
        then (let len = fdt_read_be32 M (struct_blob fdt) (off + 4);
                  nameoff = fdt_read_be32 M (struct_blob fdt) (off + 8) in
              if str_eq M (strings fdt + ucast nameoff) name
              then Some (Some (struct_blob fdt + ucast off + 12, len))
              else fdt_node_prop_loop M fdt name (off + (12 + align4 len)))
        else Some None)
      else Some None)"

definition fdt_node_prop ::
  "mem \<Rightarrow> fdt \<Rightarrow> u32 \<Rightarrow> u8 list \<Rightarrow> (u64 \<times> u32) option option" where
  "fdt_node_prop M fdt node_off name =
     do { off \<leftarrow> skip_name M fdt node_off; fdt_node_prop_loop M fdt name off }"

text \<open>The scan of a string list inside \<open>fdt_find_compatible\<close>: \<open>pos\<close> runs to the end of
  the current string, then past its terminator.\<close>

partial_function (option) strlist_skip :: "mem \<Rightarrow> u64 \<Rightarrow> u32 \<Rightarrow> u32 \<Rightarrow> u32 option" where
  "strlist_skip M list len pos =
     (if pos < len \<and> M (list + ucast pos) \<noteq> 0 then strlist_skip M list len (pos + 1)
      else Some pos)"

partial_function (option) strlist_match ::
  "mem \<Rightarrow> u64 \<Rightarrow> u32 \<Rightarrow> u8 list \<Rightarrow> u32 \<Rightarrow> bool option" where
  "strlist_match M list len cname pos =
     (if pos < len
      then (if str_eq M (list + ucast pos) cname then Some True
            else do { pos \<leftarrow> strlist_skip M list len pos;
                      strlist_match M list len cname (pos + 1) })
      else Some False)"

partial_function (option) fdt_find_compatible_loop ::
  "mem \<Rightarrow> fdt \<Rightarrow> u8 list \<Rightarrow> u32 \<Rightarrow> u32 option" where
  "fdt_find_compatible_loop M fdt cname off =
     (if off < struct_size fdt
      then (let tok = fdt_read_be32 M (struct_blob fdt) off in
        if tok = FDT_BEGIN_NODE
        then do {
          list \<leftarrow> fdt_node_prop M fdt off (bytes_of ''compatible'');
          hit \<leftarrow> (case list of None \<Rightarrow> Some False
                   | Some (p, len) \<Rightarrow> strlist_match M p len cname 0);
          if hit then Some off
          else do { off \<leftarrow> skip_name M fdt off; fdt_find_compatible_loop M fdt cname off } }
        else if tok = FDT_END_NODE \<or> tok = FDT_NOP
        then fdt_find_compatible_loop M fdt cname (off + 4)
        else if tok = FDT_PROP then fdt_find_compatible_loop M fdt cname (skip_prop M fdt off)
        else Some UINT32_MAX)
      else Some UINT32_MAX)"

definition fdt_find_compatible :: "mem \<Rightarrow> fdt \<Rightarrow> u8 list \<Rightarrow> u32 option" where
  "fdt_find_compatible M fdt cname = fdt_find_compatible_loop M fdt cname 0"

text \<open>\<open>while (*p && *p == *n) { p++; n++; }\<close> and the test after it: the wanted name is a
  prefix that ends at the node name's end or at its unit address.\<close>

fun node_name_matches :: "mem \<Rightarrow> u8 list \<Rightarrow> u64 \<Rightarrow> bool" where
  "node_name_matches M [] n = (M n = 0 \<or> M n = 64)"
| "node_name_matches M (p # ps) n =
     (if p = 0 then M n = 0 \<or> M n = 64
      else if p = M n then node_name_matches M ps (n + 1) else False)"

partial_function (option) fdt_find_node_named_loop ::
  "mem \<Rightarrow> fdt \<Rightarrow> u8 list \<Rightarrow> u32 \<Rightarrow> u32 option" where
  "fdt_find_node_named_loop M fdt name off =
     (if off < struct_size fdt
      then (let tok = fdt_read_be32 M (struct_blob fdt) off in
        if tok = FDT_BEGIN_NODE
        then (if node_name_matches M name (fdt_node_name fdt off) then Some off
              else do { off \<leftarrow> skip_name M fdt off; fdt_find_node_named_loop M fdt name off })
        else if tok = FDT_END_NODE \<or> tok = FDT_NOP
        then fdt_find_node_named_loop M fdt name (off + 4)
        else if tok = FDT_PROP then fdt_find_node_named_loop M fdt name (skip_prop M fdt off)
        else Some UINT32_MAX)
      else Some UINT32_MAX)"

definition fdt_find_node_named :: "mem \<Rightarrow> fdt \<Rightarrow> u8 list \<Rightarrow> u32 option" where
  "fdt_find_node_named M fdt name = fdt_find_node_named_loop M fdt name 0"

text \<open>The boolean result with an output pointer is an option; the outer option is the
  call not returning.\<close>

definition fdt_node_prop_u32 :: "mem \<Rightarrow> fdt \<Rightarrow> u32 \<Rightarrow> u8 list \<Rightarrow> u32 option option" where
  "fdt_node_prop_u32 M fdt node_off name =
     do { p \<leftarrow> fdt_node_prop M fdt node_off name;
          Some (case p of None \<Rightarrow> None
            | Some (p, len) \<Rightarrow> if len < 4 then None else Some (fdt_read_be32 M p 0)) }"

definition fdt_node_interrupt :: "mem \<Rightarrow> fdt \<Rightarrow> u32 \<Rightarrow> u32 option" where
  "fdt_node_interrupt M fdt node_off =
     do { p \<leftarrow> fdt_node_prop M fdt node_off (bytes_of ''interrupts'');
          Some (case p of None \<Rightarrow> 0
            | Some (p, len) \<Rightarrow> if len < 4 then 0 else fdt_read_be32 M p 0) }"

definition fdt_node_reg64 :: "mem \<Rightarrow> fdt \<Rightarrow> u32 \<Rightarrow> u32 \<Rightarrow> (u64 \<times> u64) option option" where
  "fdt_node_reg64 M fdt node_off idx =
     do { reg \<leftarrow> fdt_node_prop M fdt node_off (bytes_of ''reg'');
          Some (case reg of None \<Rightarrow> None
            | Some (reg, len) \<Rightarrow>
                if (idx + 1) * 16 > len then None
                else (let off = idx * 16
                      in Some (fdt_read_be64 M reg off, fdt_read_be64 M reg (off + 8)))) }"

section \<open>Bytes in memory\<close>

fun bytes_at :: "mem \<Rightarrow> u64 \<Rightarrow> u8 list \<Rightarrow> bool" where
  "bytes_at M a [] = True"
| "bytes_at M a (b # bs) = (M a = b \<and> bytes_at M (a + 1) bs)"

lemma bytes_at_append:
  "bytes_at M a (xs @ ys) = (bytes_at M a xs \<and> bytes_at M (a + of_nat (length xs)) ys)"
  by (induction xs arbitrary: a) (simp_all add: algebra_simps)

lemma fdt_read_be32_at:
  "bytes_at M (data + ucast off) (be32_bytes v @ bs) \<Longrightarrow> fdt_read_be32 M data off = v"
  using be32_roundtrip [of v]
  by (simp add: fdt_read_be32_def be32_bytes_def Let_def algebra_simps)

lemma str_eq_at:
  "bytes_at M a (s @ 0 # bs) \<Longrightarrow> 0 \<notin> set s \<Longrightarrow> 0 \<notin> set c \<Longrightarrow> str_eq M a c = (s = c)"
proof (induction c arbitrary: a s)
  case Nil
  then show ?case by (cases s) auto
next
  case (Cons x c)
  then show ?case by (cases s) auto
qed

section \<open>Tokens\<close>

datatype token = TBegin "u8 list" | TEnd | TProp u32 "u8 list" | TNop | TFin

definition pad4 :: "u8 list \<Rightarrow> u8 list" where
  "pad4 xs = xs @ replicate ((4 - length xs mod 4) mod 4) 0"

fun enc :: "token \<Rightarrow> u8 list" where
  "enc (TBegin nm) = be32_bytes FDT_BEGIN_NODE @ pad4 (nm @ [0])"
| "enc TEnd = be32_bytes FDT_END_NODE"
| "enc (TProp nameoff d) =
     be32_bytes FDT_PROP @ be32_bytes (of_nat (length d)) @ be32_bytes nameoff @ pad4 d"
| "enc TNop = be32_bytes FDT_NOP"
| "enc TFin = be32_bytes FDT_END"

definition enc_all :: "token list \<Rightarrow> u8 list" where
  "enc_all ts = concat (map enc ts)"

fun wf_token :: "token \<Rightarrow> bool" where
  "wf_token (TBegin nm) = (0 \<notin> set nm)"
| "wf_token _ = True"

fun tag :: "token \<Rightarrow> u32" where
  "tag (TBegin _) = FDT_BEGIN_NODE"
| "tag TEnd = FDT_END_NODE"
| "tag (TProp _ _) = FDT_PROP"
| "tag TNop = FDT_NOP"
| "tag TFin = FDT_END"

definition tsize :: "token \<Rightarrow> u32" where
  "tsize t = of_nat (length (enc t))"

text \<open>From offset \<open>off\<close> to its end, the structure block is the encoding of \<open>ts\<close>.\<close>

definition holds :: "mem \<Rightarrow> fdt \<Rightarrow> u32 \<Rightarrow> token list \<Rightarrow> bool" where
  "holds M fdt off ts =
     (4 dvd unat off \<and> list_all wf_token ts \<and>
      unat off + length (enc_all ts) = unat (struct_size fdt) \<and>
      bytes_at M (struct_blob fdt + ucast off) (enc_all ts))"

lemma length_pad4: "length (pad4 xs) = (length xs + 3) div 4 * 4"
proof -
  have "length xs mod 4 = 0 \<or> length xs mod 4 = 1 \<or> length xs mod 4 = 2 \<or> length xs mod 4 = 3" by auto
  then show ?thesis by (elim disjE) (simp_all add: pad4_def, presburger+)
qed

lemma length_enc_dvd: "4 dvd length (enc t)"
  by (cases t) (simp_all add: length_pad4)

lemma length_enc_pos: "4 \<le> length (enc t)"
  by (cases t) simp_all

lemma enc_tag: "\<exists>bs. enc t = be32_bytes (tag t) @ bs"
  by (cases t) auto

lemma enc_all_simps [simp]: "enc_all [] = []" "enc_all (t # ts) = enc t @ enc_all ts"
  by (simp_all add: enc_all_def)

lemma ucast_add_of_nat:
  fixes off :: u32
  assumes "unat off + n < 2 ^ 32"
  shows "(ucast (off + of_nat n) :: u64) = ucast off + of_nat n"
    and "unat (off + of_nat n) = unat off + n"
proof -
  have n: "unat (of_nat n :: u32) = n" by (rule unat_of_nat_small) (use assms in simp)
  then show u: "unat (off + of_nat n) = unat off + n"
    using assms by (simp add: unat_add_no_wrap)
  show "(ucast (off + of_nat n) :: u64) = ucast off + of_nat n"
    by (simp only: ucast_eq_of_nat u of_nat_add)
qed

lemma holds_tag:
  assumes "holds M fdt off (t # ts)"
  shows "fdt_read_be32 M (struct_blob fdt) off = tag t"
proof -
  obtain bs where "enc t = be32_bytes (tag t) @ bs" using enc_tag by blast
  then have "bytes_at M (struct_blob fdt + ucast off) (be32_bytes (tag t) @ bs @ enc_all ts)"
    using assms by (simp add: holds_def)
  then show ?thesis by (rule fdt_read_be32_at)
qed

lemma holds_less: "holds M fdt off (t # ts) \<Longrightarrow> off < struct_size fdt"
  using length_enc_pos [of t] by (simp add: holds_def word_less_nat_alt)

lemma holds_end: "holds M fdt off [] \<Longrightarrow> \<not> off < struct_size fdt"
  by (simp add: holds_def word_less_nat_alt)

lemma holds_bound: "holds M fdt off (t # ts) \<Longrightarrow> unat off + length (enc t) < 2 ^ 32"
  using unat_u32_less [of "struct_size fdt"] by (simp add: holds_def)

lemma holds_next:
  assumes h: "holds M fdt off (t # ts)"
  shows "holds M fdt (off + tsize t) ts"
  using h length_enc_dvd [of t] ucast_add_of_nat [OF holds_bound [OF h]]
  by (simp add: holds_def tsize_def bytes_at_append algebra_simps)

lemma tsize_simps [simp]: "tsize TEnd = 4" "tsize TNop = 4" "tsize TFin = 4"
  by (simp_all add: tsize_def)

section \<open>Skipping names and properties\<close>

lemma skip_name_scan_at:
  assumes "bytes_at M (struct_blob fdt + ucast p) (s @ 0 # bs)" "0 \<notin> set s"
    and "unat p + length s < 2 ^ 32"
  shows "skip_name_scan M fdt p = Some (p + of_nat (length s))"
  using assms
proof (induction s arbitrary: p)
  case Nil
  then show ?case by (subst skip_name_scan.simps) simp
next
  case (Cons c s)
  have p1: "(ucast (p + 1) :: u64) = ucast p + 1" "unat (p + 1) = unat p + 1"
    using ucast_add_of_nat [of p 1] Cons.prems(3) by simp_all
  have "skip_name_scan M fdt (p + 1) = Some (p + 1 + of_nat (length s))"
    by (rule Cons.IH) (use Cons.prems p1 in \<open>simp_all add: algebra_simps\<close>)
  then show ?case using Cons.prems by (subst skip_name_scan.simps) (simp add: algebra_simps)
qed

lemma skip_name_at:
  assumes h: "holds M fdt off (TBegin nm # ts)"
  shows "skip_name M fdt off = Some (off + tsize (TBegin nm))"
proof -
  define L where "L = length nm"
  have len: "length (enc (TBegin nm)) = 4 + (L + 4) div 4 * 4"
    by (simp add: length_pad4 L_def)
  note b = holds_bound [OF h, unfolded len]
  have o4: "(ucast (off + 4) :: u64) = ucast off + 4" "unat (off + 4) = unat off + 4"
    using ucast_add_of_nat [of off 4] b by simp_all
  have "bytes_at M (struct_blob fdt + ucast (off + 4)) (nm @ 0 # replicate ((4 - Suc L mod 4) mod 4) 0 @ enc_all ts)"
    using h by (simp add: holds_def bytes_at_append pad4_def o4 L_def algebra_simps)
  then have "skip_name_scan M fdt (off + 4) = Some (off + 4 + of_nat L)"
    unfolding L_def
    by (rule skip_name_scan_at) (use h b o4 in \<open>simp_all add: holds_def L_def\<close>)
  then have s: "skip_name M fdt off = Some (align4 (off + 4 + of_nat L + 1))"
    by (simp add: skip_name_def)
  have u: "unat (off + 4 + of_nat L + 1) = unat off + 5 + L"
    using ucast_add_of_nat(2) [of off "5 + L"] b by (simp add: algebra_simps)
  have d: "4 dvd unat off" using h by (simp add: holds_def)
  have "unat off + (4 + (L + 4) div 4 * 4) < 4294967296" using b by simp
  then have bnd: "unat off + 5 + L + 3 < 4294967296" using d by presburger
  have "unat (align4 (off + 4 + of_nat L + 1)) = (unat off + 5 + L + 3) div 4 * 4"
    unfolding u [symmetric] by (rule unat_align4, unfold u) (use bnd in simp)
  also have "\<dots> = unat off + length (enc (TBegin nm))"
    unfolding len using d by presburger
  also have "\<dots> = unat (off + tsize (TBegin nm))"
    using ucast_add_of_nat(2) [OF holds_bound [OF h]] by (simp add: tsize_def)
  finally show ?thesis unfolding s by (simp add: word_unat_eq_iff)
qed

lemma prop_fields:
  assumes h: "holds M fdt off (TProp nameoff d # ts)"
  shows "fdt_read_be32 M (struct_blob fdt) (off + 4) = of_nat (length d)"
    and "fdt_read_be32 M (struct_blob fdt) (off + 8) = nameoff"
    and "bytes_at M (struct_blob fdt + ucast off + 12) d"
    and "off + (12 + align4 (of_nat (length d))) = off + tsize (TProp nameoff d)"
    and "length d < 2 ^ 32" "unat off + 12 + length d < 2 ^ 32"
proof -
  have len: "length (enc (TProp nameoff d)) = 12 + (length d + 3) div 4 * 4"
    by (simp add: length_pad4)
  note b = holds_bound [OF h, unfolded len]
  have o: "(ucast (off + 4) :: u64) = ucast off + 4" "(ucast (off + 8) :: u64) = ucast off + 8"
    using ucast_add_of_nat [of off 4] ucast_add_of_nat [of off 8] b by simp_all
  have byt: "bytes_at M (struct_blob fdt + ucast off + 4) (be32_bytes (of_nat (length d)) @ [])"
    "bytes_at M (struct_blob fdt + ucast off + 8) (be32_bytes nameoff @ [])"
    "bytes_at M (struct_blob fdt + ucast off + 12) d"
    using h by (simp_all add: holds_def bytes_at_append pad4_def algebra_simps)
  show "fdt_read_be32 M (struct_blob fdt) (off + 4) = of_nat (length d)"
    "fdt_read_be32 M (struct_blob fdt) (off + 8) = nameoff"
    by (rule fdt_read_be32_at [of _ _ _ _ "[]"], use byt o in \<open>simp add: algebra_simps\<close>)+
  show "bytes_at M (struct_blob fdt + ucast off + 12) d" by (rule byt)
  show ld: "length d < 2 ^ 32" "unat off + 12 + length d < 2 ^ 32" using b by auto
  have "unat (of_nat (length d) :: u32) = length d" by (rule unat_of_nat_small) (use ld in simp)
  then have "unat (align4 (of_nat (length d))) = (length d + 3) div 4 * 4"
    using b by (subst unat_align4) auto
  then have "align4 (of_nat (length d)) = of_nat ((length d + 3) div 4 * 4)"
    by (metis of_nat_unat ucast_id)
  then show "off + (12 + align4 (of_nat (length d))) = off + tsize (TProp nameoff d)"
    by (simp add: tsize_def len del: enc.simps)
qed

lemma skip_prop_at:
  "holds M fdt off (TProp nameoff d # ts) \<Longrightarrow> skip_prop M fdt off = off + tsize (TProp nameoff d)"
  using prop_fields by (simp add: skip_prop_def add.assoc)

section \<open>Lookups on tokens\<close>

text \<open>The properties of a node are the tokens up to its first child or its end.\<close>

fun own_prop :: "(u32 \<Rightarrow> bool) \<Rightarrow> token list \<Rightarrow> u8 list option" where
  "own_prop is [] = None"
| "own_prop is (t # ts) =
     (case t of TNop \<Rightarrow> own_prop is ts
      | TProp nameoff d \<Rightarrow> if is nameoff then Some d else own_prop is ts
      | _ \<Rightarrow> None)"

function strlist :: "u8 list \<Rightarrow> u8 list list" where
  "strlist d = (if d = [] then [] else
     takeWhile (\<lambda>b. b \<noteq> 0) d # strlist (drop (Suc (length (takeWhile (\<lambda>b. b \<noteq> 0) d))) d))"
  by pat_completeness auto
termination by (relation "measure length") auto

declare strlist.simps [simp del]

definition name_is :: "mem \<Rightarrow> fdt \<Rightarrow> u8 list \<Rightarrow> u32 \<Rightarrow> bool" where
  "name_is M fdt name nameoff = str_eq M (strings fdt + ucast nameoff) name"

definition prop_points :: "mem \<Rightarrow> u8 list option \<Rightarrow> (u64 \<times> u32) option \<Rightarrow> bool" where
  "prop_points M d r = (case d of None \<Rightarrow> r = None
     | Some d \<Rightarrow> \<exists>p. r = Some (p, of_nat (length d)) \<and> bytes_at M p d \<and> length d + 12 < 2 ^ 32)"

lemma fdt_node_prop_loop_at:
  "holds M fdt off ts \<Longrightarrow>
    \<exists>r. fdt_node_prop_loop M fdt name off = Some r \<and>
        prop_points M (own_prop (name_is M fdt name) ts) r"
proof (induction ts arbitrary: off)
  case Nil
  then show ?case
    by (subst fdt_node_prop_loop.simps) (simp add: holds_end prop_points_def)
next
  case (Cons t ts)
  note lt = holds_less [OF Cons.prems] and tg = holds_tag [OF Cons.prems]
    and IH = Cons.IH [OF holds_next [OF Cons.prems]]
  show ?case
  proof (cases t)
    case (TProp nameoff d)
    note f = prop_fields [OF Cons.prems [unfolded TProp]]
    show ?thesis
    proof (cases "name_is M fdt name nameoff")
      case True
      then show ?thesis using lt tg TProp f
        by (subst fdt_node_prop_loop.simps)
           (simp add: fdt_tokens name_is_def Let_def prop_points_def)
    next
      case False
      then show ?thesis using lt tg TProp f(1,2,4) IH
        by (subst fdt_node_prop_loop.simps)
           (simp add: fdt_tokens name_is_def [symmetric] Let_def)
    qed
  qed (use lt tg IH in \<open>subst fdt_node_prop_loop.simps, simp add: fdt_tokens prop_points_def\<close>)+
qed

lemma fdt_node_prop_at:
  assumes "holds M fdt off (TBegin nm # ts)"
  shows "\<exists>r. fdt_node_prop M fdt off name = Some r \<and>
        prop_points M (own_prop (name_is M fdt name) ts) r"
  using fdt_node_prop_loop_at [OF holds_next [OF assms]]
  by (simp add: fdt_node_prop_def skip_name_at [OF assms])

section \<open>String lists\<close>

lemma bytes_at_drop:
  "bytes_at M a d \<Longrightarrow> k \<le> length d \<Longrightarrow> bytes_at M (a + of_nat k) (drop k d)"
  using bytes_at_append [of M a "take k d" "drop k d"] by (simp add: min_absorb2)

lemma bytes_at_nth: "bytes_at M a d \<Longrightarrow> k < length d \<Longrightarrow> M (a + of_nat k) = d ! k"
  using bytes_at_drop [of M a d k] by (simp add: Cons_nth_drop_Suc [symmetric])

lemma ucast_of_nat_32: "n < 2 ^ 32 \<Longrightarrow> (ucast (of_nat n :: u32) :: u64) = of_nat n"
  using ucast_add_of_nat(1) [of 0 n] by simp

lemma of_nat_less_32: "n < 2 ^ 32 \<Longrightarrow> m < 2 ^ 32 \<Longrightarrow> (of_nat n :: u32) < of_nat m \<longleftrightarrow> n < m"
  by (simp add: word_less_nat_alt unat_of_nat_small)

lemma strlist_skip_at:
  assumes "bytes_at M a d" "length d < 2 ^ 32" "k \<le> length d"
  shows "strlist_skip M a (of_nat (length d)) (of_nat k) =
    Some (of_nat (k + length (takeWhile (\<lambda>b. b \<noteq> 0) (drop k d))))"
  using assms(3)
proof (induction "length d - k" arbitrary: k)
  case 0
  then show ?case by (subst strlist_skip.simps) simp
next
  case (Suc n)
  then have k: "k < length d" by simp
  have u: "(of_nat k :: u32) < of_nat (length d)" "(ucast (of_nat k :: u32) :: u64) = of_nat k"
    using k assms(2) by (simp_all add: of_nat_less_32 ucast_of_nat_32)
  have "strlist_skip M a (of_nat (length d)) (of_nat (Suc k)) =
    Some (of_nat (Suc k + length (takeWhile (\<lambda>b. b \<noteq> 0) (drop (Suc k) d))))"
    using Suc k by (intro Suc.hyps) auto
  moreover have "drop k d = d ! k # drop (Suc k) d" using k by (simp add: Cons_nth_drop_Suc)
  moreover note bytes_at_nth [OF assms(1) k]
  ultimately show ?case using u by (subst strlist_skip.simps) (simp add: algebra_simps)
qed

lemma terminated_split:
  assumes "d \<noteq> []" "last d = 0"
  shows "d = takeWhile (\<lambda>b. b \<noteq> 0) d @ 0 # drop (Suc (length (takeWhile (\<lambda>b. b \<noteq> (0 :: u8)) d))) d"
    and "drop (Suc (length (takeWhile (\<lambda>b. b \<noteq> 0) d))) d = [] \<or>
      last (drop (Suc (length (takeWhile (\<lambda>b. b \<noteq> 0) d))) d) = 0"
proof -
  let ?t = "takeWhile (\<lambda>b. b \<noteq> (0 :: u8)) d"
  have "0 \<in> set d" using assms last_in_set by metis
  then have "?t \<noteq> d" by (simp only: takeWhile_eq_all_conv) blast
  then have l: "length ?t < length d"
    by (metis takeWhile_eq_take length_takeWhile_le order_le_less take_all)
  then have "d ! length ?t = 0" using nth_length_takeWhile by blast
  then show "d = ?t @ 0 # drop (Suc (length ?t)) d"
    using id_take_nth_drop [OF l] takeWhile_eq_take [of _ d] by metis
  show "drop (Suc (length ?t)) d = [] \<or> last (drop (Suc (length ?t)) d) = 0"
    using assms by (cases "Suc (length ?t) < length d") simp_all
qed

lemma strlist_match_at:
  assumes "bytes_at M a d" "length d + 12 < 2 ^ 32" "k \<le> Suc (length d)" "0 \<notin> set c"
    and "drop k d = [] \<or> last (drop k d) = 0"
  shows "strlist_match M a (of_nat (length d)) c (of_nat k) = Some (c \<in> set (strlist (drop k d)))"
  using assms(3,5)
proof (induction "Suc (length d) - k" arbitrary: k rule: less_induct)
  case less
  show ?case
  proof (cases "k < length d")
    case False
    then have "\<not> (of_nat k :: u32) < of_nat (length d)"
      using less.prems(1) assms(2) by (subst of_nat_less_32) auto
    with False show ?thesis by (subst strlist_match.simps) (simp add: strlist.simps)
  next
    case True
    let ?d = "drop k d" and ?t = "takeWhile (\<lambda>b. b \<noteq> 0) (drop k d)"
    have ne: "?d \<noteq> []" "last ?d = 0" using True less.prems(2) by auto
    note sp = terminated_split [OF ne]
    have u: "(of_nat k :: u32) < of_nat (length d)" "(ucast (of_nat k :: u32) :: u64) = of_nat k"
      using True assms(2) by (simp_all add: of_nat_less_32 ucast_of_nat_32)
    have "bytes_at M (a + of_nat k) (?t @ 0 # drop (Suc (length ?t)) ?d)"
      unfolding sp(1) [symmetric] using bytes_at_drop [OF assms(1), of k] True by simp
    then have eq: "str_eq M (a + of_nat k) c = (?t = c)"
      by (rule str_eq_at) (use assms(4) in \<open>auto dest: set_takeWhileD\<close>)
    define k' where "k' = Suc (k + length ?t)"
    have "length ?d = length (?t @ 0 # drop (Suc (length ?t)) ?d)" by (rule arg_cong [OF sp(1)])
    then have lt: "length ?t < length ?d" unfolding length_append list.size by linarith
    have dk: "drop k' d = drop (Suc (length ?t)) ?d" by (simp add: k'_def add.commute)
    have IH: "strlist_match M a (of_nat (length d)) c (of_nat k') = Some (c \<in> set (strlist (drop k' d)))"
    proof (rule less.hyps)
      show "Suc (length d) - k' < Suc (length d) - k" "k' \<le> Suc (length d)"
        using lt True by (simp_all add: k'_def)
      show "drop k' d = [] \<or> last (drop k' d) = 0" unfolding dk by (rule sp(2))
    qed
    have "strlist ?d = ?t # strlist (drop k' d)"
      using ne by (subst strlist.simps) (simp add: dk)
    have sk: "strlist_skip M a (of_nat (length d)) (of_nat k) = Some (of_nat (k + length ?t))"
      by (rule strlist_skip_at [OF assms(1)]) (use assms(2) True in simp_all)
    have k': "(of_nat (k + length ?t) + 1 :: u32) = of_nat k'" by (simp add: k'_def)
    from \<open>strlist ?d = _\<close> show ?thesis
      by (subst strlist_match.simps) (simp only: u eq if_True sk Option.bind.simps k' IH list.set, auto)
  qed
qed

section \<open>Searches\<close>

text \<open>The offset of the first node that satisfies \<open>P\<close>, which sees the node's name and the
  tokens after it.\<close>

fun find_node :: "(u8 list \<Rightarrow> token list \<Rightarrow> bool) \<Rightarrow> u32 \<Rightarrow> token list \<Rightarrow> u32" where
  "find_node P off [] = UINT32_MAX"
| "find_node P off (t # ts) =
     (case t of
        TBegin nm \<Rightarrow> if P nm ts then off else find_node P (off + tsize t) ts
      | TFin \<Rightarrow> UINT32_MAX
      | _ \<Rightarrow> find_node P (off + tsize t) ts)"

definition lists_ok :: "mem \<Rightarrow> fdt \<Rightarrow> u8 list \<Rightarrow> token list \<Rightarrow> bool" where
  "lists_ok M fdt name ts = list_all (\<lambda>t. case t of
     TProp nameoff d \<Rightarrow> name_is M fdt name nameoff \<longrightarrow> d = [] \<or> last d = 0 | _ \<Rightarrow> True) ts"

lemma own_prop_list_ok:
  "lists_ok M fdt name ts \<Longrightarrow> own_prop (name_is M fdt name) ts = Some d \<Longrightarrow> d = [] \<or> last d = 0"
  by (induction ts) (auto simp: lists_ok_def split: token.splits if_splits)

definition node_compatible :: "mem \<Rightarrow> fdt \<Rightarrow> u8 list \<Rightarrow> token list \<Rightarrow> bool" where
  "node_compatible M fdt c ts =
     (case own_prop (name_is M fdt (bytes_of ''compatible'')) ts of
        None \<Rightarrow> False | Some d \<Rightarrow> c \<in> set (strlist d))"

lemma compatible_at:
  assumes h: "holds M fdt off (TBegin nm # ts)"
    and ok: "lists_ok M fdt (bytes_of ''compatible'') ts" and c: "0 \<notin> set c"
  obtains r where "fdt_node_prop M fdt off (bytes_of ''compatible'') = Some r"
    "(case r of None \<Rightarrow> Some False | Some (p, len) \<Rightarrow> strlist_match M p len c 0)
      = Some (node_compatible M fdt c ts)"
proof -
  obtain r where r: "fdt_node_prop M fdt off (bytes_of ''compatible'') = Some r"
    "prop_points M (own_prop (name_is M fdt (bytes_of ''compatible'')) ts) r"
    using fdt_node_prop_at [OF h] by blast
  show thesis
  proof (cases "own_prop (name_is M fdt (bytes_of ''compatible'')) ts")
    case None
    with r show ?thesis using that [OF r(1)] by (simp add: prop_points_def node_compatible_def)
  next
    case (Some d)
    with r obtain p where p: "r = Some (p, of_nat (length d))" "bytes_at M p d" "length d + 12 < 2 ^ 32"
      by (auto simp: prop_points_def)
    have "strlist_match M p (of_nat (length d)) c (of_nat 0) = Some (c \<in> set (strlist (drop 0 d)))"
      by (rule strlist_match_at [OF p(2,3) _ c]) (use own_prop_list_ok [OF ok Some] in auto)
    then show ?thesis using that [OF r(1)] Some p(1) by (simp add: node_compatible_def)
  qed
qed

lemma fdt_find_compatible_loop_at:
  assumes c: "0 \<notin> set c"
  shows "holds M fdt off ts \<Longrightarrow> lists_ok M fdt (bytes_of ''compatible'') ts \<Longrightarrow>
    fdt_find_compatible_loop M fdt c off = Some (find_node (\<lambda>nm. node_compatible M fdt c) off ts)"
proof (induction ts arbitrary: off)
  case Nil
  then show ?case by (subst fdt_find_compatible_loop.simps) (simp add: holds_end)
next
  case (Cons t ts)
  note lt = holds_less [OF Cons.prems(1)] and tg = holds_tag [OF Cons.prems(1)]
  have ok: "lists_ok M fdt (bytes_of ''compatible'') ts" using Cons.prems(2) by (simp add: lists_ok_def)
  note IH = Cons.IH [OF holds_next [OF Cons.prems(1)] ok]
  show ?case
  proof (cases t)
    case (TBegin nm)
    note h = Cons.prems(1) [unfolded TBegin]
    obtain r where r: "fdt_node_prop M fdt off (bytes_of ''compatible'') = Some r"
      "(case r of None \<Rightarrow> Some False | Some (p, len) \<Rightarrow> strlist_match M p len c 0)
        = Some (node_compatible M fdt c ts)"
      by (rule compatible_at [OF h ok c])
    show ?thesis using lt tg TBegin IH skip_name_at [OF h]
      by (subst fdt_find_compatible_loop.simps) (simp add: r fdt_tokens Let_def)
  next
    case (TProp nameoff d)
    show ?thesis using lt tg TProp IH skip_prop_at [OF Cons.prems(1) [unfolded TProp]]
      by (subst fdt_find_compatible_loop.simps) (simp add: fdt_tokens Let_def)
  qed (use lt tg IH in \<open>subst fdt_find_compatible_loop.simps, simp add: fdt_tokens Let_def\<close>)+
qed

lemma node_name_matches_at:
  "bytes_at M a (nm @ 0 # bs) \<Longrightarrow> 0 \<notin> set nm \<Longrightarrow> 0 \<notin> set name \<Longrightarrow> 64 \<notin> set name \<Longrightarrow>
    node_name_matches M name a = (takeWhile (\<lambda>b. b \<noteq> 64) nm = name)"
proof (induction name arbitrary: a nm)
  case Nil
  then show ?case by (cases nm) auto
next
  case (Cons x name)
  then show ?case by (cases nm) auto
qed

lemma fdt_find_node_named_loop_at:
  assumes n: "0 \<notin> set name" "64 \<notin> set name"
  shows "holds M fdt off ts \<Longrightarrow>
    fdt_find_node_named_loop M fdt name off =
      Some (find_node (\<lambda>nm _. takeWhile (\<lambda>b. b \<noteq> 64) nm = name) off ts)"
proof (induction ts arbitrary: off)
  case Nil
  then show ?case by (subst fdt_find_node_named_loop.simps) (simp add: holds_end)
next
  case (Cons t ts)
  note lt = holds_less [OF Cons.prems] and tg = holds_tag [OF Cons.prems]
    and IH = Cons.IH [OF holds_next [OF Cons.prems]]
  show ?case
  proof (cases t)
    case (TBegin nm)
    note h = Cons.prems [unfolded TBegin]
    have "bytes_at M (fdt_node_name fdt off)
        (nm @ 0 # replicate ((4 - Suc (length nm) mod 4) mod 4) 0 @ enc_all ts)" "0 \<notin> set nm"
      using h by (simp_all add: holds_def fdt_node_name_def bytes_at_append pad4_def algebra_simps)
    note m = node_name_matches_at [OF this n]
    show ?thesis using lt tg TBegin IH skip_name_at [OF h]
      by (subst fdt_find_node_named_loop.simps) (simp add: m fdt_tokens Let_def)
  next
    case (TProp nameoff d)
    show ?thesis using lt tg TProp IH skip_prop_at [OF Cons.prems [unfolded TProp]]
      by (subst fdt_find_node_named_loop.simps) (simp add: fdt_tokens Let_def)
  qed (use lt tg IH in \<open>subst fdt_find_node_named_loop.simps, simp add: fdt_tokens Let_def\<close>)+
qed

lemma fdt_next_node_at:
  "holds M fdt off ts \<Longrightarrow> fdt_next_node M fdt off = Some (find_node (\<lambda>_ _. True) off ts)"
proof (induction ts arbitrary: off)
  case Nil
  then show ?case by (subst fdt_next_node.simps) (simp add: holds_end)
next
  case (Cons t ts)
  note lt = holds_less [OF Cons.prems] and tg = holds_tag [OF Cons.prems]
    and IH = Cons.IH [OF holds_next [OF Cons.prems]]
  show ?case
  proof (cases t)
    case (TProp nameoff d)
    show ?thesis using lt tg TProp IH skip_prop_at [OF Cons.prems [unfolded TProp]]
      by (subst fdt_next_node.simps) (simp add: fdt_tokens Let_def)
  qed (use lt tg IH in \<open>subst fdt_next_node.simps, simp add: fdt_tokens Let_def\<close>)+
qed

section \<open>Numeric properties\<close>

lemma be_val_append: "be_val (xs @ ys) = be_val xs * 256 ^ length ys + be_val ys"
proof (induction ys rule: rev_induct)
  case (snoc y ys)
  have "be_val (zs @ [y]) = 256 * be_val zs + unat y" for zs by (simp add: be_val_def)
  then show ?case using snoc by (simp add: algebra_simps flip: append_assoc)
qed (simp add: be_val_def)

lemma be_val_bound: "be_val bs < 256 ^ length bs"
proof (induction bs rule: rev_induct)
  case (snoc b bs)
  have "be_val (bs @ [b]) = 256 * be_val bs + unat b" by (simp add: be_val_def)
  moreover have "unat b < 256" by (rule unat_u8_less)
  ultimately show ?case using snoc by simp
qed (simp add: be_val_def)

lemma fdt_read_be32_val:
  assumes "bytes_at M p d" "unat off + 4 \<le> length d"
  shows "unat (fdt_read_be32 M p off) = be_val (take 4 (drop (unat off) d))"
proof -
  have "M (p + ucast off + of_nat k) = d ! (unat off + k)" if "k < 4" for k
    using bytes_at_nth [OF assms(1), of "unat off + k"] assms(2) that
    by (simp add: ucast_eq_of_nat algebra_simps del: of_nat_unat)
  from this [of 0] this [of 1] this [of 2] this [of 3]
  have "fdt_read_be32 M p off =
      be32_of (d ! unat off) (d ! (unat off + 1)) (d ! (unat off + 2)) (d ! (unat off + 3))"
    by (simp add: fdt_read_be32_def Let_def)
  moreover have "take 4 (drop (unat off) d) =
      [d ! unat off, d ! (unat off + 1), d ! (unat off + 2), d ! (unat off + 3)]"
    using assms(2) by (intro nth_equalityI) (auto simp: less_Suc_eq numeral_eq_Suc)
  ultimately show ?thesis by (simp only: unat_be32_of)
qed

lemma fdt_read_be64_val:
  assumes d: "bytes_at M p d" "unat off + 8 \<le> length d" and l: "length d < 2 ^ 32"
  shows "unat (fdt_read_be64 M p off) = be_val (take 8 (drop (unat off) d))"
proof -
  have o4: "unat (off + 4) = unat off + 4"
    using ucast_add_of_nat(2) [of off 4] d l by simp
  let ?h = "fdt_read_be32 M p off" and ?l = "fdt_read_be32 M p (off + 4)"
  have h: "unat ?h = be_val (take 4 (drop (unat off) d))"
    by (rule fdt_read_be32_val [OF d(1)]) (use d(2) in simp)
  have lo: "unat ?l = be_val (take 4 (drop (unat off + 4) d))"
    using fdt_read_be32_val [OF d(1), of "off + 4"] d(2) by (simp add: o4)
  have uu: "unat (ucast x :: u64) = unat x" for x :: u32
    using unat_u32_less [of x] by (simp add: unsigned_ucast_eq take_bit_nat_eq_self)
  have "push_bit 32 (ucast ?h) OR ucast ?l = (push_bit 32 (ucast ?h) + ucast ?l :: u64)"
    by (rule or_disjoint_bytes) (use unat_u32_less [of ?l] in \<open>simp add: uu\<close>)
  moreover have "unat (push_bit 32 (ucast ?h) + ucast ?l :: u64) = unat ?h * 2 ^ 32 + unat ?l"
  proof -
    have lt: "unat ?h * 2 ^ 32 + unat ?l < 2 ^ 64"
      using unat_u32_less [of ?h] unat_u32_less [of ?l] by simp
    have "(push_bit 32 (ucast ?h) + ucast ?l :: u64) = of_nat (unat ?h * 2 ^ 32 + unat ?l)"
      by (simp only: push_bit_eq_mult ucast_eq_of_nat of_nat_mult of_nat_power of_nat_numeral of_nat_add)
    then show ?thesis using unat_of_nat_small [where 'a = 64, of "unat ?h * 2 ^ 32 + unat ?l"] lt by simp
  qed
  moreover have "take 8 (drop (unat off) d) = take 4 (drop (unat off) d) @ take 4 (drop (unat off + 4) d)"
    using take_add [of 4 4 "drop (unat off) d"] by (simp add: add.commute)
  ultimately show ?thesis using d(2)
    by (simp add: fdt_read_be64_def be_val_append h lo)
qed

section \<open>Building a blob\<close>

definition mem_of :: "u8 list \<Rightarrow> mem" where
  "mem_of bs a = (if unat a < length bs then bs ! unat a else 0)"

lemma bytes_at_mem_of:
  assumes "length bs < 2 ^ 64"
  shows "bs = pre @ xs @ post \<Longrightarrow> bytes_at (mem_of bs) (of_nat (length pre)) xs"
proof (induction xs arbitrary: pre)
  case (Cons x xs)
  have "unat (of_nat (length pre) :: u64) = length pre"
    by (rule unat_of_nat_small) (use assms Cons.prems in simp)
  then have "mem_of bs (of_nat (length pre)) = x" by (simp add: mem_of_def Cons.prems)
  moreover have "bytes_at (mem_of bs) (of_nat (length (pre @ [x]))) xs"
    using Cons.IH [of "pre @ [x]"] Cons.prems by simp
  ultimately show ?case by (simp add: add.commute)
qed simp

definition blob_of :: "token list \<Rightarrow> u8 list \<Rightarrow> mem" where
  "blob_of ts strs = mem_of (enc_all ts @ strs)"

definition fdt_of :: "token list \<Rightarrow> fdt" where
  "fdt_of ts = \<lparr>struct_blob = 0, strings = of_nat (length (enc_all ts)),
                struct_size = of_nat (length (enc_all ts))\<rparr>"

lemma holds_blob_of:
  assumes "list_all wf_token ts" "length (enc_all ts) < 2 ^ 32" "length strs < 2 ^ 32"
  shows "holds (blob_of ts strs) (fdt_of ts) 0 ts"
  using assms bytes_at_mem_of [of "enc_all ts @ strs" "[]" "enc_all ts" strs]
  by (simp add: holds_def fdt_of_def blob_of_def unat_of_nat_small)

lemma fdt_node_reg64_at:
  assumes h: "holds M fdt off (TBegin nm # ts)" and idx: "unat idx + 1 < 2 ^ 28"
  shows "\<exists>r. fdt_node_reg64 M fdt off idx = Some r \<and>
    (case own_prop (name_is M fdt (bytes_of ''reg'')) ts of
       None \<Rightarrow> r = None
     | Some d \<Rightarrow>
         if length d < 16 * (unat idx + 1) then r = None
         else \<exists>a s. r = Some (a, s) \<and>
                unat a = be_val (take 8 (drop (16 * unat idx) d)) \<and>
                unat s = be_val (take 8 (drop (16 * unat idx + 8) d)))"
proof -
  obtain r where r: "fdt_node_prop M fdt off (bytes_of ''reg'') = Some r"
    "prop_points M (own_prop (name_is M fdt (bytes_of ''reg'')) ts) r"
    using fdt_node_prop_at [OF h] by blast
  show ?thesis
  proof (cases "own_prop (name_is M fdt (bytes_of ''reg'')) ts")
    case None
    with r show ?thesis by (simp add: fdt_node_reg64_def prop_points_def)
  next
    case (Some d)
    with r obtain p where p: "r = Some (p, of_nat (length d))" "bytes_at M p d" "length d + 12 < 2 ^ 32"
      by (auto simp: prop_points_def)
    have i1: "unat (idx + 1) = unat idx + 1" using idx by (simp add: unat_add_no_wrap)
    have i16: "unat ((idx + 1) * 16) = 16 * (unat idx + 1)"
      using idx by (subst unat_mult_no_wrap) (simp_all add: i1)
    have o16: "unat (idx * 16) = 16 * unat idx" using idx by (simp add: unat_mult_no_wrap)
    have o8: "unat (idx * 16 + 8) = 16 * unat idx + 8" using idx by (simp add: unat_add_no_wrap o16)
    have ld: "unat (of_nat (length d) :: u32) = length d"
      by (rule unat_of_nat_small) (use p(3) in simp)
    have cmp: "(idx + 1) * 16 > of_nat (length d) \<longleftrightarrow> length d < 16 * (unat idx + 1)"
      by (simp only: word_less_nat_alt i16 ld)
    show ?thesis
    proof (cases "length d < 16 * (unat idx + 1)")
      case True
      then show ?thesis using r(1) Some cmp by (simp add: fdt_node_reg64_def p(1))
    next
      case False
      then have "unat (fdt_read_be64 M p (idx * 16)) = be_val (take 8 (drop (16 * unat idx) d))"
        "unat (fdt_read_be64 M p (idx * 16 + 8)) = be_val (take 8 (drop (16 * unat idx + 8) d))"
        using fdt_read_be64_val [OF p(2), of "idx * 16"] fdt_read_be64_val [OF p(2), of "idx * 16 + 8"]
          p(3) by (simp_all add: o16 o8)
      with False show ?thesis using r(1) Some cmp
        by (simp add: fdt_node_reg64_def p(1) Let_def)
    qed
  qed
qed

section \<open>Properties\<close>

text \<open>C13: on a structure block that encodes a token list, searching for a compatible
  string returns, and yields the offset of the first node, in file order, whose own
  \<open>compatible\<close> list contains the string, or \<open>UINT32_MAX\<close> when no node before the end
  token has one.\<close>

theorem fdt_find_compatible_correct:
  assumes "holds M fdt 0 ts" "lists_ok M fdt (bytes_of ''compatible'') ts" "0 \<notin> set c"
  shows "fdt_find_compatible M fdt c = Some (find_node (\<lambda>nm. node_compatible M fdt c) 0 ts)"
  unfolding fdt_find_compatible_def by (rule fdt_find_compatible_loop_at [OF assms(3,1,2)])

definition sample_tree :: "token list" where
  "sample_tree = [TBegin [], TProp 0 [98, 0], TBegin [99, 64, 49], TNop, TProp 0 [98, 0, 97, 0],
     TProp 11 [0, 0, 0, 0, 0, 0, 0x10, 0, 0, 0, 0, 0, 0, 0, 2, 0], TEnd, TEnd, TFin]"

definition sample_strings :: "u8 list" where
  "sample_strings = bytes_of ''compatible'' @ [0] @ bytes_of ''reg'' @ [0]"

lemma replicate_small: "replicate 2 x = [x, x]" "replicate 3 x = [x, x, x]"
  by (simp_all add: numeral_2_eq_2 numeral_3_eq_3)

lemma sample_bytes: "enc_all sample_tree @ sample_strings =
  [0,0,0,1, 0,0,0,0, 0,0,0,3, 0,0,0,2, 0,0,0,0, 98,0,0,0, 0,0,0,1, 99,64,49,0, 0,0,0,4,
   0,0,0,3, 0,0,0,4, 0,0,0,0, 98,0,97,0, 0,0,0,3, 0,0,0,16, 0,0,0,11,
   0,0,0,0,0,0,16,0,0,0,0,0,0,0,2,0, 0,0,0,2, 0,0,0,2, 0,0,0,9,
   99,111,109,112,97,116,105,98,108,101,0,114,101,103,0]"
  by (simp add: sample_tree_def sample_strings_def fdt_tokens be32_bytes_def pad4_def bytes_of_def
      byte_of_char_def replicate_small)

lemma sample_length: "length (enc_all sample_tree) = 92"
  by (simp add: sample_tree_def length_pad4)

lemma sample_holds: "holds (blob_of sample_tree sample_strings) (fdt_of sample_tree) 0 sample_tree"
  by (rule holds_blob_of)
     (simp add: sample_tree_def, simp add: sample_length, simp add: sample_strings_def bytes_of_def)

lemma sample_names:
  "name_is (blob_of sample_tree sample_strings) (fdt_of sample_tree) (bytes_of ''compatible'') 0"
  "\<not> name_is (blob_of sample_tree sample_strings) (fdt_of sample_tree) (bytes_of ''compatible'') 11"
  "name_is (blob_of sample_tree sample_strings) (fdt_of sample_tree) (bytes_of ''reg'') 11"
  "\<not> name_is (blob_of sample_tree sample_strings) (fdt_of sample_tree) (bytes_of ''reg'') 0"
  by (simp_all add: name_is_def blob_of_def fdt_of_def sample_length sample_bytes mem_of_def
      bytes_of_def byte_of_char_def)

lemma fdt_find_compatible_correct_witness:
  "fdt_find_compatible (blob_of sample_tree sample_strings) (fdt_of sample_tree) [97] = Some 24"
proof -
  have ok: "lists_ok (blob_of sample_tree sample_strings) (fdt_of sample_tree)
      (bytes_of ''compatible'') sample_tree"
    by (simp add: lists_ok_def sample_names sample_tree_def)
  have "fdt_find_compatible (blob_of sample_tree sample_strings) (fdt_of sample_tree) [97] =
    Some (find_node (\<lambda>nm. node_compatible (blob_of sample_tree sample_strings) (fdt_of sample_tree) [97])
      0 sample_tree)"
    by (rule fdt_find_compatible_correct [OF sample_holds ok]) simp
  also have "\<dots> = Some 24"
    using sample_names
    by (simp add: sample_tree_def node_compatible_def strlist.simps tsize_def length_pad4)
  finally show ?thesis .
qed

text \<open>Searching for a node by its base name returns the offset of the first node whose
  name up to its unit address is the wanted one, and the forward walk returns the first node
  at or after its starting token; both yield \<open>UINT32_MAX\<close> when there is none.\<close>

theorem fdt_find_node_named_correct:
  assumes "holds M fdt 0 ts" "0 \<notin> set name" "64 \<notin> set name"
  shows "fdt_find_node_named M fdt name =
           Some (find_node (\<lambda>nm _. takeWhile (\<lambda>b. b \<noteq> 64) nm = name) 0 ts) \<and>
    fdt_next_node M fdt 0 = Some (find_node (\<lambda>_ _. True) 0 ts)"
  using fdt_find_node_named_loop_at [OF assms(2,3,1)] fdt_next_node_at [OF assms(1)]
  by (simp add: fdt_find_node_named_def)

lemma fdt_find_node_named_correct_witness:
  "fdt_find_node_named (blob_of sample_tree sample_strings) (fdt_of sample_tree) [99] = Some 24"
proof -
  have "fdt_find_node_named (blob_of sample_tree sample_strings) (fdt_of sample_tree) [99] =
    Some (find_node (\<lambda>nm _. takeWhile (\<lambda>b. b \<noteq> 64) nm = [99]) 0 sample_tree)"
    by (rule fdt_find_node_named_correct [OF sample_holds, THEN conjunct1]) simp_all
  then show ?thesis by (simp add: sample_tree_def tsize_def length_pad4)
qed

text \<open>C26: reading entry \<open>idx\<close> of a node's \<open>reg\<close> property: a node without the property, or
  with too few bytes for the entry, gives no result; otherwise the address and the size are
  the big-endian values of the entry's two 8-byte halves.  The index is below the point
  where \<open>(idx + 1) * 16\<close> wraps.\<close>

theorem fdt_node_reg64_correct:
  assumes h: "holds M fdt off (TBegin nm # ts)" and idx: "unat idx + 1 < 2 ^ 28"
  shows "\<exists>r. fdt_node_reg64 M fdt off idx = Some r \<and>
    (case own_prop (name_is M fdt (bytes_of ''reg'')) ts of
       None \<Rightarrow> r = None
     | Some d \<Rightarrow>
         if length d < 16 * (unat idx + 1) then r = None
         else \<exists>a s. r = Some (a, s) \<and>
                unat a = be_val (take 8 (drop (16 * unat idx) d)) \<and>
                unat s = be_val (take 8 (drop (16 * unat idx + 8) d)))"
  by (rule fdt_node_reg64_at [OF assms])

lemma fdt_node_reg64_correct_witness:
  "fdt_node_reg64 (blob_of sample_tree sample_strings) (fdt_of sample_tree) 24 0
    = Some (Some (0x1000, 0x200))"
proof -
  have h: "holds (blob_of sample_tree sample_strings) (fdt_of sample_tree) 24
      (TBegin [99, 64, 49] # drop 3 sample_tree)"
    using holds_next [OF holds_next [OF sample_holds [unfolded sample_tree_def]]]
    by (simp add: sample_tree_def tsize_def length_pad4)
  have e: "x = of_nat (unat x)" for x :: u64 by simp
  from fdt_node_reg64_correct [OF h, of 0] show ?thesis
    using sample_names e [of "0x1000"] e [of "0x200"]
    by (auto simp: sample_tree_def be_val_def word_unat_eq_iff)
qed

text \<open>The header of the library advises to continue a walk at the previous node's offset
  plus four.  That is the node's name, not a token: after a node with an empty name, as the
  root always has, the walk stops there and reports that no node is left, whatever follows.
  Continuing after the name instead, at the first token of the node's body, finds the next
  node.\<close>

theorem fdt_next_node_resume:
  assumes h: "holds M fdt off (TBegin [] # ts)"
  shows "fdt_next_node M fdt (off + 4) = Some UINT32_MAX \<and>
    fdt_next_node M fdt (off + 8) = Some (find_node (\<lambda>_ _. True) (off + 8) ts)"
proof
  have e: "enc (TBegin []) = be32_bytes 1 @ be32_bytes 0"
    by (simp add: fdt_tokens pad4_def be32_bytes_def replicate_small)
  have o4: "(ucast (off + 4) :: u64) = ucast off + 4" "unat (off + 4) = unat off + 4"
    using ucast_add_of_nat [of off 4] holds_bound [OF h] by (simp_all add: length_pad4)
  have "bytes_at M (struct_blob fdt + ucast (off + 4)) (be32_bytes 0 @ enc_all ts)"
    using h by (simp add: holds_def e o4 bytes_at_append algebra_simps del: enc.simps)
  then have "fdt_read_be32 M (struct_blob fdt) (off + 4) = 0" by (rule fdt_read_be32_at)
  moreover have "off + 4 < struct_size fdt"
    using h by (simp add: holds_def e o4 word_less_nat_alt del: enc.simps)
  ultimately show "fdt_next_node M fdt (off + 4) = Some UINT32_MAX"
    by (subst fdt_next_node.simps) (simp add: fdt_tokens Let_def)
  have "tsize (TBegin []) = 8" by (simp add: tsize_def length_pad4)
  then show "fdt_next_node M fdt (off + 8) = Some (find_node (\<lambda>_ _. True) (off + 8) ts)"
    using fdt_next_node_at [OF holds_next [OF h]] by simp
qed

lemma fdt_next_node_resume_witness:
  "fdt_next_node (blob_of sample_tree sample_strings) (fdt_of sample_tree) (0 + 4) = Some UINT32_MAX"
  using fdt_next_node_resume [OF sample_holds [unfolded sample_tree_def]]
  by (simp add: sample_tree_def)

end
