(* ===== verification/Plat.thy ===== *)
theory Plat
  imports Machine Fdt
begin

text \<open>
  The platform layer: the two backends \<open>src/plat_m_clint.c\<close> (suffix \<open>_m\<close>) and
  \<open>src/plat_s_sbi.c\<close> (suffix \<open>_s\<close>), and the choice between them that the Makefile makes
  at link time (\<open>HAL_PLAT\<close>), a \<open>priv\<close> argument of the unsuffixed operations.  The
  statics of both backends are one record; \<open>tp\<close> is the register in which the S-mode start
  code keeps the hart id.
\<close>

record plat =
  plic_base :: u64
  clint_base :: u64
  use_sstc :: bool
  tp :: u64

definition plat_reset :: plat where
  "plat_reset = \<lparr>plic_base = 0x0C000000, clint_base = 0x02000000, use_sstc = False, tp = 0\<rparr>"

definition RVVM_PLIC_SRC_LIMIT :: u32 where "RVVM_PLIC_SRC_LIMIT = 64"
definition RVVM_PLIC_PRIO_OFF :: u32 where "RVVM_PLIC_PRIO_OFF = 0"
definition RVVM_PLIC_ENABLE_OFF :: u32 where "RVVM_PLIC_ENABLE_OFF = 0x2000"
definition RVVM_PLIC_CTX_OFF :: u32 where "RVVM_PLIC_CTX_OFF = 0x200000"
definition RVVM_PLIC_CTX_THRESHOLD :: u32 where "RVVM_PLIC_CTX_THRESHOLD = 0"
definition RVVM_PLIC_CTX_CLAIM :: u32 where "RVVM_PLIC_CTX_CLAIM = 4"

lemmas plic_consts = RVVM_PLIC_SRC_LIMIT_def RVVM_PLIC_PRIO_OFF_def RVVM_PLIC_ENABLE_OFF_def
  RVVM_PLIC_CTX_OFF_def RVVM_PLIC_CTX_THRESHOLD_def RVVM_PLIC_CTX_CLAIM_def

section \<open>Hart identity, lifecycle, IPI and timer\<close>

definition plat_init_m :: "u64 \<Rightarrow> u64 \<Rightarrow> plat \<Rightarrow> plat" where
  "plat_init_m intc_base clint P =
     (let P = (if intc_base \<noteq> 0 then P\<lparr>plic_base := intc_base\<rparr> else P)
      in if clint \<noteq> 0 then P\<lparr>clint_base := clint\<rparr> else P)"

definition plat_init_s :: "u64 \<Rightarrow> u64 \<Rightarrow> plat \<Rightarrow> plat" where
  "plat_init_s intc_base clint P = (if intc_base \<noteq> 0 then P\<lparr>plic_base := intc_base\<rparr> else P)"

definition plat_this_hart_m :: "env \<Rightarrow> plat \<Rightarrow> mach \<Rightarrow> u32 \<times> mach" where
  "plat_this_hart_m E P m = (let (v, m) = ask E (CsrRd CSR_HARTID) m in (ucast v, m))"

definition plat_this_hart_s :: "env \<Rightarrow> plat \<Rightarrow> mach \<Rightarrow> u32 \<times> mach" where
  "plat_this_hart_s E P m = (ucast (tp P), m)"

definition plat_ipi_send_m :: "env \<Rightarrow> plat \<Rightarrow> u32 \<Rightarrow> mach \<Rightarrow> mach" where
  "plat_ipi_send_m E P hartid m = mmio_w32 (clint_base P + ucast (hartid * 4)) 1 (emit Fence m)"

definition plat_ipi_ack_m :: "env \<Rightarrow> plat \<Rightarrow> u32 \<Rightarrow> mach \<Rightarrow> mach" where
  "plat_ipi_ack_m E P self m = mmio_w32 (clint_base P + ucast (self * 4)) 0 m"

definition SBI_EID_TIME :: u64 where "SBI_EID_TIME = 0x54494D45"
definition SBI_EID_IPI :: u64 where "SBI_EID_IPI = 0x735049"
definition SBI_EID_HSM :: u64 where "SBI_EID_HSM = 0x48534D"

definition sbi_call2 :: "env \<Rightarrow> u64 \<Rightarrow> u64 \<Rightarrow> u64 \<Rightarrow> u64 \<Rightarrow> mach \<Rightarrow> u64 \<times> mach" where
  "sbi_call2 E eid fid a0 a1 m = ask E (Ecall eid fid [a0, a1]) m"

definition sbi_call3 :: "env \<Rightarrow> u64 \<Rightarrow> u64 \<Rightarrow> u64 \<Rightarrow> u64 \<Rightarrow> u64 \<Rightarrow> mach \<Rightarrow> u64 \<times> mach" where
  "sbi_call3 E eid fid a0 a1 a2 m = ask E (Ecall eid fid [a0, a1, a2]) m"

definition plat_ipi_send_s :: "env \<Rightarrow> plat \<Rightarrow> u32 \<Rightarrow> mach \<Rightarrow> mach" where
  "plat_ipi_send_s E P hartid m = snd (sbi_call2 E SBI_EID_IPI 0 1 (ucast hartid) (emit Fence m))"

text \<open>\<open>csrc sip\<close> with the software bit: the argument of the write is the cleared mask.\<close>

definition plat_ipi_ack_s :: "env \<Rightarrow> plat \<Rightarrow> u32 \<Rightarrow> mach \<Rightarrow> mach" where
  "plat_ipi_ack_s E P self m = emit (CsrWr CSR_IP (IE_SOFT_BIT SMode)) m"

definition mtimecmp_for :: "plat \<Rightarrow> u32 \<Rightarrow> u64" where
  "mtimecmp_for P hartid = clint_base P + 0x4000 + ucast (hartid * 8)"

definition plat_timer_set_deadline_m :: "env \<Rightarrow> plat \<Rightarrow> u64 \<Rightarrow> mach \<Rightarrow> mach" where
  "plat_timer_set_deadline_m E P deadline m =
     (let (h, m) = plat_this_hart_m E P m in mmio_w64 (mtimecmp_for P h) deadline m)"

definition plat_timer_set_deadline_s :: "env \<Rightarrow> plat \<Rightarrow> u64 \<Rightarrow> mach \<Rightarrow> mach" where
  "plat_timer_set_deadline_s E P deadline m =
     (if use_sstc P then emit (CsrWr CSR_STIMECMP deadline) m
      else snd (sbi_call2 E SBI_EID_TIME 0 deadline 0 m))"

definition plat_timer_irq_enable_m :: "mach \<Rightarrow> mach" where
  "plat_timer_irq_enable_m m = m\<lparr>xie := xie m OR IE_TIMER_BIT MMode\<rparr>"

definition plat_timer_irq_enable_s :: "mach \<Rightarrow> mach" where
  "plat_timer_irq_enable_s m = m\<lparr>xie := xie m OR IE_TIMER_BIT SMode\<rparr>"

definition plat_timer_irq_disable_m :: "mach \<Rightarrow> mach" where
  "plat_timer_irq_disable_m m = m\<lparr>xie := xie m AND NOT (IE_TIMER_BIT MMode)\<rparr>"

definition plat_timer_irq_disable_s :: "mach \<Rightarrow> mach" where
  "plat_timer_irq_disable_s m = m\<lparr>xie := xie m AND NOT (IE_TIMER_BIT SMode)\<rparr>"

text \<open>\<open>_smp_secondary_entry\<close> is a symbol of the start code: its address is the argument
  \<open>entry\<close>.\<close>

definition plat_hart_bringup_park_m :: "env \<Rightarrow> u64 \<Rightarrow> u32 \<Rightarrow> mach \<Rightarrow> mach" where
  "plat_hart_bringup_park_m E entry hartid m = m"

definition plat_hart_bringup_park_s :: "env \<Rightarrow> u64 \<Rightarrow> u32 \<Rightarrow> mach \<Rightarrow> mach" where
  "plat_hart_bringup_park_s E entry hartid m =
     snd (sbi_call3 E SBI_EID_HSM 0 (ucast hartid) entry 0 m)"

section \<open>The PLIC\<close>

definition plic_prio_reg :: "plat \<Rightarrow> u32 \<Rightarrow> u64" where
  "plic_prio_reg P source = plic_base P + ucast RVVM_PLIC_PRIO_OFF + ucast (source * 4)"

definition plic_enable_reg :: "plat \<Rightarrow> u32 \<Rightarrow> u32 \<Rightarrow> u64" where
  "plic_enable_reg P ctx word_idx =
     plic_base P + ucast RVVM_PLIC_ENABLE_OFF + ucast (ctx * 0x80) + ucast (word_idx * 4)"

definition plic_ctx_reg :: "plat \<Rightarrow> u32 \<Rightarrow> u32 \<Rightarrow> u64" where
  "plic_ctx_reg P ctx flag_off =
     plic_base P + ucast RVVM_PLIC_CTX_OFF + ucast (ctx * 0x1000) + ucast flag_off"

definition PLIC_CTX_M_HART0 :: u32 where "PLIC_CTX_M_HART0 = 0"

definition plic_ctx_self :: "env \<Rightarrow> plat \<Rightarrow> mach \<Rightarrow> u32 \<times> mach" where
  "plic_ctx_self E P m = (let (h, m) = plat_this_hart_s E P m in (push_bit 1 h OR 1, m))"

definition plic_enable_bit_m :: "env \<Rightarrow> plat \<Rightarrow> u32 \<Rightarrow> bool \<Rightarrow> mach \<Rightarrow> mach" where
  "plic_enable_bit_m E P source enable m =
     (if source = 0 \<or> source \<ge> RVVM_PLIC_SRC_LIMIT then m
      else
        (let reg = plic_enable_reg P PLIC_CTX_M_HART0 (drop_bit 5 source);
             (cur, m) = mmio_r32 E reg m;
             bit = push_bit (unat (source AND 0x1F)) 1
         in mmio_w32 reg (if enable then cur OR bit else cur AND NOT bit) m))"

definition plic_enable_bit_s :: "env \<Rightarrow> plat \<Rightarrow> u32 \<Rightarrow> bool \<Rightarrow> mach \<Rightarrow> mach" where
  "plic_enable_bit_s E P source enable m =
     (if source = 0 \<or> source \<ge> RVVM_PLIC_SRC_LIMIT then m
      else
        (let (ctx, m) = plic_ctx_self E P m;
             reg = plic_enable_reg P ctx (drop_bit 5 source);
             (cur, m) = mmio_r32 E reg m;
             bit = push_bit (unat (source AND 0x1F)) 1
         in mmio_w32 reg (if enable then cur OR bit else cur AND NOT bit) m))"

fun w32_zeros :: "u64 list \<Rightarrow> mach \<Rightarrow> mach" where
  "w32_zeros [] m = m"
| "w32_zeros (a # as) m = w32_zeros as (mmio_w32 a 0 m)"

definition plat_intc_init_m :: "env \<Rightarrow> plat \<Rightarrow> mach \<Rightarrow> mach" where
  "plat_intc_init_m E P m =
     (let m = w32_zeros (map (\<lambda>w. plic_enable_reg P PLIC_CTX_M_HART0 (of_nat w))
                          [0..<unat ((RVVM_PLIC_SRC_LIMIT + 31) div 32)]) m;
          m = w32_zeros (map (\<lambda>i. plic_prio_reg P (of_nat i)) [1..<unat RVVM_PLIC_SRC_LIMIT]) m
      in mmio_w32 (plic_ctx_reg P PLIC_CTX_M_HART0 RVVM_PLIC_CTX_THRESHOLD) 0 m)"

definition plat_intc_init_s :: "env \<Rightarrow> plat \<Rightarrow> mach \<Rightarrow> mach" where
  "plat_intc_init_s E P m =
     (let (ctx, m) = plic_ctx_self E P m;
          m = w32_zeros (map (\<lambda>w. plic_enable_reg P ctx (of_nat w))
                          [0..<unat ((RVVM_PLIC_SRC_LIMIT + 31) div 32)]) m;
          m = w32_zeros (map (\<lambda>i. plic_prio_reg P (of_nat i)) [1..<unat RVVM_PLIC_SRC_LIMIT]) m
      in mmio_w32 (plic_ctx_reg P ctx RVVM_PLIC_CTX_THRESHOLD) 0 m)"

definition plat_intc_enable_source_m :: "env \<Rightarrow> plat \<Rightarrow> u32 \<Rightarrow> mach \<Rightarrow> mach" where
  "plat_intc_enable_source_m E P source m =
     (if source = 0 \<or> source \<ge> RVVM_PLIC_SRC_LIMIT then m
      else
        (let (prio, m) = mmio_r32 E (plic_prio_reg P source) m;
             m = (if prio = 0 then mmio_w32 (plic_prio_reg P source) 1 m else m)
         in plic_enable_bit_m E P source True m))"

definition plat_intc_enable_source_s :: "env \<Rightarrow> plat \<Rightarrow> u32 \<Rightarrow> mach \<Rightarrow> mach" where
  "plat_intc_enable_source_s E P source m =
     (if source = 0 \<or> source \<ge> RVVM_PLIC_SRC_LIMIT then m
      else
        (let (prio, m) = mmio_r32 E (plic_prio_reg P source) m;
             m = (if prio = 0 then mmio_w32 (plic_prio_reg P source) 1 m else m)
         in plic_enable_bit_s E P source True m))"

definition plat_intc_disable_source_m :: "env \<Rightarrow> plat \<Rightarrow> u32 \<Rightarrow> mach \<Rightarrow> mach" where
  "plat_intc_disable_source_m E P source m = plic_enable_bit_m E P source False m"

definition plat_intc_disable_source_s :: "env \<Rightarrow> plat \<Rightarrow> u32 \<Rightarrow> mach \<Rightarrow> mach" where
  "plat_intc_disable_source_s E P source m = plic_enable_bit_s E P source False m"

definition plat_intc_set_priority_m :: "env \<Rightarrow> plat \<Rightarrow> u32 \<Rightarrow> u32 \<Rightarrow> mach \<Rightarrow> mach" where
  "plat_intc_set_priority_m E P source prio m =
     (if source = 0 \<or> source \<ge> RVVM_PLIC_SRC_LIMIT then m
      else mmio_w32 (plic_prio_reg P source) (prio AND 0x7) m)"

definition plat_intc_set_priority_s :: "env \<Rightarrow> plat \<Rightarrow> u32 \<Rightarrow> u32 \<Rightarrow> mach \<Rightarrow> mach" where
  "plat_intc_set_priority_s E P source prio m =
     (if source = 0 \<or> source \<ge> RVVM_PLIC_SRC_LIMIT then m
      else mmio_w32 (plic_prio_reg P source) (prio AND 0x7) m)"

definition plat_intc_set_threshold_m :: "env \<Rightarrow> plat \<Rightarrow> u32 \<Rightarrow> mach \<Rightarrow> mach" where
  "plat_intc_set_threshold_m E P threshold m =
     mmio_w32 (plic_ctx_reg P PLIC_CTX_M_HART0 RVVM_PLIC_CTX_THRESHOLD) (threshold AND 0x7) m"

definition plat_intc_set_threshold_s :: "env \<Rightarrow> plat \<Rightarrow> u32 \<Rightarrow> mach \<Rightarrow> mach" where
  "plat_intc_set_threshold_s E P threshold m =
     (let (ctx, m) = plic_ctx_self E P m
      in mmio_w32 (plic_ctx_reg P ctx RVVM_PLIC_CTX_THRESHOLD) (threshold AND 0x7) m)"

definition plat_intc_claim_m :: "env \<Rightarrow> plat \<Rightarrow> mach \<Rightarrow> u32 \<times> mach" where
  "plat_intc_claim_m E P m = mmio_r32 E (plic_ctx_reg P PLIC_CTX_M_HART0 RVVM_PLIC_CTX_CLAIM) m"

definition plat_intc_claim_s :: "env \<Rightarrow> plat \<Rightarrow> mach \<Rightarrow> u32 \<times> mach" where
  "plat_intc_claim_s E P m =
     (let (ctx, m) = plic_ctx_self E P m in mmio_r32 E (plic_ctx_reg P ctx RVVM_PLIC_CTX_CLAIM) m)"

definition plat_intc_complete_m :: "env \<Rightarrow> plat \<Rightarrow> u32 \<Rightarrow> mach \<Rightarrow> mach" where
  "plat_intc_complete_m E P source m =
     mmio_w32 (plic_ctx_reg P PLIC_CTX_M_HART0 RVVM_PLIC_CTX_CLAIM) source m"

definition plat_intc_complete_s :: "env \<Rightarrow> plat \<Rightarrow> u32 \<Rightarrow> mach \<Rightarrow> mach" where
  "plat_intc_complete_s E P source m =
     (let (ctx, m) = plic_ctx_self E P m
      in mmio_w32 (plic_ctx_reg P ctx RVVM_PLIC_CTX_CLAIM) source m)"

definition plat_intc_source_limit :: u32 where
  "plat_intc_source_limit = RVVM_PLIC_SRC_LIMIT"

section \<open>Feature probe\<close>

fun entry_matches :: "mem \<Rightarrow> u64 \<Rightarrow> u8 list \<Rightarrow> bool" where
  "entry_matches M a [] = (M a = 0)"
| "entry_matches M a (n # ns) =
     (if M a \<noteq> 0 \<and> n \<noteq> 0 \<and> M a = n then entry_matches M (a + 1) ns else M a = 0 \<and> n = 0)"

partial_function (option) stringlist_entry_len ::
  "mem \<Rightarrow> u64 \<Rightarrow> u32 \<Rightarrow> u32 \<Rightarrow> u32 \<Rightarrow> u32 option" where
  "stringlist_entry_len M list list_len pos entry_len =
     (if pos + entry_len < list_len \<and> M (list + ucast pos + ucast entry_len) \<noteq> 0
      then stringlist_entry_len M list list_len pos (entry_len + 1) else Some entry_len)"

partial_function (option) stringlist_contains_loop ::
  "mem \<Rightarrow> u64 \<Rightarrow> u32 \<Rightarrow> u8 list \<Rightarrow> u32 \<Rightarrow> bool option" where
  "stringlist_contains_loop M list list_len needle pos =
     (if pos < list_len
      then do {
        entry_len \<leftarrow> stringlist_entry_len M list list_len pos 0;
        if entry_matches M (list + ucast pos) needle then Some True
        else stringlist_contains_loop M list list_len needle (pos + (entry_len + 1)) }
      else Some False)"

definition stringlist_contains :: "mem \<Rightarrow> u64 \<Rightarrow> u32 \<Rightarrow> u8 list \<Rightarrow> bool option" where
  "stringlist_contains M list list_len needle = stringlist_contains_loop M list list_len needle 0"

text \<open>A \<open>NULL\<close> device tree is \<open>None\<close>; the build option \<open>HAL_NO_SSTC\<close> is not set.\<close>

definition plat_probe_features_s :: "mem \<Rightarrow> fdt option \<Rightarrow> plat \<Rightarrow> plat option" where
  "plat_probe_features_s M fdt P =
     (case fdt of None \<Rightarrow> Some P
      | Some fdt \<Rightarrow> do {
          cpu_off \<leftarrow> fdt_find_node_named M fdt (bytes_of ''cpu'');
          if cpu_off = UINT32_MAX then Some P
          else do {
            exts \<leftarrow> fdt_node_prop M fdt cpu_off (bytes_of ''riscv,isa-extensions'');
            case exts of
              None \<Rightarrow> Some (P\<lparr>use_sstc := False\<rparr>)
            | Some (p, len) \<Rightarrow>
                if len = 0 then Some (P\<lparr>use_sstc := False\<rparr>)
                else do { s \<leftarrow> stringlist_contains M p len (bytes_of ''sstc'');
                          Some (P\<lparr>use_sstc := s\<rparr>) } } })"

definition plat_probe_features_m :: "mem \<Rightarrow> fdt option \<Rightarrow> plat \<Rightarrow> plat option" where
  "plat_probe_features_m M fdt P = Some P"

section \<open>The backend that is linked in\<close>

definition plat_init :: "priv \<Rightarrow> u64 \<Rightarrow> u64 \<Rightarrow> plat \<Rightarrow> plat" where
  "plat_init B = (case B of MMode \<Rightarrow> plat_init_m | SMode \<Rightarrow> plat_init_s)"

definition plat_this_hart :: "priv \<Rightarrow> env \<Rightarrow> plat \<Rightarrow> mach \<Rightarrow> u32 \<times> mach" where
  "plat_this_hart B = (case B of MMode \<Rightarrow> plat_this_hart_m | SMode \<Rightarrow> plat_this_hart_s)"

definition plat_ipi_send :: "priv \<Rightarrow> env \<Rightarrow> plat \<Rightarrow> u32 \<Rightarrow> mach \<Rightarrow> mach" where
  "plat_ipi_send B = (case B of MMode \<Rightarrow> plat_ipi_send_m | SMode \<Rightarrow> plat_ipi_send_s)"

definition plat_ipi_ack :: "priv \<Rightarrow> env \<Rightarrow> plat \<Rightarrow> u32 \<Rightarrow> mach \<Rightarrow> mach" where
  "plat_ipi_ack B = (case B of MMode \<Rightarrow> plat_ipi_ack_m | SMode \<Rightarrow> plat_ipi_ack_s)"

definition plat_timer_set_deadline :: "priv \<Rightarrow> env \<Rightarrow> plat \<Rightarrow> u64 \<Rightarrow> mach \<Rightarrow> mach" where
  "plat_timer_set_deadline B =
     (case B of MMode \<Rightarrow> plat_timer_set_deadline_m | SMode \<Rightarrow> plat_timer_set_deadline_s)"

definition plat_timer_irq_enable :: "priv \<Rightarrow> mach \<Rightarrow> mach" where
  "plat_timer_irq_enable B =
     (case B of MMode \<Rightarrow> plat_timer_irq_enable_m | SMode \<Rightarrow> plat_timer_irq_enable_s)"

definition plat_timer_irq_disable :: "priv \<Rightarrow> mach \<Rightarrow> mach" where
  "plat_timer_irq_disable B =
     (case B of MMode \<Rightarrow> plat_timer_irq_disable_m | SMode \<Rightarrow> plat_timer_irq_disable_s)"

definition plat_hart_bringup_park :: "priv \<Rightarrow> env \<Rightarrow> u64 \<Rightarrow> u32 \<Rightarrow> mach \<Rightarrow> mach" where
  "plat_hart_bringup_park B =
     (case B of MMode \<Rightarrow> plat_hart_bringup_park_m | SMode \<Rightarrow> plat_hart_bringup_park_s)"

definition plat_intc_init :: "priv \<Rightarrow> env \<Rightarrow> plat \<Rightarrow> mach \<Rightarrow> mach" where
  "plat_intc_init B = (case B of MMode \<Rightarrow> plat_intc_init_m | SMode \<Rightarrow> plat_intc_init_s)"

definition plat_intc_enable_source :: "priv \<Rightarrow> env \<Rightarrow> plat \<Rightarrow> u32 \<Rightarrow> mach \<Rightarrow> mach" where
  "plat_intc_enable_source B =
     (case B of MMode \<Rightarrow> plat_intc_enable_source_m | SMode \<Rightarrow> plat_intc_enable_source_s)"

definition plat_intc_disable_source :: "priv \<Rightarrow> env \<Rightarrow> plat \<Rightarrow> u32 \<Rightarrow> mach \<Rightarrow> mach" where
  "plat_intc_disable_source B =
     (case B of MMode \<Rightarrow> plat_intc_disable_source_m | SMode \<Rightarrow> plat_intc_disable_source_s)"

definition plat_intc_set_priority :: "priv \<Rightarrow> env \<Rightarrow> plat \<Rightarrow> u32 \<Rightarrow> u32 \<Rightarrow> mach \<Rightarrow> mach" where
  "plat_intc_set_priority B =
     (case B of MMode \<Rightarrow> plat_intc_set_priority_m | SMode \<Rightarrow> plat_intc_set_priority_s)"

definition plat_intc_set_threshold :: "priv \<Rightarrow> env \<Rightarrow> plat \<Rightarrow> u32 \<Rightarrow> mach \<Rightarrow> mach" where
  "plat_intc_set_threshold B =
     (case B of MMode \<Rightarrow> plat_intc_set_threshold_m | SMode \<Rightarrow> plat_intc_set_threshold_s)"

definition plat_intc_claim :: "priv \<Rightarrow> env \<Rightarrow> plat \<Rightarrow> mach \<Rightarrow> u32 \<times> mach" where
  "plat_intc_claim B = (case B of MMode \<Rightarrow> plat_intc_claim_m | SMode \<Rightarrow> plat_intc_claim_s)"

definition plat_intc_complete :: "priv \<Rightarrow> env \<Rightarrow> plat \<Rightarrow> u32 \<Rightarrow> mach \<Rightarrow> mach" where
  "plat_intc_complete B =
     (case B of MMode \<Rightarrow> plat_intc_complete_m | SMode \<Rightarrow> plat_intc_complete_s)"

lemmas plat_select = plat_init_def plat_this_hart_def plat_ipi_send_def plat_ipi_ack_def
  plat_timer_set_deadline_def plat_timer_irq_enable_def plat_timer_irq_disable_def
  plat_hart_bringup_park_def plat_intc_init_def plat_intc_enable_source_def
  plat_intc_disable_source_def plat_intc_set_priority_def plat_intc_set_threshold_def
  plat_intc_claim_def plat_intc_complete_def

section \<open>The interrupt controller contract\<close>

text \<open>The context a backend drives, as its claim register.\<close>

definition claim_reg :: "priv \<Rightarrow> plat \<Rightarrow> u64" where
  "claim_reg B P = plic_ctx_reg P
     (case B of MMode \<Rightarrow> 0 | SMode \<Rightarrow> push_bit 1 (ucast (tp P)) OR 1) RVVM_PLIC_CTX_CLAIM"

lemma plic_ctx_self_simp: "plic_ctx_self E P m = (push_bit 1 (ucast (tp P)) OR 1, m)"
  by (simp add: plic_ctx_self_def plat_this_hart_s_def)

lemma plat_intc_claim_simp:
  "plat_intc_claim B E P m =
     (ucast (E (trace m) (Rd32 (claim_reg B P))), emit (Rd32 (claim_reg B P)) m)"
  by (cases B) (simp_all add: plat_intc_claim_def plat_intc_claim_m_def plat_intc_claim_s_def
      claim_reg_def plic_ctx_self_simp PLIC_CTX_M_HART0_def)

lemma plat_intc_complete_simp:
  "plat_intc_complete B E P s m = emit (Wr32 (claim_reg B P) s) m"
  by (cases B) (simp_all add: plat_intc_complete_def plat_intc_complete_m_def
      plat_intc_complete_s_def claim_reg_def plic_ctx_self_simp PLIC_CTX_M_HART0_def)

end
