(* ===== verification/Timer.thy ===== *)
theory Timer
  imports Plat
begin

text \<open>
  Monotonic time and idle waiting (\<open>src/time.c\<close>, \<open>include/time.h\<close>) and the wallclock
  (\<open>src/rtc.c\<close>, \<open>include/rtc.h\<close>).  \<open>wfi\<close> is an access of its own: it may return for
  any reason, so nothing is assumed of it.
\<close>

section \<open>Time\<close>

definition RVVM_TIME_HZ :: u64 where "RVVM_TIME_HZ = 10000000"

definition time_now :: "env \<Rightarrow> mach \<Rightarrow> u64 \<times> mach" where
  "time_now E m = ask E Rdtime m"

definition time_init :: "priv \<Rightarrow> u64 \<Rightarrow> u64 \<Rightarrow> plat \<Rightarrow> u64 \<Rightarrow> plat \<times> u64" where
  "time_init B clint hz P time_hz_v =
     (if clint \<noteq> 0 then plat_init B 0 clint P else P, if hz \<noteq> 0 then hz else time_hz_v)"

definition time_hz :: "u64 \<Rightarrow> u64" where
  "time_hz time_hz_v = time_hz_v"

definition time_ticks_per_frame :: "u64 \<Rightarrow> u64" where
  "time_ticks_per_frame time_hz_v = time_hz_v div 60"

partial_function (option) time_wait_loop ::
  "priv \<Rightarrow> env \<Rightarrow> plat \<Rightarrow> u64 \<Rightarrow> mach \<Rightarrow> mach option" where
  "time_wait_loop B E pl deadline m =
     (let (t, m) = time_now E m in
      if t < deadline
      then time_wait_loop B E pl deadline (emit Wfi (plat_timer_set_deadline B E pl deadline m))
      else Some m)"

definition time_busy_until :: "priv \<Rightarrow> env \<Rightarrow> plat \<Rightarrow> u64 \<Rightarrow> mach \<Rightarrow> mach option" where
  "time_busy_until B E P deadline m =
     (let old_status = xstatus m;
          m = m\<lparr>xstatus := xstatus m AND NOT (STATUS_IE_BIT B)\<rparr>;
          m = plat_timer_irq_enable B m
      in do {
        m \<leftarrow> time_wait_loop B E P deadline m;
        let m = plat_timer_set_deadline B E P (- 1) m;
        let m = plat_timer_irq_disable B m;
        Some (if old_status AND STATUS_IE_BIT B \<noteq> 0
              then m\<lparr>xstatus := xstatus m OR STATUS_IE_BIT B\<rparr> else m) })"

section \<open>Wallclock\<close>

definition RTC_DEFAULT_BASE :: u64 where "RTC_DEFAULT_BASE = 0x101000"

definition rtc_init :: "u64 \<Rightarrow> u64 \<Rightarrow> u64" where
  "rtc_init base rtc_base = (if base \<noteq> 0 then base else rtc_base)"

definition rtc_now_ns :: "env \<Rightarrow> u64 \<Rightarrow> mach \<Rightarrow> u64 \<times> mach" where
  "rtc_now_ns E rtc_base m =
     (let (lo, m) = mmio_r32 E (rtc_base + 0) m;
          (hi, m) = mmio_r32 E (rtc_base + 4) m
      in (push_bit 32 (ucast hi) OR ucast lo, m))"

definition rtc_now_seconds :: "env \<Rightarrow> u64 \<Rightarrow> mach \<Rightarrow> u64 \<times> mach" where
  "rtc_now_seconds E rtc_base m =
     (let (ns, m) = rtc_now_ns E rtc_base m in (ns div 1000000000, m))"

section \<open>The wait loop\<close>

text \<open>The accesses by which a backend arms a deadline.\<close>

definition deadline_accesses :: "priv \<Rightarrow> env \<Rightarrow> plat \<Rightarrow> history \<Rightarrow> u64 \<Rightarrow> history" where
  "deadline_accesses B E P h d = (case B of
     MMode \<Rightarrow> [CsrRd CSR_HARTID,
       Wr64 (clint_base P + 0x4000 + ucast ((ucast (E h (CsrRd CSR_HARTID)) :: u32) * 8)) d]
   | SMode \<Rightarrow> if use_sstc P then [CsrWr CSR_STIMECMP d] else [Ecall SBI_EID_TIME 0 [d, 0]])"

lemma set_deadline_simp:
  "plat_timer_set_deadline B E P d m = emits (deadline_accesses B E P (trace m) d) m"
  by (cases B) (simp_all add: plat_timer_set_deadline_def plat_timer_set_deadline_m_def
      plat_timer_set_deadline_s_def plat_this_hart_m_def mtimecmp_for_def sbi_call2_def
      deadline_accesses_def emit_emits)

text \<open>One round of polling, arming and waiting; the history after \<open>k\<close> rounds; and what
  the clock answers then.\<close>

definition wait_round :: "priv \<Rightarrow> env \<Rightarrow> plat \<Rightarrow> u64 \<Rightarrow> history \<Rightarrow> history" where
  "wait_round B E P d h = Rdtime # deadline_accesses B E P (h @ [Rdtime]) d @ [Wfi]"

fun wait_rounds :: "priv \<Rightarrow> env \<Rightarrow> plat \<Rightarrow> u64 \<Rightarrow> history \<Rightarrow> nat \<Rightarrow> history" where
  "wait_rounds B E P d h 0 = []"
| "wait_rounds B E P d h (Suc k) =
     wait_round B E P d h @ wait_rounds B E P d (h @ wait_round B E P d h) k"

definition clock_at :: "priv \<Rightarrow> env \<Rightarrow> plat \<Rightarrow> u64 \<Rightarrow> history \<Rightarrow> nat \<Rightarrow> u64" where
  "clock_at B E P d h k = E (h @ wait_rounds B E P d h k) Rdtime"

lemma time_wait_loop_step:
  "time_wait_loop B E P d m =
     (if d \<le> clock_at B E P d (trace m) 0 then Some (emits [Rdtime] m)
      else time_wait_loop B E P d (emits (wait_round B E P d (trace m)) m))"
  by (subst time_wait_loop.simps)
     (auto simp: time_now_def clock_at_def set_deadline_simp wait_round_def emit_emits Let_def)

lemma clock_at_shift:
  "clock_at B E P d (h @ wait_round B E P d h) k = clock_at B E P d h (Suc k)"
  by (simp add: clock_at_def)

lemma time_wait_loop_reaches:
  assumes "d \<le> clock_at B E P d (trace m) k" "\<And>j. j < k \<Longrightarrow> clock_at B E P d (trace m) j < d"
  shows "time_wait_loop B E P d m = Some (emits (wait_rounds B E P d (trace m) k @ [Rdtime]) m)"
  using assms
proof (induction k arbitrary: m)
  case 0
  then show ?case by (subst time_wait_loop_step) simp
next
  case (Suc k)
  let ?m = "emits (wait_round B E P d (trace m)) m"
  have "time_wait_loop B E P d ?m = Some (emits (wait_rounds B E P d (trace ?m) k @ [Rdtime]) ?m)"
  proof (rule Suc.IH)
    show "d \<le> clock_at B E P d (trace ?m) k" using Suc.prems(1) by (simp add: clock_at_shift)
    fix j assume "j < k"
    then show "clock_at B E P d (trace ?m) j < d"
      using Suc.prems(2) [of "Suc j"] by (simp add: clock_at_shift)
  qed
  moreover have "\<not> d \<le> clock_at B E P d (trace m) 0" using Suc.prems(2) by (simp add: not_le)
  ultimately show ?case by (subst time_wait_loop_step) simp
qed

lemma time_wait_loop_returns:
  assumes "time_wait_loop B E pl d m = Some m'"
  shows "\<exists>k. d \<le> clock_at B E pl d (trace m) k"
proof (rule time_wait_loop.raw_induct
    [where P = "\<lambda>B E pl d m m'. \<exists>k. d \<le> clock_at B E pl d (trace m) k", OF _ assms])
  fix f :: "priv \<Rightarrow> env \<Rightarrow> plat \<Rightarrow> u64 \<Rightarrow> mach \<Rightarrow> mach option" and B E pl d m m'
  assume IH: "\<And>B E pl d m m'. f B E pl d m = Some m' \<Longrightarrow> \<exists>k. d \<le> clock_at B E pl d (trace m) k"
    and eq: "(let (t, m) = time_now E m in
      if t < d then f B E pl d (emit Wfi (plat_timer_set_deadline B E pl d m)) else Some m) = Some m'"
  show "\<exists>k. d \<le> clock_at B E pl d (trace m) k"
  proof (cases "d \<le> clock_at B E pl d (trace m) 0")
    case False
    with eq have "f B E pl d (emits (wait_round B E pl d (trace m)) m) = Some m'"
      by (simp add: time_now_def clock_at_def set_deadline_simp wait_round_def emit_emits Let_def
          not_le)
    from IH [OF this] show ?thesis by (auto simp: clock_at_shift)
  qed blast
qed

lemma time_wait_loop_iff:
  "time_wait_loop B E P d m = Some m' \<longleftrightarrow>
    (\<exists>k. d \<le> clock_at B E P d (trace m) k \<and> (\<forall>j<k. clock_at B E P d (trace m) j < d) \<and>
      m' = emits (wait_rounds B E P d (trace m) k @ [Rdtime]) m)"
proof
  assume l: "time_wait_loop B E P d m = Some m'"
  obtain k where k: "d \<le> clock_at B E P d (trace m) k" "\<forall>j<k. \<not> d \<le> clock_at B E P d (trace m) j"
    using time_wait_loop_returns [OF l]
      exists_least_iff [of "\<lambda>k. d \<le> clock_at B E P d (trace m) k"] by blast
  then have "\<forall>j<k. clock_at B E P d (trace m) j < d" by (simp add: not_le)
  then show "\<exists>k. d \<le> clock_at B E P d (trace m) k \<and> (\<forall>j<k. clock_at B E P d (trace m) j < d) \<and>
      m' = emits (wait_rounds B E P d (trace m) k @ [Rdtime]) m"
    using k(1) time_wait_loop_reaches [OF k(1)] l by auto
qed (use time_wait_loop_reaches in blast)

text \<open>Clearing a one-bit mask and setting it again when it was set restores the word.\<close>

lemma restore_bit:
  fixes x :: u64
  shows "(if x AND (2 ^ n) \<noteq> 0 then (x AND NOT ((2 ^ n))) OR (2 ^ n)
          else x AND NOT ((2 ^ n))) = x"
proof (cases "x AND (2 ^ n) = 0")
  case True
  have "\<not> (bit x k \<and> bit (2 ^ n :: u64) k)" for k
    using arg_cong [OF True, of "\<lambda>w. bit w k"] by (simp add: bit_and_iff)
  then have "x AND NOT ((2 ^ n)) = x"
    by (intro bit_word_eqI) (auto simp: bit_and_iff bit_not_iff)
  with True show ?thesis by simp
next
  case False
  have p: "bit (2 ^ n :: u64) k \<longleftrightarrow> k = n \<and> n < 64" for k
    by (auto simp: bit_exp_iff possible_bit_def)
  have "bit x n \<and> n < 64"
  proof (rule ccontr)
    assume n: "\<not> (bit x n \<and> n < 64)"
    have "x AND (2 ^ n) = 0"
      by (rule bit_word_eqI) (use n p in \<open>auto simp: bit_and_iff\<close>)
    with False show False ..
  qed
  then have "(x AND NOT ((2 ^ n))) OR (2 ^ n) = x"
    by (intro bit_word_eqI) (auto simp: bit_and_iff bit_or_iff bit_not_iff p)
  with False show ?thesis by simp
qed

lemma or_clear: "((x :: u64) OR y) AND NOT y = x AND NOT y"
  by (rule bit_word_eqI) (auto simp: bit_and_iff bit_or_iff bit_not_iff)

text \<open>What \<open>plat.h\<close> promises of a backend's timer: its enable bit is set and cleared alone, and
  arming a deadline only makes the backend's accesses.  A client that enables the interrupt, does
  something, arms a last deadline and disables it has changed nothing but that bit.\<close>

locale plat_timer =
  fixes enable :: "mach \<Rightarrow> mach"
    and disable :: "mach \<Rightarrow> mach"
    and arm :: "u64 \<Rightarrow> mach \<Rightarrow> mach"
    and accesses :: "history \<Rightarrow> u64 \<Rightarrow> history"
    and tbit :: u64
  assumes enable_bit: "enable m = m\<lparr>xie := xie m OR tbit\<rparr>"
    and disable_bit: "disable m = m\<lparr>xie := xie m AND NOT tbit\<rparr>"
    and arm_accesses: "arm d m = emits (accesses (trace m) d) m"
begin

lemma enable_trace: "trace (enable m) = trace m"
  by (simp add: enable_bit)

lemma session:
  "disable (arm d (emits w (enable m))) = (emits (w @ accesses (trace m @ w) d) m)\<lparr>xie := xie m AND NOT tbit\<rparr>"
  by (simp add: enable_bit disable_bit arm_accesses or_clear emits_def)

end

interpretation ptimer: plat_timer "plat_timer_irq_enable B" "plat_timer_irq_disable B" "plat_timer_set_deadline B E P"
    "deadline_accesses B E P" "IE_TIMER_BIT B" for B E P
  by unfold_locales (cases B, simp_all add: set_deadline_simp plat_timer_irq_enable_def plat_timer_irq_enable_m_def
      plat_timer_irq_enable_s_def plat_timer_irq_disable_def plat_timer_irq_disable_m_def plat_timer_irq_disable_s_def)+

lemma STATUS_IE_BIT_power: "STATUS_IE_BIT B = 2 ^ (case B of MMode \<Rightarrow> 3 | SMode \<Rightarrow> 1)"
  by (cases B) (simp_all add: STATUS_IE_BIT_def)

lemma wait_restores:
  "(let m1 = plat_timer_irq_disable B (plat_timer_set_deadline B E P d
       (emits w (plat_timer_irq_enable B (m\<lparr>xstatus := xstatus m AND NOT (STATUS_IE_BIT B)\<rparr>)))) in
    if xstatus m AND STATUS_IE_BIT B \<noteq> 0 then m1\<lparr>xstatus := xstatus m1 OR STATUS_IE_BIT B\<rparr> else m1) =
   (emits (w @ deadline_accesses B E P (trace m @ w) d) m)\<lparr>xie := xie m AND NOT (IE_TIMER_BIT B)\<rparr>"
proof -
  note r = restore_bit [of "xstatus m" "case B of MMode \<Rightarrow> 3 | SMode \<Rightarrow> 1",
      folded STATUS_IE_BIT_power]
  show ?thesis using r
    unfolding ptimer.session Let_def
    by (cases "xstatus m AND STATUS_IE_BIT B = 0") (simp_all add: emits_def)
qed

section \<open>Properties\<close>

text \<open>C18: the idle wait returns exactly when some reading of the clock reaches the deadline,
  and then after the first such reading.  Every round before it read a time below the
  deadline, armed the timer with the deadline and waited; afterwards the timer is disarmed and
  its enable bit is off, and the global interrupt enable is what it was before the call.\<close>

theorem time_busy_until_iff:
  "time_busy_until B E P d m = Some m' \<longleftrightarrow>
    (\<exists>k w. d \<le> clock_at B E P d (trace m) k \<and> (\<forall>j<k. clock_at B E P d (trace m) j < d) \<and>
      w = wait_rounds B E P d (trace m) k @ [Rdtime] \<and>
      m' = (emits (w @ deadline_accesses B E P (trace m @ w) (- 1)) m)
             \<lparr>xie := xie m AND NOT (IE_TIMER_BIT B)\<rparr>)"
proof -
  define m0 where "m0 = plat_timer_irq_enable B (m\<lparr>xstatus := xstatus m AND NOT (STATUS_IE_BIT B)\<rparr>)"
  define fin where "fin m1 = (let m1 = plat_timer_irq_disable B (plat_timer_set_deadline B E P (- 1) m1) in
      if xstatus m AND STATUS_IE_BIT B \<noteq> 0 then m1\<lparr>xstatus := xstatus m1 OR STATUS_IE_BIT B\<rparr> else m1)"
    for m1
  have fin: "fin (emits w m0) = (emits (w @ deadline_accesses B E P (trace m @ w) (- 1)) m)
      \<lparr>xie := xie m AND NOT (IE_TIMER_BIT B)\<rparr>" for w
    unfolding fin_def m0_def by (rule wait_restores)
  have tr: "trace m0 = trace m" by (simp add: m0_def ptimer.enable_trace)
  have "time_busy_until B E P d m = map_option fin (time_wait_loop B E P d m0)"
    by (simp add: time_busy_until_def m0_def [symmetric] fin_def Let_def map_conv_bind_option comp_def)
  then have "time_busy_until B E P d m = Some m' \<longleftrightarrow>
      (\<exists>m1. time_wait_loop B E P d m0 = Some m1 \<and> m' = fin m1)" by auto
  then have "time_busy_until B E P d m = Some m' \<longleftrightarrow>
      (\<exists>k. d \<le> clock_at B E P d (trace m) k \<and> (\<forall>j<k. clock_at B E P d (trace m) j < d) \<and>
         m' = fin (emits (wait_rounds B E P d (trace m) k @ [Rdtime]) m0))"
    unfolding time_wait_loop_iff tr by blast
  then show ?thesis unfolding fin by blast
qed

lemma time_busy_until_iff_witness:
  "\<exists>m'. time_busy_until MMode (\<lambda>h a. of_nat (length h)) plat_reset 3 (mach0\<lparr>xstatus := 8\<rparr>) = Some m' \<and>
    trace m' = [Rdtime, CsrRd CSR_HARTID, Wr64 0x2004008 3, Wfi, Rdtime, CsrRd CSR_HARTID,
      Wr64 0x2004028 (- 1)] \<and> xstatus m' = 8"
proof -
  let ?E = "\<lambda>(h :: history) (a :: access). of_nat (length h) :: u64"
  let ?w = "wait_rounds MMode ?E plat_reset 3 (trace (mach0\<lparr>xstatus := 8\<rparr>)) (Suc 0) @ [Rdtime]"
  have c: "clock_at MMode ?E plat_reset 3 (trace (mach0\<lparr>xstatus := 8\<rparr>)) 0 = 0"
    "clock_at MMode ?E plat_reset 3 (trace (mach0\<lparr>xstatus := 8\<rparr>)) (Suc 0) = 4"
    by (simp_all add: clock_at_def wait_round_def deadline_accesses_def)
  have w: "?w = [Rdtime, CsrRd CSR_HARTID, Wr64 0x2004008 3, Wfi, Rdtime]"
    by (simp add: wait_round_def deadline_accesses_def plat_reset_def)
  have "time_busy_until MMode ?E plat_reset 3 (mach0\<lparr>xstatus := 8\<rparr>) =
    Some ((emits (?w @ deadline_accesses MMode ?E plat_reset
                (trace (mach0\<lparr>xstatus := 8\<rparr>) @ ?w) (- 1)) (mach0\<lparr>xstatus := 8\<rparr>))
             \<lparr>xie := xie (mach0\<lparr>xstatus := 8\<rparr>) AND NOT (IE_TIMER_BIT MMode)\<rparr>)"
    unfolding time_busy_until_iff
    by (intro exI [of _ "Suc 0"] exI [of _ ?w] conjI refl allI impI)
       (simp only: c, simp, simp only: less_Suc0 c, simp)
  then show ?thesis unfolding w by (simp add: deadline_accesses_def plat_reset_def)
qed

end
