(* ===== verification/Irq.thy ===== *)
theory Irq
  imports Plat Uart
begin

text \<open>
  The interrupt subsystem, \<open>src/irq.c\<close>: dispatch table, claim and complete loop, trap
  dispatcher.  A handler is a function pointer into the firmware that uses the library; its
  effect is the argument \<open>call\<close>, and every call through a pointer is an entry of the trace.
  The state is the table with the counters, and the hart.
\<close>

section \<open>State and registration\<close>

record irq_slot =
  slot_fn :: u64
  slot_ctx :: u64
  slot_count :: u32

record irq =
  handlers :: "irq_slot list"
  total_irqs :: u32
  timer_fn :: u64
  timer_ctx :: u64
  ipi_fn :: u64
  ipi_ctx :: u64

definition IRQ_HANDLERS_MAX :: u32 where "IRQ_HANDLERS_MAX = RVVM_PLIC_SRC_LIMIT"

definition slot0 :: irq_slot where
  "slot0 = \<lparr>slot_fn = 0, slot_ctx = 0, slot_count = 0\<rparr>"

definition irq_reset :: irq where
  "irq_reset = \<lparr>handlers = replicate 64 slot0, total_irqs = 0, timer_fn = 0, timer_ctx = 0,
     ipi_fn = 0, ipi_ctx = 0\<rparr>"

type_synonym handler_sem = "u64 \<Rightarrow> u64 list \<Rightarrow> irq \<times> mach \<Rightarrow> (irq \<times> mach) option"

definition csr_set_ie :: "u64 \<Rightarrow> mach \<Rightarrow> mach" where
  "csr_set_ie msk m = m\<lparr>xie := xie m OR msk\<rparr>"

definition csr_clear_ie :: "u64 \<Rightarrow> mach \<Rightarrow> mach" where
  "csr_clear_ie msk m = m\<lparr>xie := xie m AND NOT msk\<rparr>"

text \<open>The loop over the table resets every slot in place.\<close>

definition irq_init ::
  "priv \<Rightarrow> env \<Rightarrow> u64 \<Rightarrow> u64 \<Rightarrow> plat \<Rightarrow> irq \<Rightarrow> mach \<Rightarrow> plat \<times> irq \<times> mach" where
  "irq_init B E trap_entry base P I m =
     (let P = (if base \<noteq> 0 then plat_init B base 0 P else P);
          I = I\<lparr>handlers := map (\<lambda>_. slot0) (handlers I), total_irqs := 0\<rparr>;
          m = plat_intc_init B E P m;
          m = emit (CsrWr CSR_TVEC trap_entry) m;
          m = csr_set_ie (IE_EXT_BIT B) m
      in (P, I, m))"

definition irq_register :: "u32 \<Rightarrow> u64 \<Rightarrow> u64 \<Rightarrow> irq \<Rightarrow> irq" where
  "irq_register source handler ctx I =
     (if source = 0 \<or> source \<ge> IRQ_HANDLERS_MAX then I
      else I\<lparr>handlers := (handlers I)[unat source :=
             (handlers I ! unat source)\<lparr>slot_fn := handler, slot_ctx := ctx\<rparr>]\<rparr>)"

definition irq_register_timer :: "u64 \<Rightarrow> u64 \<Rightarrow> irq \<Rightarrow> irq" where
  "irq_register_timer handler ctx I = I\<lparr>timer_fn := handler, timer_ctx := ctx\<rparr>"

definition irq_register_ipi :: "u64 \<Rightarrow> u64 \<Rightarrow> irq \<Rightarrow> irq" where
  "irq_register_ipi handler ctx I = I\<lparr>ipi_fn := handler, ipi_ctx := ctx\<rparr>"

definition irq_ipi_enable :: "priv \<Rightarrow> mach \<Rightarrow> mach" where
  "irq_ipi_enable B m = csr_set_ie (IE_SOFT_BIT B) m"

definition irq_ipi_disable :: "priv \<Rightarrow> mach \<Rightarrow> mach" where
  "irq_ipi_disable B m = csr_clear_ie (IE_SOFT_BIT B) m"

definition irq_enable :: "priv \<Rightarrow> env \<Rightarrow> plat \<Rightarrow> u32 \<Rightarrow> mach \<Rightarrow> mach" where
  "irq_enable B E P source m = plat_intc_enable_source B E P source m"

definition irq_disable :: "priv \<Rightarrow> env \<Rightarrow> plat \<Rightarrow> u32 \<Rightarrow> mach \<Rightarrow> mach" where
  "irq_disable B E P source m = plat_intc_disable_source B E P source m"

definition irq_set_priority :: "priv \<Rightarrow> env \<Rightarrow> plat \<Rightarrow> u32 \<Rightarrow> u32 \<Rightarrow> mach \<Rightarrow> mach" where
  "irq_set_priority B E P source prio m = plat_intc_set_priority B E P source prio m"

definition irq_set_threshold :: "priv \<Rightarrow> env \<Rightarrow> plat \<Rightarrow> u32 \<Rightarrow> mach \<Rightarrow> mach" where
  "irq_set_threshold B E P threshold m = plat_intc_set_threshold B E P threshold m"

definition irq_global_enable :: "priv \<Rightarrow> mach \<Rightarrow> bool \<times> mach" where
  "irq_global_enable B m =
     (let prev = xstatus m; m = m\<lparr>xstatus := xstatus m OR STATUS_IE_BIT B\<rparr>
      in (prev AND STATUS_IE_BIT B \<noteq> 0, m))"

definition irq_global_disable :: "priv \<Rightarrow> mach \<Rightarrow> bool \<times> mach" where
  "irq_global_disable B m =
     (let prev = xstatus m; m = m\<lparr>xstatus := xstatus m AND NOT (STATUS_IE_BIT B)\<rparr>
      in (prev AND STATUS_IE_BIT B \<noteq> 0, m))"

definition irq_count_total :: "irq \<Rightarrow> u32" where
  "irq_count_total I = total_irqs I"

definition irq_count_for :: "u32 \<Rightarrow> irq \<Rightarrow> u32" where
  "irq_count_for source I =
     (if source \<ge> IRQ_HANDLERS_MAX then 0 else slot_count (handlers I ! unat source))"

section \<open>Dispatch\<close>

definition run_fn :: "handler_sem \<Rightarrow> u64 \<Rightarrow> u64 list \<Rightarrow> irq \<times> mach \<Rightarrow> (irq \<times> mach) option" where
  "run_fn call fn args = (\<lambda>(I, m). call fn args (I, emit (CallFn fn args) m))"

text \<open>One claimed source, up to and including its completion.\<close>

definition service_source ::
  "priv \<Rightarrow> env \<Rightarrow> plat \<Rightarrow> handler_sem \<Rightarrow> u32 \<Rightarrow> irq \<times> mach \<Rightarrow> (irq \<times> mach) option" where
  "service_source B E P call source = (\<lambda>(I, m). do {
     (I, m) \<leftarrow>
       (if source < IRQ_HANDLERS_MAX
        then (let s = handlers I ! unat source;
                  I = I\<lparr>handlers := (handlers I)[unat source := s\<lparr>slot_count := slot_count s + 1\<rparr>],
                         total_irqs := total_irqs I + 1\<rparr>
              in if slot_fn s \<noteq> 0 then run_fn call (slot_fn s) [ucast source, slot_ctx s] (I, m)
                 else Some (I, m))
        else Some (I, m));
     Some (I, plat_intc_complete B E P source m) })"

partial_function (option) handle_external ::
  "priv \<Rightarrow> env \<Rightarrow> plat \<Rightarrow> handler_sem \<Rightarrow> irq \<times> mach \<Rightarrow> (irq \<times> mach) option" where
  "handle_external B E P call Im =
     (let (I, m) = Im; (source, m) = plat_intc_claim B E P m
      in if source = 0 then Some (I, m)
         else do { Im \<leftarrow> service_source B E P call source (I, m);
                   handle_external B E P call Im })"

text \<open>Where a trap leads: back to the interrupted code, or into the panic handler with the
  trap's cause and program counter.\<close>

datatype trap_exit = Resume irq mach | EnterPanic u64 u64 irq mach

definition trap_dispatch ::
  "priv \<Rightarrow> env \<Rightarrow> u64 \<Rightarrow> plat \<Rightarrow> handler_sem \<Rightarrow> u64 \<Rightarrow> u64 \<Rightarrow> irq \<Rightarrow> mach \<Rightarrow> trap_exit option" where
  "trap_dispatch B E ub P call mcause mepc I m =
     (if mcause AND CAUSE_INTERRUPT_BIT \<noteq> 0
      then
        (let code = mcause AND NOT CAUSE_INTERRUPT_BIT in
         if code = CAUSE_EXTERNAL B
         then do { (I, m) \<leftarrow> handle_external B E P call (I, m); Some (Resume I m) }
         else if code = CAUSE_TIMER B
         then (let I = I\<lparr>total_irqs := total_irqs I + 1\<rparr> in
               if timer_fn I \<noteq> 0
               then do { (I, m) \<leftarrow> run_fn call (timer_fn I) [timer_ctx I] (I, m); Some (Resume I m) }
               else do {
                 m \<leftarrow> uart_puts E ub
                   (bytes_of ''irq: timer fired with no handler; disabling timer IE'' @ [10]) m;
                 Some (Resume I (csr_clear_ie (IE_TIMER_BIT B) m)) })
         else if code = CAUSE_SOFTWARE B
         then (let (h, m) = plat_this_hart B E P m;
                   m = plat_ipi_ack B E P h m;
                   I = I\<lparr>total_irqs := total_irqs I + 1\<rparr> in
               if ipi_fn I \<noteq> 0
               then do { (I, m) \<leftarrow> run_fn call (ipi_fn I) [ipi_ctx I] (I, m); Some (Resume I m) }
               else Some (Resume I m))
         else do {
           m \<leftarrow> uart_vprintf E ub
             (bytes_of ''irq: unhandled interrupt code %u'' @ [10]) [VWord code] m;
           Some (Resume I m) })
      else Some (EnterPanic mcause mepc I m))"

section \<open>What the controller and the handlers see\<close>

datatype intc_event = Claimed u32 | Called u64 "u64 list" | Completed u32

definition event_of :: "env \<Rightarrow> u64 \<Rightarrow> history \<Rightarrow> access \<Rightarrow> intc_event list" where
  "event_of E r h x = (case x of
     Rd32 a \<Rightarrow> if a = r then [Claimed (ucast (E h x))] else []
   | Wr32 a v \<Rightarrow> if a = r then [Completed v] else []
   | CallFn f args \<Rightarrow> [Called f args]
   | _ \<Rightarrow> [])"

fun intc_log :: "env \<Rightarrow> u64 \<Rightarrow> history \<Rightarrow> history \<Rightarrow> intc_event list" where
  "intc_log E r h [] = []"
| "intc_log E r h (x # xs) = event_of E r h x @ intc_log E r (h @ [x]) xs"

definition ilog :: "priv \<Rightarrow> env \<Rightarrow> plat \<Rightarrow> mach \<Rightarrow> intc_event list" where
  "ilog B E P m = intc_log E (claim_reg B P) [] (trace m)"

lemma intc_log_append: "intc_log E r h (xs @ ys) = intc_log E r h xs @ intc_log E r (h @ xs) ys"
  by (induction xs arbitrary: h) simp_all

lemma ilog_emit: "ilog B E P (emit x m) = ilog B E P m @ event_of E (claim_reg B P) (trace m) x"
  by (simp add: ilog_def intc_log_append)

text \<open>The contract of an interrupt controller as the dispatcher uses it: a claim and a
  completion each leave one event, and neither disturbs what happened before.\<close>

locale intc =
  fixes claim :: "'s \<Rightarrow> u32 \<times> 's"
    and complete :: "u32 \<Rightarrow> 's \<Rightarrow> 's"
    and log :: "'s \<Rightarrow> intc_event list"
  assumes claim_log: "log (snd (claim s)) = log s @ [Claimed (fst (claim s))]"
    and complete_log: "log (complete v s) = log s @ [Completed v]"
begin

lemma claim_complete_log:
  "log (complete v (snd (claim s))) = log s @ [Claimed (fst (claim s)), Completed v]"
  by (simp add: claim_log complete_log)

lemma claim_then_log:
  assumes "log s' = log (snd (claim s)) @ es"
  shows "log (complete v s') = log s @ Claimed (fst (claim s)) # es @ [Completed v]"
  by (simp add: claim_log complete_log assms)

end

interpretation plic: intc "plat_intc_claim B E P" "plat_intc_complete B E P" "ilog B E P" for B E P
  by unfold_locales
     (simp_all add: plat_intc_claim_simp plat_intc_complete_simp ilog_emit event_of_def)

section \<open>The claim loop\<close>

text \<open>Handlers that return, leave the dispatch table alone and do not claim or complete.\<close>

definition polite :: "priv \<Rightarrow> env \<Rightarrow> plat \<Rightarrow> handler_sem \<Rightarrow> bool" where
  "polite B E P call = (\<forall>fn args I m. \<exists>m'.
     call fn args (I, m) = Some (I, m') \<and> ilog B E P m' = ilog B E P m)"

text \<open>A bound on the work that is pending, which servicing a source makes smaller.\<close>

definition finite_work :: "priv \<Rightarrow> env \<Rightarrow> plat \<Rightarrow> handler_sem \<Rightarrow> (mach \<Rightarrow> nat) \<Rightarrow> bool" where
  "finite_work B E P call pending = (\<forall>I m s m1 I' m'.
     plat_intc_claim B E P m = (s, m1) \<longrightarrow> s \<noteq> 0 \<longrightarrow>
     service_source B E P call s (I, m1) = Some (I', m') \<longrightarrow> pending m' < pending m)"

definition called_for :: "irq \<Rightarrow> u32 \<Rightarrow> intc_event list" where
  "called_for I s =
     (if s < IRQ_HANDLERS_MAX \<and> slot_fn (handlers I ! unat s) \<noteq> 0
      then [Called (slot_fn (handlers I ! unat s)) [ucast s, slot_ctx (handlers I ! unat s)]] else [])"

definition service_events :: "irq \<Rightarrow> u32 \<Rightarrow> intc_event list" where
  "service_events I s = Claimed s # called_for I s @ [Completed s]"

definition bump :: "u32 \<Rightarrow> irq \<Rightarrow> irq" where
  "bump s I = (if s < IRQ_HANDLERS_MAX
     then I\<lparr>handlers := (handlers I)[unat s :=
            (handlers I ! unat s)\<lparr>slot_count := slot_count (handlers I ! unat s) + 1\<rparr>],
            total_irqs := total_irqs I + 1\<rparr>
     else I)"

lemma service_source_polite:
  assumes "polite B E P call"
  shows "\<exists>m'. service_source B E P call s (I, m) = Some (bump s I, m') \<and>
    ilog B E P m' = ilog B E P m @ called_for I s @ [Completed s]"
proof (cases "s < IRQ_HANDLERS_MAX \<and> slot_fn (handlers I ! unat s) \<noteq> 0")
  case True
  let ?f = "slot_fn (handlers I ! unat s)" and ?a = "[ucast s, slot_ctx (handlers I ! unat s)]"
  obtain m' where m': "call ?f ?a (bump s I, emit (CallFn ?f ?a) m) = Some (bump s I, m')"
    "ilog B E P m' = ilog B E P (emit (CallFn ?f ?a) m)"
    using assms unfolding polite_def by blast
  have "ilog B E P (plat_intc_complete B E P s m') = ilog B E P m @ called_for I s @ [Completed s]"
    using m'(2) True by (simp add: plic.complete_log ilog_emit event_of_def called_for_def)
  moreover have "service_source B E P call s (I, m) = Some (bump s I, plat_intc_complete B E P s m')"
    using True m'(1) by (simp add: service_source_def run_fn_def bump_def Let_def)
  ultimately show ?thesis by blast
next
  case False
  then show ?thesis
    by (auto simp: service_source_def bump_def called_for_def plic.complete_log Let_def)
qed

lemma bump_slots:
  "length (handlers (bump s I)) = length (handlers I)"
  "slot_fn (handlers (bump s I) ! k) = slot_fn (handlers I ! k)"
  "slot_ctx (handlers (bump s I) ! k) = slot_ctx (handlers I ! k)"
  by (simp_all add: bump_def nth_update)

lemma called_for_bump: "called_for (bump s I) = called_for I"
  by (rule ext) (simp add: called_for_def bump_slots)

lemma handle_external_step:
  "handle_external B E P call (I, m) =
    (let (s, m1) = plat_intc_claim B E P m in
     if s = 0 then Some (I, m1)
     else Option.bind (service_source B E P call s (I, m1)) (handle_external B E P call))"
  by (subst handle_external.simps) simp

lemma handle_external_total:
  assumes p: "polite B E P call" and w: "finite_work B E P call pending"
  shows "\<exists>ss m'. handle_external B E P call (I, m) = Some (fold bump ss I, m') \<and> 0 \<notin> set ss \<and>
    ilog B E P m' = ilog B E P m @ concat (map (service_events I) ss) @ [Claimed 0]"
proof (induction "pending m" arbitrary: I m rule: less_induct)
  case less
  obtain s m1 where c: "plat_intc_claim B E P m = (s, m1)" by (cases "plat_intc_claim B E P m")
  have l1: "ilog B E P m1 = ilog B E P m @ [Claimed s]" using plic.claim_log [of B E P m] c by simp
  show ?case
  proof (cases "s = 0")
    case True
    then show ?thesis using c l1
      by (intro exI [of _ "[]"] exI [of _ m1]) (simp add: handle_external_step)
  next
    case False
    obtain m2 where m2: "service_source B E P call s (I, m1) = Some (bump s I, m2)"
      "ilog B E P m2 = ilog B E P m1 @ called_for I s @ [Completed s]"
      using service_source_polite [OF p] by blast
    have "pending m2 < pending m" using w c m2(1) False unfolding finite_work_def by blast
    from less [OF this] obtain ss m' where ih: "handle_external B E P call (bump s I, m2)
        = Some (fold bump ss (bump s I), m')" "0 \<notin> set ss"
      "ilog B E P m' = ilog B E P m2 @ concat (map (service_events (bump s I)) ss) @ [Claimed 0]"
      by blast
    have "service_events (bump s I) = service_events I"
      by (rule ext) (simp add: service_events_def called_for_bump)
    then show ?thesis using c False m2 ih l1
      by (intro exI [of _ "s # ss"] exI [of _ m'])
         (simp add: handle_external_step service_events_def)
  qed
qed

lemma fold_bump:
  "length (handlers I) = 64 \<Longrightarrow>
    total_irqs (fold bump ss I) = total_irqs I + of_nat (length (filter (\<lambda>s. s < 64) ss)) \<and>
    (\<forall>k<64. slot_count (handlers (fold bump ss I) ! k) =
       slot_count (handlers I ! k) + of_nat (count_list ss (of_nat k)))"
proof (induction ss arbitrary: I)
  case (Cons s ss)
  have l: "length (handlers (bump s I)) = 64" using Cons.prems by (simp add: bump_slots)
  have k: "slot_count (handlers (bump s I) ! k) =
      slot_count (handlers I ! k) + (if s = of_nat k then 1 else 0)" if "k < 64" for k
  proof -
    have u: "unat (of_nat k :: u32) = k" by (rule unat_of_nat_small) (use that in simp)
    show ?thesis
    proof (cases "unat s = k")
      case True
      then have "s = of_nat k" by (metis of_nat_unat ucast_id)
      then show ?thesis using that Cons.prems True
        by (simp add: bump_def IRQ_HANDLERS_MAX_def RVVM_PLIC_SRC_LIMIT_def word_less_nat_alt u)
    next
      case False
      then have "s \<noteq> of_nat k" using u by blast
      with False show ?thesis by (simp add: bump_def)
    qed
  qed
  have t: "total_irqs (bump s I) = total_irqs I + (if s < 64 then 1 else 0)"
    by (simp add: bump_def IRQ_HANDLERS_MAX_def RVVM_PLIC_SRC_LIMIT_def)
  show ?case using Cons.IH [OF l] k t by (simp add: algebra_simps)
qed simp

section \<open>Source masks\<close>

definition plic_ctx_of :: "priv \<Rightarrow> plat \<Rightarrow> u32" where
  "plic_ctx_of B P = (case B of MMode \<Rightarrow> 0 | SMode \<Rightarrow> push_bit 1 (ucast (tp P)) OR 1)"

definition prio_addr :: "plat \<Rightarrow> u32 \<Rightarrow> u64" where
  "prio_addr P s = plic_base P + of_nat (4 * unat s)"

definition enable_addr :: "priv \<Rightarrow> plat \<Rightarrow> u32 \<Rightarrow> u64" where
  "enable_addr B P s =
     plic_base P + 0x2000 + ucast (plic_ctx_of B P * 0x80) + of_nat (4 * (unat s div 32))"

lemma source_small: "\<not> (s = 0 \<or> RVVM_PLIC_SRC_LIMIT \<le> s) \<Longrightarrow> unat s < 64"
  by (simp add: RVVM_PLIC_SRC_LIMIT_def word_le_nat_alt)

lemma plic_prio_reg_addr: "unat s < 64 \<Longrightarrow> plic_prio_reg P s = prio_addr P s"
proof -
  assume s: "unat s < 64"
  have "unat (s * 4) = 4 * unat s" using s by (subst unat_mult_no_wrap) simp_all
  then have "(ucast (s * 4) :: u64) = of_nat (4 * unat s)" by (simp only: ucast_eq_of_nat)
  then show ?thesis by (simp add: plic_prio_reg_def prio_addr_def RVVM_PLIC_PRIO_OFF_def)
qed

lemma plic_enable_reg_addr:
  "unat s < 64 \<Longrightarrow> plic_enable_reg P (plic_ctx_of B P) (drop_bit 5 s) = enable_addr B P s"
proof -
  assume s: "unat s < 64"
  have d: "unat (drop_bit 5 s) = unat s div 32" using unat_drop_bit [of 5 s] by simp
  have "unat (drop_bit 5 s * 4) = 4 * (unat s div 32)"
    using s by (subst unat_mult_no_wrap) (simp_all only: d, simp_all)
  then have "(ucast (drop_bit 5 s * 4) :: u64) = of_nat (4 * (unat s div 32))"
    by (simp only: ucast_eq_of_nat)
  then show ?thesis
    unfolding plic_enable_reg_def enable_addr_def RVVM_PLIC_ENABLE_OFF_def by simp
qed

lemma source_bit: "unat (s AND 0x1F :: u32) = unat s mod 32"
proof -
  have m: "(0x1F :: u32) = mask 5" by (simp add: mask_eq_exp_minus_1)
  show ?thesis unfolding m using unat_and_mask [of s 5] by simp
qed

definition set_source :: "u32 \<Rightarrow> bool \<Rightarrow> u32 \<Rightarrow> u32" where
  "set_source s on cur = (let b = push_bit (unat s mod 32) 1 in if on then cur OR b else cur AND NOT b)"

lemma bit_set_source:
  "j < 32 \<Longrightarrow> bit (set_source s on cur) j = (if j = unat s mod 32 then on else bit cur j)"
  by (auto simp: set_source_def Let_def bit_or_iff bit_and_iff bit_not_iff bit_exp_iff possible_bit_def)

definition plic_enable_bit :: "priv \<Rightarrow> env \<Rightarrow> plat \<Rightarrow> u32 \<Rightarrow> bool \<Rightarrow> mach \<Rightarrow> mach" where
  "plic_enable_bit B = (case B of MMode \<Rightarrow> plic_enable_bit_m | SMode \<Rightarrow> plic_enable_bit_s)"

lemma plic_enable_bit_simp:
  "plic_enable_bit B E P s on m =
     (if s = 0 \<or> RVVM_PLIC_SRC_LIMIT \<le> s then m
      else emits [Rd32 (enable_addr B P s), Wr32 (enable_addr B P s)
             (set_source s on (ucast (E (trace m) (Rd32 (enable_addr B P s)))))] m)"
proof (cases "s = 0 \<or> RVVM_PLIC_SRC_LIMIT \<le> s")
  case True
  then show ?thesis
    by (cases B) (auto simp: plic_enable_bit_def plic_enable_bit_m_def plic_enable_bit_s_def)
next
  case False
  note a = plic_enable_reg_addr [OF source_small [OF False], of P B]
  show ?thesis using False a
    by (cases B) (simp_all add: plic_enable_bit_def plic_enable_bit_m_def plic_enable_bit_s_def
        PLIC_CTX_M_HART0_def plic_ctx_self_simp plic_ctx_of_def source_bit set_source_def
        Let_def emit_emits)
qed

lemmas trap_causes = CAUSE_INTERRUPT_BIT_def CAUSE_EXTERNAL_def CAUSE_TIMER_def CAUSE_SOFTWARE_def

lemma interrupt_code:
  assumes "code AND CAUSE_INTERRUPT_BIT = 0"
  shows "(CAUSE_INTERRUPT_BIT OR code) AND CAUSE_INTERRUPT_BIT \<noteq> 0"
    "(CAUSE_INTERRUPT_BIT OR code) AND NOT CAUSE_INTERRUPT_BIT = code"
proof -
  have "(CAUSE_INTERRUPT_BIT OR code) AND CAUSE_INTERRUPT_BIT = CAUSE_INTERRUPT_BIT"
    by (rule bit_word_eqI) (auto simp: bit_and_iff bit_or_iff)
  then show "(CAUSE_INTERRUPT_BIT OR code) AND CAUSE_INTERRUPT_BIT \<noteq> 0"
    by (simp add: CAUSE_INTERRUPT_BIT_def)
  show "(CAUSE_INTERRUPT_BIT OR code) AND NOT CAUSE_INTERRUPT_BIT = code"
  proof (rule bit_word_eqI)
    fix n assume "n < LENGTH(64)"
    have "bit (code AND CAUSE_INTERRUPT_BIT) n = False" by (simp add: assms)
    then show "bit ((CAUSE_INTERRUPT_BIT OR code) AND NOT CAUSE_INTERRUPT_BIT) n = bit code n"
      using \<open>n < LENGTH(64)\<close> by (auto simp: bit_and_iff bit_or_iff bit_not_iff)
  qed
qed

lemma map_option_bind:
  "Option.bind x (\<lambda>(a, b). Some (f a b)) = map_option (\<lambda>(a, b). f a b) x"
  by (cases x) auto

section \<open>Properties\<close>

text \<open>C6: the external-interrupt handler drains the controller: when handlers return, keep
  out of the dispatch table and the claim register, and the pending work is finite, it
  returns; it has claimed a sequence of sources, called for each one its registered handler
  (if any) with the source and the registered context, and completed that same source before
  claiming the next, up to the claim that answered 0; and the counters have grown by the
  number of in-range claims, in total and for each source.\<close>

theorem handle_external_correct:
  assumes "polite B E P call" "finite_work B E P call pending" "length (handlers I) = 64"
  shows "\<exists>ss I' m'. handle_external B E P call (I, m) = Some (I', m') \<and> 0 \<notin> set ss \<and>
    ilog B E P m' = ilog B E P m @
      concat (map (\<lambda>s. Claimed s # called_for I s @ [Completed s]) ss) @ [Claimed 0] \<and>
    total_irqs I' = total_irqs I + of_nat (length (filter (\<lambda>s. s < 64) ss)) \<and>
    (\<forall>k<64. slot_count (handlers I' ! k) =
       slot_count (handlers I ! k) + of_nat (count_list ss (of_nat k)))"
  using handle_external_total [OF assms(1,2), of I m] fold_bump [OF assms(3)]
  unfolding service_events_def by blast

text \<open>Enabling a source touches the controller only for a source in range; it gives
  the source priority 1 when it has none, before the enable, and sets exactly its bit in the
  enable word of the calling context; disabling clears exactly that bit.\<close>

theorem irq_mask_correct:
  "irq_enable B E P s m =
     (if s = 0 \<or> 64 \<le> s then m
      else
        (let pr = (ucast (E (trace m) (Rd32 (prio_addr P s))) :: u32);
             as = Rd32 (prio_addr P s) # (if pr = 0 then [Wr32 (prio_addr P s) 1] else []);
             cur = ucast (E (trace m @ as) (Rd32 (enable_addr B P s)))
         in emits (as @ [Rd32 (enable_addr B P s),
                         Wr32 (enable_addr B P s) (set_source s True cur)]) m)) \<and>
   irq_disable B E P s m =
     (if s = 0 \<or> 64 \<le> s then m
      else emits [Rd32 (enable_addr B P s), Wr32 (enable_addr B P s)
             (set_source s False (ucast (E (trace m) (Rd32 (enable_addr B P s)))))] m)"
proof
  show "irq_disable B E P s m =
     (if s = 0 \<or> 64 \<le> s then m
      else emits [Rd32 (enable_addr B P s), Wr32 (enable_addr B P s)
             (set_source s False (ucast (E (trace m) (Rd32 (enable_addr B P s)))))] m)"
    using plic_enable_bit_simp [of B E P s False m]
    by (cases B) (simp_all add: irq_disable_def plat_intc_disable_source_def plic_enable_bit_def
        plat_intc_disable_source_m_def plat_intc_disable_source_s_def RVVM_PLIC_SRC_LIMIT_def)
next
  have en: "irq_enable B E P s m =
    (if s = 0 \<or> RVVM_PLIC_SRC_LIMIT \<le> s then m
     else (let (prio, m) = mmio_r32 E (plic_prio_reg P s) m;
               m = (if prio = 0 then mmio_w32 (plic_prio_reg P s) 1 m else m)
           in plic_enable_bit B E P s True m))"
    by (cases B) (simp_all add: irq_enable_def plat_intc_enable_source_def plic_enable_bit_def
        plat_intc_enable_source_m_def plat_intc_enable_source_s_def)
  show "irq_enable B E P s m =
     (if s = 0 \<or> 64 \<le> s then m
      else
        (let pr = (ucast (E (trace m) (Rd32 (prio_addr P s))) :: u32);
             as = Rd32 (prio_addr P s) # (if pr = 0 then [Wr32 (prio_addr P s) 1] else []);
             cur = ucast (E (trace m @ as) (Rd32 (enable_addr B P s)))
         in emits (as @ [Rd32 (enable_addr B P s),
                         Wr32 (enable_addr B P s) (set_source s True cur)]) m))"
  proof (cases "s = 0 \<or> RVVM_PLIC_SRC_LIMIT \<le> s")
    case True
    then show ?thesis by (auto simp: en RVVM_PLIC_SRC_LIMIT_def)
  next
    case False
    then show ?thesis unfolding en plic_enable_bit_simp
      by (simp add: plic_prio_reg_addr [OF source_small [OF False]] Let_def emit_emits
          RVVM_PLIC_SRC_LIMIT_def)
  qed
qed

lemma handle_external_correct_witness:
  "\<exists>I' m'. handle_external MMode (\<lambda>h a. if length h < 2 then 5 else 0) plat_reset
     (\<lambda>fn args Im. Some Im) (irq_register 5 0x8000 7 irq_reset, mach0) = Some (I', m')"
proof -
  let ?E = "\<lambda>(h :: history) (a :: access). if length h < 2 then (5 :: u64) else 0"
  let ?call = "\<lambda>(fn :: u64) (args :: u64 list) Im. Some (Im :: irq \<times> mach)"
  have p: "polite MMode ?E plat_reset ?call" by (simp add: polite_def)
  have "finite_work MMode ?E plat_reset ?call (\<lambda>m. 3 - length (trace m))"
    unfolding finite_work_def plat_intc_claim_simp
  proof (intro allI impI)
    fix I :: irq and m s m1 I' m'
    assume c: "(ucast (?E (trace m) (Rd32 (claim_reg MMode plat_reset))),
        emit (Rd32 (claim_reg MMode plat_reset)) m) = (s, m1)" and nz: "s \<noteq> (0 :: u32)"
      and sv: "service_source MMode ?E plat_reset ?call s (I, m1) = Some (I', m')"
    from c nz have "length (trace m) < 2" by (auto split: if_splits)
    moreover have "length (trace m1) < length (trace m')"
      using sv by (auto simp: service_source_def run_fn_def plat_intc_complete_simp Let_def
          split: if_splits)
    ultimately show "3 - length (trace m') < 3 - length (trace m)" using c by auto
  qed
  moreover have "length (handlers (irq_register 5 0x8000 7 irq_reset)) = 64"
    by (simp add: irq_register_def irq_reset_def)
  ultimately show ?thesis
    using handle_external_correct [OF p, of _ "irq_register 5 0x8000 7 irq_reset" mach0] by blast
qed



end
