(* ===== verification/Sync.thy ===== *)
theory Sync
  imports Plat
begin

text \<open>
  Atomic operations (\<open>include/atomic.h\<close>) and the spin lock built on them
  (\<open>include/mutex.h\<close>).  The operations are programs over the trace: what a load-reserved,
  a store-conditional or an AMO answers is the environment's choice.  The lock is then run by
  any number of harts on one memory word in a step relation whose steps are the instructions
  of \<open>mutex_lock\<close> and \<open>mutex_unlock\<close>, with a store-conditional that may always fail and
  can only succeed while no other hart has stored since the load.
\<close>

section \<open>Atomic operations\<close>

definition atomic_load_u32 :: "env \<Rightarrow> u64 \<Rightarrow> mach \<Rightarrow> u32 \<times> mach" where
  "atomic_load_u32 E p m = (let (v, m) = ask E (Lr32 p) m in (ucast v, m))"

definition atomic_store_u32 :: "env \<Rightarrow> u64 \<Rightarrow> u32 \<Rightarrow> mach \<Rightarrow> mach" where
  "atomic_store_u32 E p v m = snd (ask E (Amo32 AmoSwap p v) m)"

definition atomic_add_u32 :: "env \<Rightarrow> u64 \<Rightarrow> u32 \<Rightarrow> mach \<Rightarrow> u32 \<times> mach" where
  "atomic_add_u32 E p x m = (let (v, m) = ask E (Amo32 AmoAdd p x) m in (ucast v, m))"

definition atomic_sub_u32 :: "env \<Rightarrow> u64 \<Rightarrow> u32 \<Rightarrow> mach \<Rightarrow> u32 \<times> mach" where
  "atomic_sub_u32 E p x m = atomic_add_u32 E p (- x) m"

definition atomic_and_u32 :: "env \<Rightarrow> u64 \<Rightarrow> u32 \<Rightarrow> mach \<Rightarrow> u32 \<times> mach" where
  "atomic_and_u32 E p x m = (let (v, m) = ask E (Amo32 AmoAnd p x) m in (ucast v, m))"

definition atomic_or_u32 :: "env \<Rightarrow> u64 \<Rightarrow> u32 \<Rightarrow> mach \<Rightarrow> u32 \<times> mach" where
  "atomic_or_u32 E p x m = (let (v, m) = ask E (Amo32 AmoOr p x) m in (ucast v, m))"

definition atomic_xor_u32 :: "env \<Rightarrow> u64 \<Rightarrow> u32 \<Rightarrow> mach \<Rightarrow> u32 \<times> mach" where
  "atomic_xor_u32 E p x m = (let (v, m) = ask E (Amo32 AmoXor p x) m in (ucast v, m))"

definition atomic_xchg_u32 :: "env \<Rightarrow> u64 \<Rightarrow> u32 \<Rightarrow> mach \<Rightarrow> u32 \<times> mach" where
  "atomic_xchg_u32 E p v m = (let (old, m) = ask E (Amo32 AmoSwap p v) m in (ucast old, m))"

text \<open>The retry counter is the number of attempts left.\<close>

fun cas_loop_u32 :: "env \<Rightarrow> u64 \<Rightarrow> u32 \<Rightarrow> u32 \<Rightarrow> nat \<Rightarrow> mach \<Rightarrow> bool \<times> mach" where
  "cas_loop_u32 E p expected desired 0 m = (False, m)"
| "cas_loop_u32 E p expected desired (Suc retries) m =
     (let (cur, m) = ask E (Lr32 p) m in
      if (ucast cur :: u32) \<noteq> expected then (False, m)
      else (let (failed, m) = ask E (Sc32 p desired) m in
            if (ucast failed :: u32) = 0 then (True, m)
            else cas_loop_u32 E p expected desired retries m))"

definition atomic_cas_u32 :: "env \<Rightarrow> u64 \<Rightarrow> u32 \<Rightarrow> u32 \<Rightarrow> mach \<Rightarrow> bool \<times> mach" where
  "atomic_cas_u32 E p expected desired m = cas_loop_u32 E p expected desired 32 m"

definition atomic_load_u64 :: "env \<Rightarrow> u64 \<Rightarrow> mach \<Rightarrow> u64 \<times> mach" where
  "atomic_load_u64 E p m = ask E (Lr64 p) m"

definition atomic_store_u64 :: "env \<Rightarrow> u64 \<Rightarrow> u64 \<Rightarrow> mach \<Rightarrow> mach" where
  "atomic_store_u64 E p v m = snd (ask E (Amo64 AmoSwap p v) m)"

definition atomic_add_u64 :: "env \<Rightarrow> u64 \<Rightarrow> u64 \<Rightarrow> mach \<Rightarrow> u64 \<times> mach" where
  "atomic_add_u64 E p x m = ask E (Amo64 AmoAdd p x) m"

definition atomic_xchg_u64 :: "env \<Rightarrow> u64 \<Rightarrow> u64 \<Rightarrow> mach \<Rightarrow> u64 \<times> mach" where
  "atomic_xchg_u64 E p v m = ask E (Amo64 AmoSwap p v) m"

fun cas_loop_u64 :: "env \<Rightarrow> u64 \<Rightarrow> u64 \<Rightarrow> u64 \<Rightarrow> nat \<Rightarrow> mach \<Rightarrow> bool \<times> mach" where
  "cas_loop_u64 E p expected desired 0 m = (False, m)"
| "cas_loop_u64 E p expected desired (Suc retries) m =
     (let (cur, m) = ask E (Lr64 p) m in
      if cur \<noteq> expected then (False, m)
      else (let (failed, m) = ask E (Sc64 p desired) m in
            if (ucast failed :: u32) = 0 then (True, m)
            else cas_loop_u64 E p expected desired retries m))"

definition atomic_cas_u64 :: "env \<Rightarrow> u64 \<Rightarrow> u64 \<Rightarrow> u64 \<Rightarrow> mach \<Rightarrow> bool \<times> mach" where
  "atomic_cas_u64 E p expected desired m = cas_loop_u64 E p expected desired 32 m"

definition atomic_fence :: "mach \<Rightarrow> mach" where
  "atomic_fence m = emit Fence m"

section \<open>The lock\<close>

definition mutex_init :: "env \<Rightarrow> u64 \<Rightarrow> mach \<Rightarrow> mach" where
  "mutex_init E p m = atomic_store_u32 E p 0 m"

definition mutex_trylock :: "priv \<Rightarrow> env \<Rightarrow> plat \<Rightarrow> u64 \<Rightarrow> mach \<Rightarrow> bool \<times> mach" where
  "mutex_trylock B E pl p m =
     (let (h, m) = plat_this_hart B E pl m; self = h + 1 in atomic_cas_u32 E p 0 self m)"

partial_function (option) mutex_spin :: "env \<Rightarrow> u64 \<Rightarrow> u32 \<Rightarrow> mach \<Rightarrow> mach option" where
  "mutex_spin E p self m =
     (let (ok, m) = atomic_cas_u32 E p 0 self m
      in if ok then Some m else mutex_spin E p self (emit Pause m))"

definition mutex_lock :: "priv \<Rightarrow> env \<Rightarrow> plat \<Rightarrow> u64 \<Rightarrow> mach \<Rightarrow> mach option" where
  "mutex_lock B E pl p m =
     (let (h, m) = plat_this_hart B E pl m; self = h + 1 in mutex_spin E p self m)"

definition mutex_unlock :: "env \<Rightarrow> u64 \<Rightarrow> mach \<Rightarrow> mach" where
  "mutex_unlock E p m = atomic_store_u32 E p 0 m"

definition mutex_holder :: "env \<Rightarrow> u64 \<Rightarrow> mach \<Rightarrow> int \<times> mach" where
  "mutex_holder E p m =
     (let (v, m) = atomic_load_u32 E p m in (if v = 0 then - 1 else sint (v - 1), m))"

section \<open>The lock under interleaving\<close>

text \<open>Where a hart is: outside, about to load-reserve or to store-conditionally with so many
  attempts left, or inside the critical section.\<close>

datatype lock_pc = Outside | AtLr nat | AtSc nat | Inside

record lock_sys =
  holder :: u32
  reserved :: "u32 \<Rightarrow> bool"
  pc :: "u32 \<Rightarrow> lock_pc"

definition lock_init :: lock_sys where
  "lock_init = \<lparr>holder = 0, reserved = (\<lambda>_. False), pc = (\<lambda>_. Outside)\<rparr>"

text \<open>Only the harts below \<open>SMP_MAX_HARTS\<close> run code that can take a lock.
  After a failed attempt: the next attempt of the same compare-and-swap, or, when its
  attempts are used up, the first of the next one.\<close>

definition retry_pc :: "nat \<Rightarrow> lock_pc" where
  "retry_pc k = (if k = 0 then AtLr 32 else AtLr k)"

inductive lock_step :: "lock_sys \<Rightarrow> lock_sys \<Rightarrow> bool" where
  enter: "pc s h = Outside \<Longrightarrow> h < 8 \<Longrightarrow> lock_step s (s\<lparr>pc := (pc s)(h := AtLr 32)\<rparr>)"
| lr_busy: "pc s h = AtLr k \<Longrightarrow> holder s \<noteq> 0 \<Longrightarrow>
    lock_step s (s\<lparr>reserved := (reserved s)(h := True), pc := (pc s)(h := AtLr 32)\<rparr>)"
| lr_free: "pc s h = AtLr (Suc k) \<Longrightarrow> holder s = 0 \<Longrightarrow>
    lock_step s (s\<lparr>reserved := (reserved s)(h := True), pc := (pc s)(h := AtSc k)\<rparr>)"
| sc_ok: "pc s h = AtSc k \<Longrightarrow> reserved s h \<Longrightarrow>
    lock_step s (s\<lparr>holder := h + 1, reserved := (\<lambda>_. False), pc := (pc s)(h := Inside)\<rparr>)"
| sc_fail: "pc s h = AtSc k \<Longrightarrow>
    lock_step s (s\<lparr>reserved := (reserved s)(h := False), pc := (pc s)(h := retry_pc k)\<rparr>)"
| unlock: "pc s h = Inside \<Longrightarrow>
    lock_step s (s\<lparr>holder := 0, reserved := (\<lambda>_. False), pc := (pc s)(h := Outside)\<rparr>)"

inductive_cases lock_stepE: "lock_step s t"

inductive lock_reach :: "lock_sys \<Rightarrow> bool" where
  init: "lock_reach lock_init"
| step: "lock_reach s \<Longrightarrow> lock_step s t \<Longrightarrow> lock_reach t"

text \<open>A hart inside is the one the word names, the word is free only when nobody is inside,
  and a reservation held at the store-conditional means the word is still free.\<close>

definition lock_inv :: "lock_sys \<Rightarrow> bool" where
  "lock_inv s = ((\<forall>h. pc s h \<noteq> Outside \<longrightarrow> h < 8) \<and>
     (\<forall>h. pc s h = Inside \<longrightarrow> holder s = h + 1) \<and>
     (\<forall>h k. pc s h = AtSc k \<longrightarrow> reserved s h \<longrightarrow> holder s = 0) \<and>
     (holder s = 0 \<longrightarrow> (\<forall>h. pc s h \<noteq> Inside)))"

lemma small_hart:
  assumes "(h :: u32) < 8"
  shows "h + 1 \<noteq> 0"
proof
  assume "h + 1 = 0"
  then have "h = - 1" by (simp add: eq_neg_iff_add_eq_0)
  with assms show False by simp
qed

lemma lock_inv_init: "lock_inv lock_init"
  by (simp add: lock_inv_def lock_init_def)

lemma lock_inv_inside: "lock_inv s \<Longrightarrow> pc s h = Inside \<Longrightarrow> holder s = h + 1"
  unfolding lock_inv_def by blast

lemma lock_inv_unique:
  assumes "lock_inv s" "pc s h = Inside" "pc s h' = Inside"
  shows "h = h'"
proof -
  have "h + 1 = h' + 1"
    unfolding lock_inv_inside [OF assms(1,2), symmetric] by (rule lock_inv_inside [OF assms(1,3)])
  then show ?thesis by simp
qed

lemma lock_inv_step:
  assumes "lock_step s t" "lock_inv s"
  shows "lock_inv t"
  using assms
proof (cases rule: lock_step.cases)
  case (sc_ok h k)
  with assms(2) have "holder s = 0" "h < 8" by (auto simp: lock_inv_def)
  then show ?thesis using sc_ok assms(2) small_hart [of h] by (auto simp: lock_inv_def)
next
  case (unlock h)
  have "pc s h' \<noteq> Inside" if "h' \<noteq> h" for h'
    using that lock_inv_unique [OF assms(2) unlock(2)] by blast
  then show ?thesis using unlock assms(2) by (auto simp: lock_inv_def)
qed (auto simp: lock_inv_def retry_pc_def split: if_splits)

lemma lock_reach_inv: "lock_reach s \<Longrightarrow> lock_inv s"
  by (induction rule: lock_reach.induct) (auto intro: lock_inv_init lock_inv_step)

section \<open>Compare-and-swap and the sequential lock\<close>

text \<open>The accesses of a successful compare-and-swap end with a load that found the expected
  value and a store-conditional that succeeded; before them only failed attempts.\<close>

definition cas_won :: "env \<Rightarrow> u64 \<Rightarrow> u32 \<Rightarrow> u32 \<Rightarrow> history \<Rightarrow> history \<Rightarrow> bool" where
  "cas_won E p expected desired h h' =
     (\<exists>xs. h' = h @ xs @ [Lr32 p, Sc32 p desired] \<and> set xs \<subseteq> {Lr32 p, Sc32 p desired, Pause} \<and>
        ucast (E (h @ xs) (Lr32 p)) = expected \<and>
        (ucast (E (h @ xs @ [Lr32 p]) (Sc32 p desired)) :: u32) = 0 \<and>
        (\<forall>i<length xs. xs ! i = Sc32 p desired \<longrightarrow>
           (ucast (E (h @ take i xs) (Sc32 p desired)) :: u32) \<noteq> 0))"

lemma cas_won_prefix:
  assumes w: "cas_won E p e d (h @ ys) h'" and y: "set ys \<subseteq> {Lr32 p, Sc32 p d, Pause}"
    and f: "\<And>i. i < length ys \<Longrightarrow> ys ! i = Sc32 p d \<Longrightarrow> (ucast (E (h @ take i ys) (Sc32 p d)) :: u32) \<noteq> 0"
  shows "cas_won E p e d h h'"
proof -
  obtain xs where x: "h' = h @ ys @ xs @ [Lr32 p, Sc32 p d]" "set xs \<subseteq> {Lr32 p, Sc32 p d, Pause}"
    "ucast (E (h @ ys @ xs) (Lr32 p)) = e" "(ucast (E (h @ ys @ xs @ [Lr32 p]) (Sc32 p d)) :: u32) = 0"
    "\<forall>i<length xs. xs ! i = Sc32 p d \<longrightarrow> (ucast (E (h @ ys @ take i xs) (Sc32 p d)) :: u32) \<noteq> 0"
    using w by (auto simp: cas_won_def)
  have "(ucast (E (h @ take i (ys @ xs)) (Sc32 p d)) :: u32) \<noteq> 0"
    if "i < length (ys @ xs)" "(ys @ xs) ! i = Sc32 p d" for i
    using that f [of i] x(5) [rule_format, of "i - length ys"]
    by (cases "i < length ys") (auto simp: nth_append)
  then show ?thesis using x y unfolding cas_won_def
    by (intro exI [of _ "ys @ xs"]) auto
qed

lemma cas_loop_u32_cases:
  "cas_loop_u32 E p e d k m = (ok, m') \<Longrightarrow>
    (ok \<longrightarrow> cas_won E p e d (trace m) (trace m')) \<and>
    (\<not> ok \<longrightarrow> (\<exists>xs. trace m' = trace m @ xs \<and> set xs \<subseteq> {Lr32 p, Sc32 p d} \<and>
       (\<forall>i<length xs. xs ! i = Sc32 p d \<longrightarrow>
          (ucast (E (trace m @ take i xs) (Sc32 p d)) :: u32) \<noteq> 0)))"
proof (induction k arbitrary: m)
  case 0
  then show ?case by (auto intro: exI [of _ "[]"])
next
  case (Suc k)
  let ?cur = "ucast (E (trace m) (Lr32 p)) :: u32"
    and ?f = "ucast (E (trace m @ [Lr32 p]) (Sc32 p d)) :: u32"
  consider "?cur \<noteq> e" | "?cur = e" "?f = 0" | "?cur = e" "?f \<noteq> 0" by blast
  then show ?case
  proof cases
    case 1
    with Suc.prems have "\<not> ok" "m' = emit (Lr32 p) m" by auto
    then show ?thesis by (auto intro!: exI [of _ "[Lr32 p]"])
  next
    case 2
    with Suc.prems have "ok" "m' = emit (Sc32 p d) (emit (Lr32 p) m)" by auto
    with 2 show ?thesis by (auto simp: cas_won_def intro!: exI [of _ "[]"])
  next
    case 3
    let ?m = "emit (Sc32 p d) (emit (Lr32 p) m)"
    have "cas_loop_u32 E p e d k ?m = (ok, m')" using Suc.prems 3 by simp
    note IH = Suc.IH [OF this]
    have f: "(ucast (E (trace m @ take i [Lr32 p, Sc32 p d]) (Sc32 p d)) :: u32) \<noteq> 0"
      if "i < length [Lr32 p, Sc32 p d]" "[Lr32 p, Sc32 p d] ! i = Sc32 p d" for i
      using that 3 by (cases i) (auto simp: less_Suc_eq)
    show ?thesis
    proof (cases ok)
      case True
      have "cas_won E p e d (trace m) (trace m')"
      proof (rule cas_won_prefix [where ys = "[Lr32 p, Sc32 p d]"])
        show "cas_won E p e d (trace m @ [Lr32 p, Sc32 p d]) (trace m')" using IH True by simp
      qed (use f in auto)
      with True show ?thesis by blast
    next
      case False
      with IH obtain xs where xs: "trace m' = trace m @ [Lr32 p, Sc32 p d] @ xs"
        "set xs \<subseteq> {Lr32 p, Sc32 p d}"
        "\<forall>i<length xs. xs ! i = Sc32 p d \<longrightarrow>
          (ucast (E (trace m @ [Lr32 p, Sc32 p d] @ take i xs) (Sc32 p d)) :: u32) \<noteq> 0" by auto
      have "(ucast (E (trace m @ take i ([Lr32 p, Sc32 p d] @ xs)) (Sc32 p d)) :: u32) \<noteq> 0"
        if "i < length ([Lr32 p, Sc32 p d] @ xs)" "([Lr32 p, Sc32 p d] @ xs) ! i = Sc32 p d" for i
      proof (cases "i < 2")
        case True
        then show ?thesis using that f [of i] by (auto simp: less_2_cases_iff)
      next
        case False
        then obtain j where "i = Suc (Suc j)" by (cases i; cases "i - 1") auto
        then show ?thesis using that xs(3) by simp
      qed
      then show ?thesis using False xs by (intro conjI impI) (auto intro!: exI [of _ "[Lr32 p, Sc32 p d] @ xs"])
    qed
  qed
qed

lemma mutex_spin_won:
  assumes "mutex_spin E p self m = Some m'"
  shows "cas_won E p 0 self (trace m) (trace m')"
proof (rule mutex_spin.raw_induct
    [where P = "\<lambda>E p self m m'. cas_won E p 0 self (trace m) (trace m')", OF _ assms])
  fix f :: "env \<Rightarrow> u64 \<Rightarrow> u32 \<Rightarrow> mach \<Rightarrow> mach option" and E p self m m'
  assume IH: "\<And>E p self m m'. f E p self m = Some m' \<Longrightarrow> cas_won E p 0 self (trace m) (trace m')"
    and eq: "(let (ok, m) = atomic_cas_u32 E p 0 self m
      in if ok then Some m else f E p self (emit Pause m)) = Some m'"
  obtain ok m1 where c: "cas_loop_u32 E p 0 self 32 m = (ok, m1)" by (cases "cas_loop_u32 E p 0 self 32 m")
  note cc = cas_loop_u32_cases [OF c]
  show "cas_won E p 0 self (trace m) (trace m')"
  proof (cases ok)
    case True
    then show ?thesis using cc eq c by (simp add: atomic_cas_u32_def)
  next
    case False
    with cc obtain xs where xs: "trace m1 = trace m @ xs" "set xs \<subseteq> {Lr32 p, Sc32 p self}"
      "\<forall>i<length xs. xs ! i = Sc32 p self \<longrightarrow> (ucast (E (trace m @ take i xs) (Sc32 p self)) :: u32) \<noteq> 0"
      by blast
    from eq False c have "f E p self (emit Pause m1) = Some m'" by (simp add: atomic_cas_u32_def)
    from IH [OF this] have w: "cas_won E p 0 self (trace m @ (xs @ [Pause])) (trace m')" by (simp add: xs(1))
    show ?thesis
      by (rule cas_won_prefix [OF w]) (use xs in \<open>auto simp: nth_append split: if_splits\<close>)
  qed
qed

section \<open>Properties\<close>

text \<open>C1: mutual exclusion: however the harts interleave, fail their store-conditionals and
  retry, two harts are never inside the critical section together; while a hart is inside, the
  lock word holds its id plus one; and a lock word of zero means nobody is inside.\<close>

theorem mutex_exclusion:
  assumes "lock_reach s"
  shows "(\<forall>h h'. pc s h = Inside \<longrightarrow> pc s h' = Inside \<longrightarrow> h = h') \<and>
    (\<forall>h. pc s h = Inside \<longrightarrow> holder s = h + 1) \<and> (holder s = 0 \<longrightarrow> (\<forall>h. pc s h \<noteq> Inside))"
proof -
  have i: "lock_inv s" by (rule lock_reach_inv [OF assms])
  show ?thesis using lock_inv_unique [OF i] lock_inv_inside [OF i] i
    unfolding lock_inv_def by blast
qed

lemma mutex_exclusion_witness:
  "\<exists>s. lock_reach s \<and> pc s 3 = Inside \<and> pc s 5 = AtLr 32 \<and> holder s = 4"
proof -
  define s1 where "s1 = lock_init\<lparr>pc := (pc lock_init)(3 := AtLr 32)\<rparr>"
  define s2 where "s2 = s1\<lparr>pc := (pc s1)(5 := AtLr 32)\<rparr>"
  define s3 where "s3 = s2\<lparr>reserved := (reserved s2)(3 := True), pc := (pc s2)(3 := AtSc 31)\<rparr>"
  define s4 where "s4 = s3\<lparr>holder := 3 + 1, reserved := (\<lambda>_. False), pc := (pc s3)(3 := Inside)\<rparr>"
  have 1: "lock_reach s1" unfolding s1_def
    by (rule lock_reach.step [OF lock_reach.init], rule lock_step.enter) (simp_all add: lock_init_def)
  have 2: "lock_reach s2" unfolding s2_def
    by (rule lock_reach.step [OF 1], rule lock_step.enter) (simp_all add: s1_def lock_init_def)
  have 3: "lock_reach s3" unfolding s3_def
    by (rule lock_reach.step [OF 2], rule lock_step.lr_free) (simp_all add: s2_def s1_def lock_init_def)
  have 4: "lock_reach s4" unfolding s4_def
    by (rule lock_reach.step [OF 3], rule lock_step.sc_ok) (simp_all add: s3_def)
  have i: "pc s4 3 = Inside" by (simp add: s4_def)
  moreover from mutex_exclusion [OF 4] i have "holder s4 = 3 + 1" by blast
  then have "holder s4 = 4" by simp
  moreover have "pc s4 5 = AtLr 32" by (simp add: s4_def s3_def s2_def)
  ultimately show ?thesis using 4 by blast
qed

text \<open>C28: a call of the lock that returns has acquired it: its last two accesses are a load
  that found the word free and a store-conditional of the caller's hart id plus one that
  succeeded, and every store-conditional it tried before had failed, so it wrote the word
  exactly once; and an unlocked acquisition needs just these two accesses.\<close>

theorem mutex_lock_acquires:
  "(mutex_lock B E pl p m = Some m' \<longrightarrow>
     (let (h, m1) = plat_this_hart B E pl m in cas_won E p 0 (h + 1) (trace m1) (trace m'))) \<and>
   (let (h, m1) = plat_this_hart B E pl m in
      ucast (E (trace m1) (Lr32 p)) = (0 :: u32) \<longrightarrow>
      ucast (E (trace m1 @ [Lr32 p]) (Sc32 p (h + 1))) = (0 :: u32) \<longrightarrow>
      mutex_lock B E pl p m = Some (emits [Lr32 p, Sc32 p (h + 1)] m1))"
proof -
  obtain h m1 where h: "plat_this_hart B E pl m = (h, m1)" by (cases "plat_this_hart B E pl m")
  have "atomic_cas_u32 E p 0 (h + 1) m1 = (True, emits [Lr32 p, Sc32 p (h + 1)] m1)"
    if "ucast (E (trace m1) (Lr32 p)) = (0 :: u32)"
      "ucast (E (trace m1 @ [Lr32 p]) (Sc32 p (h + 1))) = (0 :: u32)"
    using that by (simp add: atomic_cas_u32_def eval_nat_numeral emit_emits)
  then show ?thesis
    using mutex_spin_won [of E p "h + 1" m1 m']
    by (simp add: mutex_lock_def h mutex_spin.simps [of E p "h + 1" m1])
qed

lemma mutex_lock_acquires_witness:
  "mutex_lock MMode (\<lambda>h a. 0) plat_reset 0x80001000 mach0 =
    Some (emits [CsrRd CSR_HARTID, Lr32 0x80001000, Sc32 0x80001000 1] mach0)"
  using mutex_lock_acquires [of MMode "\<lambda>h a. 0" plat_reset "0x80001000" mach0]
  by (simp add: plat_this_hart_def plat_this_hart_m_def emit_emits)

end
