(* ===== verification/Smp.thy ===== *)
theory Smp
  imports Irq
begin

text \<open>
  Multi-hart start and dispatch, \<open>src/smp.c\<close>.  The command slots and running flags are
  lists over the eight hart numbers.  An entry point is a function pointer into the firmware:
  calling it is an entry of the trace.  The start/dispatch protocol is run by the primary and
  the secondaries in a step relation on the shared slots, the pending IPIs, and where each
  secondary is.
\<close>

section \<open>State and operations\<close>

definition SMP_MAX_HARTS :: u32 where "SMP_MAX_HARTS = 8"

record smp =
  cmd_fn :: "u64 list"
  cmd_arg :: "u64 list"
  smp_running :: "u8 list"
  hart_count_v :: u32

definition smp_reset :: smp where
  "smp_reset = \<lparr>cmd_fn = replicate 8 0, cmd_arg = replicate 8 0, smp_running = replicate 8 0,
     hart_count_v = 1\<rparr>"

text \<open>\<open>name_end\<close> repeats the private \<open>skip_name\<close> of the device tree walker.\<close>

partial_function (option) name_end_scan :: "mem \<Rightarrow> fdt \<Rightarrow> u32 \<Rightarrow> u32 option" where
  "name_end_scan M fdt p =
     (if M (struct_blob fdt + ucast p) \<noteq> 0 then name_end_scan M fdt (p + 1) else Some p)"

definition name_end :: "mem \<Rightarrow> fdt \<Rightarrow> u32 \<Rightarrow> u32 option" where
  "name_end M fdt off = do { p \<leftarrow> name_end_scan M fdt (off + 4); Some (align4 (p + 1)) }"

partial_function (option) count_cpu_loop :: "mem \<Rightarrow> fdt \<Rightarrow> u32 \<Rightarrow> u32 \<Rightarrow> u32 option" where
  "count_cpu_loop M fdt off count =
     (if off < struct_size fdt
      then (let tok = fdt_read_be32 M (struct_blob fdt) off in
        if tok = FDT_BEGIN_NODE
        then do {
          dt \<leftarrow> fdt_node_prop M fdt off (bytes_of ''device_type'');
          let count = (case dt of None \<Rightarrow> count
            | Some (p, len) \<Rightarrow> if str_eq M p (bytes_of ''cpu'') then count + 1 else count);
          off \<leftarrow> name_end M fdt off;
          count_cpu_loop M fdt off count }
        else if tok = FDT_END_NODE \<or> tok = FDT_NOP then count_cpu_loop M fdt (off + 4) count
        else if tok = FDT_PROP
        then (let plen = fdt_read_be32 M (struct_blob fdt) (off + 4)
              in count_cpu_loop M fdt (off + 12 + align4 plen) count)
        else Some count)
      else Some count)"

definition count_cpu_nodes :: "mem \<Rightarrow> fdt \<Rightarrow> u32 option" where
  "count_cpu_nodes M fdt = count_cpu_loop M fdt 0 0"

fun bringup_loop :: "priv \<Rightarrow> env \<Rightarrow> u64 \<Rightarrow> u32 \<Rightarrow> u32 list \<Rightarrow> mach \<Rightarrow> mach" where
  "bringup_loop B E entry self [] m = m"
| "bringup_loop B E entry self (h # hs) m =
     (if h = self then bringup_loop B E entry self hs m
      else bringup_loop B E entry self hs (plat_hart_bringup_park B E entry h m))"

definition smp_this_hart :: "priv \<Rightarrow> env \<Rightarrow> plat \<Rightarrow> mach \<Rightarrow> u32 \<times> mach" where
  "smp_this_hart B E P m = plat_this_hart B E P m"

definition smp_hart_count :: "smp \<Rightarrow> u32" where
  "smp_hart_count S = hart_count_v S"

definition smp_init ::
  "priv \<Rightarrow> env \<Rightarrow> u64 \<Rightarrow> u64 \<Rightarrow> mem \<Rightarrow> fdt option \<Rightarrow> plat \<times> smp \<times> mach \<Rightarrow> (plat \<times> smp \<times> mach) option" where
  "smp_init B E ub entry M fdt = (\<lambda>(P, S, m).
     case fdt of None \<Rightarrow> Some (P, S, m)
     | Some fdt \<Rightarrow> do {
         clint_off \<leftarrow> fdt_find_compatible M fdt (bytes_of ''sifive,clint0'');
         P \<leftarrow> (if clint_off \<noteq> UINT32_MAX
               then do { reg \<leftarrow> fdt_node_reg64 M fdt clint_off 0;
                         Some (case reg of None \<Rightarrow> P
                           | Some (at, sz) \<Rightarrow> if at \<noteq> 0 then plat_init B 0 at P else P) }
               else Some P);
         n \<leftarrow> count_cpu_nodes M fdt;
         let n = (if n = 0 then 1 else n);
         (n, m) \<leftarrow> (if n > SMP_MAX_HARTS
                    then do { m \<leftarrow> uart_vprintf E ub
                                (bytes_of ''smp: %u harts in FDT, capped at %u (link.ld stack limit)'' @ [10])

                                [VWord (ucast n), VWord (ucast SMP_MAX_HARTS)] m;
                              Some (SMP_MAX_HARTS, m) }
                    else Some (n, m));
         let S = S\<lparr>hart_count_v := n\<rparr>;
         let (self, m) = plat_this_hart B E P m;
         Some (P, S, bringup_loop B E entry self (map of_nat [0..<unat n]) m) })"

definition smp_start ::
  "priv \<Rightarrow> env \<Rightarrow> plat \<Rightarrow> u32 \<Rightarrow> u64 \<Rightarrow> u64 \<Rightarrow> smp \<Rightarrow> mach \<Rightarrow> bool \<times> smp \<times> mach" where
  "smp_start B E P hartid fn arg S m =
     (if hartid = 0 then (False, S, m)
      else if hartid \<ge> hart_count_v S then (False, S, m)
      else if smp_running S ! unat hartid \<noteq> 0 then (False, S, m)
      else if fn = 0 then (False, S, m)
      else
        (let S = S\<lparr>cmd_fn := (cmd_fn S)[unat hartid := fn]\<rparr>;
             S = S\<lparr>cmd_arg := (cmd_arg S)[unat hartid := arg]\<rparr>;
             S = S\<lparr>smp_running := (smp_running S)[unat hartid := 1]\<rparr>
         in (True, S, plat_ipi_send B E P hartid m)))"

definition smp_is_running :: "u32 \<Rightarrow> smp \<Rightarrow> bool" where
  "smp_is_running hartid S =
     (if hartid \<ge> SMP_MAX_HARTS then False else smp_running S ! unat hartid \<noteq> 0)"

text \<open>Waiting for a hart: \<open>obs k\<close> is the shared state as the \<open>k\<close>-th poll sees it; the result is the
  number of the poll that ended the wait.\<close>

partial_function (option) smp_wait :: "(nat \<Rightarrow> smp) \<Rightarrow> u32 \<Rightarrow> nat \<Rightarrow> nat option" where
  "smp_wait obs hartid k = (if smp_is_running hartid (obs k) then smp_wait obs hartid (Suc k) else Some k)"

text \<open>The dispatcher on a secondary hart up to the call of the entry point, and after it.\<close>

definition dispatch_begin :: "u64 \<Rightarrow> smp \<Rightarrow> (u64 \<times> u64) option" where
  "dispatch_begin hartid S =
     (if hartid \<ge> ucast SMP_MAX_HARTS then None
      else Some (cmd_fn S ! unat hartid, cmd_arg S ! unat hartid))"

definition dispatch_end :: "u64 \<Rightarrow> smp \<Rightarrow> mach \<Rightarrow> smp \<times> mach" where
  "dispatch_end hartid S m =
     (let m = emit Fence m in (S\<lparr>smp_running := (smp_running S)[unat hartid := 0]\<rparr>, m))"

definition smp_secondary_dispatch ::
  "(u64 \<Rightarrow> u64 list \<Rightarrow> smp \<times> mach \<Rightarrow> (smp \<times> mach) option) \<Rightarrow> u64 \<Rightarrow> smp \<Rightarrow> mach \<Rightarrow> (smp \<times> mach) option" where
  "smp_secondary_dispatch call hartid S m =
     (case dispatch_begin hartid S of
        None \<Rightarrow> Some (S, m)
      | Some (fn, arg) \<Rightarrow> do {
          (S, m) \<leftarrow> (if fn \<noteq> 0 then call fn [hartid, arg] (S, emit (CallFn fn [hartid, arg]) m)
                     else Some (S, m));
          Some (dispatch_end hartid S m) })"

section \<open>Counting the harts\<close>

fun count_nodes :: "(token list \<Rightarrow> bool) \<Rightarrow> token list \<Rightarrow> nat" where
  "count_nodes is [] = 0"
| "count_nodes is (t # ts) = (case t of
     TBegin nm \<Rightarrow> (if is ts then 1 else 0) + count_nodes is ts
   | TFin \<Rightarrow> 0
   | _ \<Rightarrow> count_nodes is ts)"

definition node_is_cpu :: "mem \<Rightarrow> fdt \<Rightarrow> token list \<Rightarrow> bool" where
  "node_is_cpu M fdt ts = (case own_prop (name_is M fdt (bytes_of ''device_type'')) ts of
     None \<Rightarrow> False | Some d \<Rightarrow> takeWhile (\<lambda>b. b \<noteq> 0) d = bytes_of ''cpu'')"

definition cstrings_ok :: "mem \<Rightarrow> fdt \<Rightarrow> u8 list \<Rightarrow> token list \<Rightarrow> bool" where
  "cstrings_ok M fdt name ts = list_all (\<lambda>t. case t of
     TProp nameoff d \<Rightarrow> name_is M fdt name nameoff \<longrightarrow> d \<noteq> [] \<and> last d = 0 | _ \<Rightarrow> True) ts"

lemma own_prop_cstring:
  "cstrings_ok M fdt name ts \<Longrightarrow> own_prop (name_is M fdt name) ts = Some d \<Longrightarrow> d \<noteq> [] \<and> last d = 0"
  by (induction ts) (auto simp: cstrings_ok_def split: token.splits if_splits)

lemma name_end_scan_Some:
  assumes "skip_name_scan M fdt p = Some q"
  shows "name_end_scan M fdt p = Some q"
  by (rule skip_name_scan.raw_induct
        [where P = "\<lambda>M fdt p q. name_end_scan M fdt p = Some q", OF _ assms])
     (subst name_end_scan.simps, auto split: if_splits)

lemma skip_name_scan_Some:
  assumes "name_end_scan M fdt p = Some q"
  shows "skip_name_scan M fdt p = Some q"
  by (rule name_end_scan.raw_induct
        [where P = "\<lambda>M fdt p q. skip_name_scan M fdt p = Some q", OF _ assms])
     (subst skip_name_scan.simps, auto split: if_splits)

lemma name_end_scan_eq: "name_end_scan M fdt p = skip_name_scan M fdt p"
  using name_end_scan_Some skip_name_scan_Some by (metis not_Some_eq)

lemma name_end_eq: "name_end = skip_name"
  by (intro ext) (simp add: name_end_def skip_name_def name_end_scan_eq)

lemma cpu_string: "0 \<notin> set (bytes_of ''cpu'')"
  by (simp add: bytes_of_def byte_of_char_def)

lemma device_type_at:
  assumes h: "holds M fdt off (TBegin nm # ts)"
    and ok: "cstrings_ok M fdt (bytes_of ''device_type'') ts"
  obtains r where "fdt_node_prop M fdt off (bytes_of ''device_type'') = Some r"
    "(case r of None \<Rightarrow> count | Some (p, len) \<Rightarrow>
        if str_eq M p (bytes_of ''cpu'') then count + 1 else count)
      = count + (if node_is_cpu M fdt ts then 1 else (0 :: u32))"
proof -
  obtain r where r: "fdt_node_prop M fdt off (bytes_of ''device_type'') = Some r"
    "prop_points M (own_prop (name_is M fdt (bytes_of ''device_type'')) ts) r"
    using fdt_node_prop_at [OF h] by blast
  show thesis
  proof (cases "own_prop (name_is M fdt (bytes_of ''device_type'')) ts")
    case None
    with r show ?thesis using that [OF r(1)] by (simp add: prop_points_def node_is_cpu_def)
  next
    case (Some d)
    with r obtain p where p: "r = Some (p, of_nat (length d))" "bytes_at M p d"
      by (auto simp: prop_points_def)
    note sp = terminated_split(1) [of d]
    have "bytes_at M p (takeWhile (\<lambda>b. b \<noteq> 0) d @ 0 #
        drop (Suc (length (takeWhile (\<lambda>b. b \<noteq> (0 :: u8)) d))) d)"
      using p(2) own_prop_cstring [OF ok Some] sp by metis
    then have "str_eq M p (bytes_of ''cpu'') = (takeWhile (\<lambda>b. b \<noteq> 0) d = bytes_of ''cpu'')"
      by (rule str_eq_at) (use cpu_string in \<open>auto dest: set_takeWhileD\<close>)
    then show ?thesis using that [OF r(1)] Some p(1) by (simp add: node_is_cpu_def)
  qed
qed

lemma count_cpu_loop_at:
  "holds M fdt off ts \<Longrightarrow> cstrings_ok M fdt (bytes_of ''device_type'') ts \<Longrightarrow>
    count_cpu_loop M fdt off count = Some (count + of_nat (count_nodes (node_is_cpu M fdt) ts))"
proof (induction ts arbitrary: off count)
  case Nil
  then show ?case by (subst count_cpu_loop.simps) (simp add: holds_end)
next
  case (Cons t ts)
  note lt = holds_less [OF Cons.prems(1)] and tg = holds_tag [OF Cons.prems(1)]
  have ok: "cstrings_ok M fdt (bytes_of ''device_type'') ts" using Cons.prems(2) by (simp add: cstrings_ok_def)
  note IH = Cons.IH [OF holds_next [OF Cons.prems(1)] ok]
  show ?case
  proof (cases t)
    case (TBegin nm)
    note h = Cons.prems(1) [unfolded TBegin]
    obtain r where r: "fdt_node_prop M fdt off (bytes_of ''device_type'') = Some r"
      "(case r of None \<Rightarrow> count | Some (p, len) \<Rightarrow>
          if str_eq M p (bytes_of ''cpu'') then count + 1 else count)
        = count + (if node_is_cpu M fdt ts then 1 else 0)"
      by (rule device_type_at [OF h ok])
    show ?thesis using lt tg TBegin IH skip_name_at [OF h]
      by (subst count_cpu_loop.simps) (simp add: r name_end_eq fdt_tokens Let_def algebra_simps)
  next
    case (TProp nameoff d)
    show ?thesis using lt tg TProp IH prop_fields(1,4) [OF Cons.prems(1) [unfolded TProp]]
      by (subst count_cpu_loop.simps) (simp add: fdt_tokens Let_def add.assoc)
  qed (use lt tg IH in \<open>subst count_cpu_loop.simps, simp add: fdt_tokens Let_def\<close>)+
qed

section \<open>The start and dispatch protocol\<close>

text \<open>The protocol one memory access at a time.  The primary is the hart that calls
  \<open>smp_start\<close>; \<open>starter\<close> is where it stands in it: before the guards (which read the running
  flag), before each of the three stores, before the fence and the interrupt.  Each secondary
  stands in the park loop, before the reads of its slot, before the call, inside the entry
  point, or before the store that clears its flag.\<close>

datatype starter =
  SIdle | SCheck u32 u64 u64 | SFn u32 u64 u64 | SArg u32 u64 u64 | SRun u32 u64 u64 | SIpi u32 u64 u64

datatype hart_at = Parked | Woken | GotFn u64 | GotCmd u64 u64 | InEntry u64 u64 | Leaving

record smp_sys =
  shared :: smp
  starter :: starter
  ipi_pending :: "u32 \<Rightarrow> bool"
  hart_at :: "u32 \<Rightarrow> hart_at"
  accepted :: "(u32 \<times> u64 \<times> u64) list"
  executed :: "(u32 \<times> u64 \<times> u64) list"

definition smp_sys_init :: "u32 \<Rightarrow> smp_sys" where
  "smp_sys_init n = \<lparr>shared = smp_reset\<lparr>hart_count_v := n\<rparr>, starter = SIdle,
     ipi_pending = (\<lambda>_. False), hart_at = (\<lambda>_. Parked), accepted = [], executed = []\<rparr>"

text \<open>The four guards of \<open>smp_start\<close>; a call is accepted when they pass.\<close>

definition start_admits :: "u32 \<Rightarrow> u64 \<Rightarrow> smp \<Rightarrow> bool" where
  "start_admits h fn S =
     (h \<noteq> 0 \<and> h < hart_count_v S \<and> smp_running S ! unat h = 0 \<and> fn \<noteq> 0)"

text \<open>The only interrupts are those of \<open>smp_start\<close>; \<open>smp_stale_command\<close> below is about others.\<close>

inductive smp_step :: "smp_sys \<Rightarrow> smp_sys \<Rightarrow> bool" where
  call: "starter s = SIdle \<Longrightarrow> smp_step s (s\<lparr>starter := SCheck h fn arg\<rparr>)"
| refuse: "starter s = SCheck h fn arg \<Longrightarrow> \<not> start_admits h fn (shared s) \<Longrightarrow>
    smp_step s (s\<lparr>starter := SIdle\<rparr>)"
| admit: "starter s = SCheck h fn arg \<Longrightarrow> start_admits h fn (shared s) \<Longrightarrow>
    smp_step s (s\<lparr>starter := SFn h fn arg, accepted := accepted s @ [(h, fn, arg)]\<rparr>)"
| store_fn: "starter s = SFn h fn arg \<Longrightarrow>
    smp_step s (s\<lparr>starter := SArg h fn arg,
      shared := (shared s)\<lparr>cmd_fn := (cmd_fn (shared s))[unat h := fn]\<rparr>\<rparr>)"
| store_arg: "starter s = SArg h fn arg \<Longrightarrow>
    smp_step s (s\<lparr>starter := SRun h fn arg,
      shared := (shared s)\<lparr>cmd_arg := (cmd_arg (shared s))[unat h := arg]\<rparr>\<rparr>)"
| store_running: "starter s = SRun h fn arg \<Longrightarrow>
    smp_step s (s\<lparr>starter := SIpi h fn arg,
      shared := (shared s)\<lparr>smp_running := (smp_running (shared s))[unat h := 1]\<rparr>\<rparr>)"
| send_ipi: "starter s = SIpi h fn arg \<Longrightarrow>
    smp_step s (s\<lparr>starter := SIdle, ipi_pending := (ipi_pending s)(h := True)\<rparr>)"
| wake: "hart_at s h = Parked \<Longrightarrow> ipi_pending s h \<Longrightarrow> h < SMP_MAX_HARTS \<Longrightarrow>
    smp_step s (s\<lparr>ipi_pending := (ipi_pending s)(h := False), hart_at := (hart_at s)(h := Woken)\<rparr>)"
| load_fn: "hart_at s h = Woken \<Longrightarrow>
    smp_step s (s\<lparr>hart_at := (hart_at s)(h := GotFn (cmd_fn (shared s) ! unat h))\<rparr>)"
| load_arg: "hart_at s h = GotFn fn \<Longrightarrow>
    smp_step s (s\<lparr>hart_at := (hart_at s)(h := GotCmd fn (cmd_arg (shared s) ! unat h))\<rparr>)"
| enter: "hart_at s h = GotCmd fn arg \<Longrightarrow> fn \<noteq> 0 \<Longrightarrow>
    smp_step s (s\<lparr>hart_at := (hart_at s)(h := InEntry fn arg),
                  executed := executed s @ [(h, fn, arg)]\<rparr>)"
| skip: "hart_at s h = GotCmd fn arg \<Longrightarrow> fn = 0 \<Longrightarrow>
    smp_step s (s\<lparr>hart_at := (hart_at s)(h := Leaving)\<rparr>)"
| return: "hart_at s h = InEntry fn arg \<Longrightarrow>
    smp_step s (s\<lparr>hart_at := (hart_at s)(h := Leaving)\<rparr>)"
| clear_running: "hart_at s h = Leaving \<Longrightarrow>
    smp_step s (s\<lparr>hart_at := (hart_at s)(h := Parked),
      shared := (shared s)\<lparr>smp_running := (smp_running (shared s))[unat h := 0]\<rparr>\<rparr>)"

inductive_cases smp_stepE: "smp_step s t"

inductive smp_reach :: "u32 \<Rightarrow> smp_sys \<Rightarrow> bool" for n where
  init: "smp_reach n (smp_sys_init n)"
| step: "smp_reach n s \<Longrightarrow> smp_step s t \<Longrightarrow> smp_reach n t"

text \<open>Run without interruption, the steps of the primary are \<open>smp_start\<close> and those of a
  secondary are the dispatcher around the call.\<close>

lemma start_admits_smp_start: "fst (smp_start B E P h fn arg S m) = start_admits h fn S"
  by (auto simp: smp_start_def start_admits_def Let_def not_less)

lemma smp_start_refused: "\<not> start_admits h fn S \<Longrightarrow> smp_start B E P h fn arg S m = (False, S, m)"
  by (auto simp: smp_start_def start_admits_def Let_def not_less)

lemma smp_start_accesses:
  assumes "smp_start B E P h fn arg (shared s) m = (True, S, m')" "starter s = SCheck h fn arg"
  shows "smp_step\<^sup>*\<^sup>* s (s\<lparr>starter := SIdle, shared := S, ipi_pending := (ipi_pending s)(h := True),
    accepted := accepted s @ [(h, fn, arg)]\<rparr>)"
proof -
  let ?s1 = "s\<lparr>starter := SFn h fn arg, accepted := accepted s @ [(h, fn, arg)]\<rparr>"
  let ?s2 = "?s1\<lparr>starter := SArg h fn arg,
      shared := (shared ?s1)\<lparr>cmd_fn := (cmd_fn (shared ?s1))[unat h := fn]\<rparr>\<rparr>"
  let ?s3 = "?s2\<lparr>starter := SRun h fn arg,
      shared := (shared ?s2)\<lparr>cmd_arg := (cmd_arg (shared ?s2))[unat h := arg]\<rparr>\<rparr>"
  let ?s4 = "?s3\<lparr>starter := SIpi h fn arg,
      shared := (shared ?s3)\<lparr>smp_running := (smp_running (shared ?s3))[unat h := 1]\<rparr>\<rparr>"
  let ?s5 = "?s4\<lparr>starter := SIdle, ipi_pending := (ipi_pending ?s4)(h := True)\<rparr>"
  have a: "start_admits h fn (shared s)" using assms(1) start_admits_smp_start by (metis fst_conv)
  have S: "S = shared ?s4" using assms(1) by (auto simp: smp_start_def Let_def split: if_splits)
  have "smp_step s ?s1" by (rule smp_step.admit [OF assms(2) a])
  then have "smp_step\<^sup>*\<^sup>* s ?s1" by (rule r_into_rtranclp)
  moreover have "smp_step ?s1 ?s2" by (rule smp_step.store_fn) simp
  ultimately have "smp_step\<^sup>*\<^sup>* s ?s2" by (rule rtranclp.rtrancl_into_rtrancl)
  moreover have "smp_step ?s2 ?s3" by (rule smp_step.store_arg) simp
  ultimately have "smp_step\<^sup>*\<^sup>* s ?s3" by (rule rtranclp.rtrancl_into_rtrancl)
  moreover have "smp_step ?s3 ?s4" by (rule smp_step.store_running) simp
  ultimately have "smp_step\<^sup>*\<^sup>* s ?s4" by (rule rtranclp.rtrancl_into_rtrancl)
  moreover have "smp_step ?s4 ?s5" by (rule smp_step.send_ipi) simp
  ultimately have "smp_step\<^sup>*\<^sup>* s ?s5" by (rule rtranclp.rtrancl_into_rtrancl)
  moreover have "?s5 = s\<lparr>starter := SIdle, shared := S, ipi_pending := (ipi_pending s)(h := True),
      accepted := accepted s @ [(h, fn, arg)]\<rparr>"
    by (rule smp_sys.equality) (simp_all add: S)
  ultimately show ?thesis by simp
qed

lemma dispatch_begin_accesses:
  assumes "dispatch_begin (ucast h) (shared s) = Some (fn, arg)" "hart_at s h = Woken"
  shows "smp_step\<^sup>*\<^sup>* s (s\<lparr>hart_at := (hart_at s)(h := GotCmd fn arg)\<rparr>)"
proof -
  let ?s1 = "s\<lparr>hart_at := (hart_at s)(h := GotFn (cmd_fn (shared s) ! unat h))\<rparr>"
  have "smp_step\<^sup>*\<^sup>* s ?s1" by (rule r_into_rtranclp) (rule smp_step.load_fn [OF assms(2)])
  moreover have "smp_step ?s1 (?s1\<lparr>hart_at := (hart_at ?s1)(h :=
      GotCmd (cmd_fn (shared s) ! unat h) (cmd_arg (shared ?s1) ! unat h))\<rparr>)"
    by (rule smp_step.load_arg) simp
  ultimately have "smp_step\<^sup>*\<^sup>* s (?s1\<lparr>hart_at := (hart_at ?s1)(h :=
      GotCmd (cmd_fn (shared s) ! unat h) (cmd_arg (shared ?s1) ! unat h))\<rparr>)"
    by (rule rtranclp.rtrancl_into_rtrancl)
  moreover have "unat (ucast h :: u64) = unat h"
    using unat_u32_less [of h] by (simp add: unsigned_ucast_eq take_bit_nat_eq_self)
  ultimately show ?thesis using assms(1) by (auto simp: dispatch_begin_def split: if_splits)
qed

section \<open>The invariant\<close>

definition on_hart :: "u32 \<Rightarrow> (u32 \<times> u64 \<times> u64) list \<Rightarrow> (u32 \<times> u64 \<times> u64) list" where
  "on_hart h cs = filter (\<lambda>c. fst c = h) cs"

definition slot_of :: "u32 \<Rightarrow> smp \<Rightarrow> u32 \<times> u64 \<times> u64" where
  "slot_of h S = (h, cmd_fn S ! unat h, cmd_arg S ! unat h)"

text \<open>The command the primary is in the middle of storing.\<close>

fun starting :: "starter \<Rightarrow> (u32 \<times> u64 \<times> u64) option" where
  "starting SIdle = None"
| "starting (SCheck h fn arg) = None"
| "starting (SFn h fn arg) = Some (h, fn, arg)"
| "starting (SArg h fn arg) = Some (h, fn, arg)"
| "starting (SRun h fn arg) = Some (h, fn, arg)"
| "starting (SIpi h fn arg) = Some (h, fn, arg)"

definition start_busy :: "u32 \<Rightarrow> smp_sys \<Rightarrow> bool" where
  "start_busy h s = (\<exists>c. starting (starter s) = Some c \<and> fst c = h)"

definition reading :: "hart_at \<Rightarrow> bool" where
  "reading a = (case a of Woken \<Rightarrow> True | GotFn _ \<Rightarrow> True | GotCmd _ _ \<Rightarrow> True | _ \<Rightarrow> False)"

text \<open>What is accepted for a hart and not yet called.\<close>

definition queued :: "u32 \<Rightarrow> smp_sys \<Rightarrow> (u32 \<times> u64 \<times> u64) list" where
  "queued h s =
     (if start_busy h s then [the (starting (starter s))]
      else if ipi_pending s h \<or> reading (hart_at s h) then [slot_of h (shared s)] else [])"

definition slot_progress :: "starter \<Rightarrow> smp \<Rightarrow> bool" where
  "slot_progress at S = (case at of
      SIdle \<Rightarrow> True | SCheck h fn arg \<Rightarrow> True
    | SFn h fn arg \<Rightarrow> fn \<noteq> 0 \<and> h < 8
    | SArg h fn arg \<Rightarrow> fn \<noteq> 0 \<and> h < 8 \<and> cmd_fn S ! unat h = fn
    | SRun h fn arg \<Rightarrow> fn \<noteq> 0 \<and> h < 8 \<and> slot_of h S = (h, fn, arg)
    | SIpi h fn arg \<Rightarrow> fn \<noteq> 0 \<and> h < 8 \<and> slot_of h S = (h, fn, arg) \<and>
        smp_running S ! unat h \<noteq> 0)"

definition hart_inv :: "smp_sys \<Rightarrow> u32 \<Rightarrow> bool" where
  "hart_inv s h =
     ((start_busy h s \<longrightarrow> \<not> ipi_pending s h \<and> hart_at s h = Parked) \<and>
      (ipi_pending s h \<longrightarrow> hart_at s h = Parked) \<and>
      (ipi_pending s h \<or> hart_at s h \<noteq> Parked \<longrightarrow> smp_running (shared s) ! unat h \<noteq> 0) \<and>
      (ipi_pending s h \<or> reading (hart_at s h) \<longrightarrow> cmd_fn (shared s) ! unat h \<noteq> 0) \<and>
      (\<forall>fn. hart_at s h = GotFn fn \<longrightarrow> cmd_fn (shared s) ! unat h = fn) \<and>
      (\<forall>fn arg. hart_at s h = GotCmd fn arg \<longrightarrow> slot_of h (shared s) = (h, fn, arg)) \<and>
      on_hart h (accepted s) = on_hart h (executed s) @ queued h s)"

definition smp_inv :: "u32 \<Rightarrow> smp_sys \<Rightarrow> bool" where
  "smp_inv n s = (length (cmd_fn (shared s)) = 8 \<and> length (cmd_arg (shared s)) = 8 \<and>
     length (smp_running (shared s)) = 8 \<and> hart_count_v (shared s) = n \<and> slot_progress (starter s) (shared s) \<and>
     (\<forall>h. ipi_pending s h \<or> hart_at s h \<noteq> Parked \<longrightarrow> h < 8) \<and> (\<forall>h<8. hart_inv s h))"

lemmas smp_protocol_defs = hart_inv_def start_busy_def reading_def queued_def slot_of_def

lemma on_hart_snoc: "on_hart h (cs @ [c]) = on_hart h cs @ (if fst c = h then [c] else [])"
  by (simp add: on_hart_def)

lemma unat_lt8: "(h :: u32) < 8 \<longleftrightarrow> unat h < 8"
  by (simp add: word_less_nat_alt)

lemma unat_eq_hart: "unat (h :: u32) = unat k \<longleftrightarrow> h = k"
  by (simp add: word_unat_eq_iff)

lemma smp_inv_init: "smp_inv n (smp_sys_init n)"
  by (simp add: smp_inv_def smp_protocol_defs slot_progress_def smp_sys_init_def smp_reset_def on_hart_def)

lemma hart_inv_frame:
  assumes "hart_inv s k" "ipi_pending t k = ipi_pending s k" "hart_at t k = hart_at s k"
    "smp_running (shared t) ! unat k = smp_running (shared s) ! unat k"
    "slot_of k (shared t) = slot_of k (shared s)" "on_hart k (accepted t) = on_hart k (accepted s)"
    "on_hart k (executed t) = on_hart k (executed s)"
    "start_busy k t = start_busy k s" "start_busy k s \<Longrightarrow> starting (starter t) = starting (starter s)"
  shows "hart_inv t k"
  using assms by (simp add: hart_inv_def queued_def slot_of_def)

lemma smp_inv_dest:
  assumes "smp_inv n s"
  shows "length (cmd_fn (shared s)) = 8" "length (cmd_arg (shared s)) = 8"
    "length (smp_running (shared s)) = 8" "hart_count_v (shared s) = n" "slot_progress (starter s) (shared s)"
    "ipi_pending s h \<Longrightarrow> h < 8" "hart_at s h \<noteq> Parked \<Longrightarrow> h < 8" "h < 8 \<Longrightarrow> hart_inv s h"
  using assms by (auto simp: smp_inv_def)

text \<open>A step touches one hart: the others keep their invariant by the frame rule.\<close>

lemma smp_inv_touch:
  assumes i: "smp_inv n s"
    and len: "length (cmd_fn (shared t)) = 8" "length (cmd_arg (shared t)) = 8"
      "length (smp_running (shared t)) = 8" "hart_count_v (shared t) = n"
    and prog: "slot_progress (starter t) (shared t)" and h8: "h < 8" and hi: "hart_inv t h"
    and fr: "\<And>k. k \<noteq> h \<Longrightarrow> ipi_pending t k = ipi_pending s k \<and> hart_at t k = hart_at s k \<and>
      smp_running (shared t) ! unat k = smp_running (shared s) ! unat k \<and>
      slot_of k (shared t) = slot_of k (shared s) \<and> on_hart k (accepted t) = on_hart k (accepted s) \<and>
      on_hart k (executed t) = on_hart k (executed s) \<and> start_busy k t = start_busy k s \<and>
      (start_busy k s \<longrightarrow> starting (starter t) = starting (starter s))"
  shows "smp_inv n t"
proof -
  have "hart_inv t k" if "k < 8" for k
  proof (cases "k = h")
    case False
    show ?thesis by (rule hart_inv_frame [OF smp_inv_dest(8) [OF i that]]) (use fr [OF False] in auto)
  qed (use hi in simp)
  moreover have "k < 8" if "ipi_pending t k \<or> hart_at t k \<noteq> Parked" for k
    using that fr [of k] h8 smp_inv_dest(6,7) [OF i, of k] by (cases "k = h") auto
  ultimately show ?thesis using len prog by (auto simp: smp_inv_def)
qed

lemma smp_inv_starter:
  assumes i: "smp_inv n s" and n: "n \<le> 8" and st: "smp_step s t" and c: "hart_at t = hart_at s" "starter t \<noteq> starter s"
  shows "smp_inv n t"
  using st
proof cases
  case (call h fn arg)
  have "hart_inv t k = hart_inv s k" for k using call by (simp add: smp_protocol_defs slot_progress_def)
  then show ?thesis using i call by (simp add: smp_inv_def slot_progress_def)
next
  case (refuse h fn arg)
  have "hart_inv t k = hart_inv s k" for k using refuse by (simp add: smp_protocol_defs slot_progress_def)
  then show ?thesis using i refuse by (simp add: smp_inv_def slot_progress_def)
next
  case (admit h fn arg)
  note d = smp_inv_dest [OF i]
  have h8: "h < 8" using admit(3) n d(4) by (auto simp: start_admits_def)
  show ?thesis
    using d(8) [OF h8] d(1-4) h8 admit(3)
    by (intro smp_inv_touch [OF i, of t h])
      (auto simp: admit(1,2) smp_protocol_defs slot_progress_def on_hart_snoc start_admits_def)
next
  case (store_fn h fn arg)
  note d = smp_inv_dest [OF i]
  have h8: "h < 8" and u8: "unat h < 8" using d(5) store_fn by (auto simp: slot_progress_def unat_lt8)
  show ?thesis
    using d(8) [OF h8] d(1-5) h8 u8
    by (intro smp_inv_touch [OF i, of t h])
      (auto simp: store_fn smp_protocol_defs slot_progress_def unat_eq_hart nth_list_update)
next
  case (store_arg h fn arg)
  note d = smp_inv_dest [OF i]
  have h8: "h < 8" and u8: "unat h < 8" using d(5) store_arg by (auto simp: slot_progress_def unat_lt8)
  show ?thesis
    using d(8) [OF h8] d(1-5) h8 u8
    by (intro smp_inv_touch [OF i, of t h])
      (auto simp: store_arg smp_protocol_defs slot_progress_def unat_eq_hart nth_list_update)
next
  case (store_running h fn arg)
  note d = smp_inv_dest [OF i]
  have h8: "h < 8" and u8: "unat h < 8" using d(5) store_running by (auto simp: slot_progress_def unat_lt8)
  show ?thesis
    using d(8) [OF h8] d(1-5) h8 u8
    by (intro smp_inv_touch [OF i, of t h])
      (auto simp: store_running smp_protocol_defs slot_progress_def unat_eq_hart nth_list_update)
next
  case (send_ipi h fn arg)
  note d = smp_inv_dest [OF i]
  have h8: "h < 8" and u8: "unat h < 8" using d(5) send_ipi by (auto simp: slot_progress_def unat_lt8)
  show ?thesis
    using d(8) [OF h8] d(1-5) h8 u8
    by (intro smp_inv_touch [OF i, of t h]) (auto simp: send_ipi smp_protocol_defs slot_progress_def)
qed (use c in auto)

lemma smp_inv_hart_step:
  assumes i: "smp_inv n s" and st: "smp_step s t" and c: "starter t = starter s"
  shows "smp_inv n t"
  using st
proof cases
  case (wake h)
  note d = smp_inv_dest [OF i]
  have h8: "h < 8" by (rule d(6) [OF wake(3)])
  show ?thesis using d(8) [OF h8] d(1-5) h8 wake(2,3)
    by (intro smp_inv_touch [OF i, of t h]) (auto simp: wake(1) smp_protocol_defs)
next
  case (load_fn h)
  note d = smp_inv_dest [OF i]
  have h8: "h < 8" by (rule d(7)) (simp add: load_fn(2))
  show ?thesis using d(8) [OF h8] d(1-5) h8 load_fn(2)
    by (intro smp_inv_touch [OF i, of t h]) (auto simp: load_fn(1) smp_protocol_defs)
next
  case (load_arg h fn)
  note d = smp_inv_dest [OF i]
  have h8: "h < 8" by (rule d(7)) (simp add: load_arg(2))
  show ?thesis using d(8) [OF h8] d(1-5) h8 load_arg(2)
    by (intro smp_inv_touch [OF i, of t h]) (auto simp: load_arg(1) smp_protocol_defs)
next
  case (enter h fn arg)
  note d = smp_inv_dest [OF i]
  have h8: "h < 8" by (rule d(7)) (simp add: enter(2))
  show ?thesis using d(8) [OF h8] d(1-5) h8 enter(2,3)
    by (intro smp_inv_touch [OF i, of t h]) (auto simp: enter(1) smp_protocol_defs on_hart_snoc)
next
  case (skip h fn arg)
  note d = smp_inv_dest [OF i]
  have h8: "h < 8" by (rule d(7)) (simp add: skip(2))
  show ?thesis using d(8) [OF h8] d(1-5) h8 skip(2,3)
    by (intro smp_inv_touch [OF i, of t h]) (auto simp: skip(1) smp_protocol_defs)
next
  case (return h fn arg)
  note d = smp_inv_dest [OF i]
  have h8: "h < 8" by (rule d(7)) (simp add: return(2))
  show ?thesis using d(8) [OF h8] d(1-5) h8 return(2)
    by (intro smp_inv_touch [OF i, of t h]) (auto simp: return(1) smp_protocol_defs)
next
  case (clear_running h)
  note d = smp_inv_dest [OF i]
  have h8: "h < 8" and u8: "unat h < 8" using d(7) [of h] by (auto simp: clear_running(2) unat_lt8)
  show ?thesis using d(8) [OF h8] d(1-5) h8 u8 clear_running(2)
    by (intro smp_inv_touch [OF i, of t h])
      (auto simp: clear_running(1) smp_protocol_defs slot_progress_def unat_eq_hart nth_list_update split: starter.splits)
qed (use c in auto)

lemma smp_inv_step: "smp_step s t \<Longrightarrow> smp_inv n s \<Longrightarrow> n \<le> 8 \<Longrightarrow> smp_inv n t"
  by (cases "starter t = starter s")
    (blast intro: smp_inv_hart_step, rule smp_inv_starter, auto elim!: smp_stepE)

lemma smp_reach_inv: "smp_reach n s \<Longrightarrow> n \<le> 8 \<Longrightarrow> smp_inv n s"
  by (induction rule: smp_reach.induct) (auto intro: smp_inv_init smp_inv_step)

section \<open>Properties\<close>

text \<open>C2: the primary runs any sequence of \<open>smp_start\<close> calls and the secondaries their
  dispatchers; however the single accesses of the harts interleave (the guards, the stores of
  the function, the argument and the running flag, the interrupt, the wake-up, the loads of the
  function and of the argument, the call, the return, the clearing of the flag), every
  secondary calls exactly the commands that were accepted for it, each once, in order and with
  its own argument: what it has called is what was accepted, except for at most the one command
  that the primary is still storing or that waits in the slot.  When the primary is not storing
  a command for the hart, a clear running flag means that every accepted command has been called
  and the hart is back in its park loop.  Accesses of a hart take effect in program order; there
  is one caller of \<open>smp_start\<close>, and no interrupt from elsewhere.\<close>

theorem smp_commands_once:
  assumes "smp_reach n s" "n \<le> 8" "h < 8"
  shows "on_hart h (accepted s) = on_hart h (executed s) @ queued h s \<and> length (queued h s) \<le> 1 \<and>
    (\<not> smp_is_running h (shared s) \<and> \<not> start_busy h s \<longrightarrow>
       on_hart h (executed s) = on_hart h (accepted s) \<and> hart_at s h = Parked)"
proof -
  have i: "hart_inv s h" by (rule smp_inv_dest(8) [OF smp_reach_inv [OF assms(1,2)] assms(3)])
  then show ?thesis using assms(3)
    by (auto simp: smp_protocol_defs smp_is_running_def SMP_MAX_HARTS_def)
qed

lemma smp_reach_steps: "smp_step\<^sup>*\<^sup>* s t \<Longrightarrow> smp_reach n s \<Longrightarrow> smp_reach n t"
  by (induction rule: rtranclp_induct) (auto intro: smp_reach.step)

text \<open>A run that has called one command on hart 3 and has a second one waiting for hart 2, whose
  dispatcher has been woken.\<close>

lemma smp_commands_once_witness:
  "\<exists>s. smp_reach 4 s \<and> accepted s = [(3, 0x8000, 7), (2, 0x9000, 8)] \<and>
     on_hart 3 (executed s) = [(3, 0x8000, 7)] \<and> queued 2 s = [(2, 0x9000, 8)] \<and>
     on_hart 2 (accepted s) = on_hart 2 (executed s) @ queued 2 s"
proof -
  let ?s0 = "smp_sys_init 4\<lparr>starter := SCheck 3 0x8000 7\<rparr>"
  have r0: "smp_reach 4 ?s0"
    by (rule smp_reach.step [OF smp_reach.init smp_step.call]) (simp add: smp_sys_init_def)
  obtain S1 m1 where st1: "smp_start MMode (\<lambda>h a. 0) plat_reset 3 0x8000 7 (shared ?s0) mach0 = (True, S1, m1)"
    and S1: "S1 = smp_reset\<lparr>hart_count_v := 4, cmd_fn := (cmd_fn smp_reset)[3 := 0x8000],
      cmd_arg := (cmd_arg smp_reset)[3 := 7], smp_running := (smp_running smp_reset)[3 := 1]\<rparr>"
    by (simp add: smp_sys_init_def smp_start_def smp_reset_def Let_def)
  define s1 where "s1 = ?s0\<lparr>starter := SIdle, shared := S1, ipi_pending := (ipi_pending ?s0)(3 := True),
    accepted := accepted ?s0 @ [(3, 0x8000, 7)]\<rparr>"
  have r1: "smp_reach 4 s1"
    unfolding s1_def by (rule smp_reach_steps [OF smp_start_accesses [OF st1] r0]) simp
  define s2 where "s2 = s1\<lparr>ipi_pending := (ipi_pending s1)(3 := False), hart_at := (hart_at s1)(3 := Woken)\<rparr>"
  have r2: "smp_reach 4 s2" unfolding s2_def
    by (rule smp_reach.step [OF r1 smp_step.wake]) (simp_all add: s1_def smp_sys_init_def SMP_MAX_HARTS_def)
  have "dispatch_begin (ucast (3 :: u32)) (shared s2) = Some (0x8000, 7)"
    by (simp add: dispatch_begin_def SMP_MAX_HARTS_def s2_def s1_def S1 smp_reset_def)
  define s3 where "s3 = s2\<lparr>hart_at := (hart_at s2)(3 := GotCmd 0x8000 7)\<rparr>"
  have r3: "smp_reach 4 s3" unfolding s3_def
    by (rule smp_reach_steps [OF dispatch_begin_accesses r2]) (simp_all add: dispatch_begin_def SMP_MAX_HARTS_def s2_def s1_def S1 smp_reset_def)
  define s4 where "s4 = s3\<lparr>hart_at := (hart_at s3)(3 := InEntry 0x8000 7),
    executed := executed s3 @ [(3, 0x8000, 7)]\<rparr>"
  have r4: "smp_reach 4 s4" unfolding s4_def
    by (rule smp_reach.step [OF r3 smp_step.enter]) (simp_all add: s3_def)
  define s5 where "s5 = s4\<lparr>starter := SCheck 2 0x9000 8\<rparr>"
  have r5: "smp_reach 4 s5" unfolding s5_def
    by (rule smp_reach.step [OF r4 smp_step.call]) (simp add: s4_def s3_def s2_def s1_def)
  obtain S6 m6 where st6: "smp_start MMode (\<lambda>h a. 0) plat_reset 2 0x9000 8 (shared s5) mach0 = (True, S6, m6)"
    and S6: "S6 = S1\<lparr>cmd_fn := (cmd_fn S1)[2 := 0x9000],
      cmd_arg := (cmd_arg S1)[2 := 8], smp_running := (smp_running S1)[2 := 1]\<rparr>"
    by (simp add: s5_def s4_def s3_def s2_def s1_def S1 smp_start_def smp_reset_def Let_def)
  define s6 where "s6 = s5\<lparr>starter := SIdle, shared := S6, ipi_pending := (ipi_pending s5)(2 := True),
    accepted := accepted s5 @ [(2, 0x9000, 8)]\<rparr>"
  have r6: "smp_reach 4 s6"
    unfolding s6_def by (rule smp_reach_steps [OF smp_start_accesses [OF st6] r5]) (simp add: s5_def)
  define s7 where "s7 = s6\<lparr>ipi_pending := (ipi_pending s6)(2 := False), hart_at := (hart_at s6)(2 := Woken)\<rparr>"
  have r7: "smp_reach 4 s7" unfolding s7_def
    by (rule smp_reach.step [OF r6 smp_step.wake])
      (simp_all add: s6_def s5_def s4_def s3_def s2_def s1_def smp_sys_init_def SMP_MAX_HARTS_def)
  note defs = s7_def s6_def s5_def s4_def s3_def s2_def s1_def smp_sys_init_def
  have "on_hart 2 (accepted s7) = on_hart 2 (executed s7) @ queued 2 s7"
    by (rule smp_commands_once [OF r7, THEN conjunct1]) simp_all
  moreover have "accepted s7 = [(3, 0x8000, 7), (2, 0x9000, 8)]" "executed s7 = [(3, 0x8000, 7)]"
    by (simp_all add: defs)
  moreover have "queued 2 s7 = [(2, 0x9000, 8)]"
    by (simp add: queued_def start_busy_def reading_def slot_of_def defs S6 S1 smp_reset_def)
  ultimately show ?thesis using r7 by (intro exI [of _ s7]) (simp add: on_hart_def)
qed

section \<open>Discovery\<close>

text \<open>The body of the first node that satisfies a predicate.\<close>

fun first_node :: "(token list \<Rightarrow> bool) \<Rightarrow> token list \<Rightarrow> token list option" where
  "first_node is [] = None"
| "first_node is (t # ts) = (case t of
     TBegin nm \<Rightarrow> if is ts then Some ts else first_node is ts
   | TFin \<Rightarrow> None
   | _ \<Rightarrow> first_node is ts)"

lemma find_node_first:
  "holds M fdt off ts \<Longrightarrow>
    (case first_node is ts of
       None \<Rightarrow> find_node (\<lambda>_. is) off ts = UINT32_MAX
     | Some body \<Rightarrow> find_node (\<lambda>_. is) off ts \<noteq> UINT32_MAX \<and>
         (\<exists>nm. holds M fdt (find_node (\<lambda>_. is) off ts) (TBegin nm # body)))"
proof (induction ts arbitrary: off)
  case (Cons t ts)
  note IH = Cons.IH [OF holds_next [OF Cons.prems]]
  have "unat off + 4 < 2 ^ 32" using holds_bound [OF Cons.prems] length_enc_pos [of t] by simp
  then have "off \<noteq> UINT32_MAX" by auto
  then show ?case using Cons.prems IH by (cases t) (auto split: option.splits)
qed simp

text \<open>The address in the first \<open>reg\<close> entry of the first \<open>sifive,clint0\<close> node, 0 without one.\<close>

definition clint_addr :: "mem \<Rightarrow> fdt \<Rightarrow> token list \<Rightarrow> nat" where
  "clint_addr M fdt ts =
     (case first_node (node_compatible M fdt (bytes_of ''sifive,clint0'')) ts of None \<Rightarrow> 0
      | Some body \<Rightarrow> (case own_prop (name_is M fdt (bytes_of ''reg'')) body of None \<Rightarrow> 0
          | Some d \<Rightarrow> if length d < 16 then 0 else be_val (take 8 d)))"

lemma clint_lookup:
  assumes h: "holds M fdt 0 ts" and lo: "lists_ok M fdt (bytes_of ''compatible'') ts"
  obtains off reg where "fdt_find_compatible M fdt (bytes_of ''sifive,clint0'') = Some off"
    "off \<noteq> UINT32_MAX \<longrightarrow> fdt_node_reg64 M fdt off 0 = Some reg"
    "(if off \<noteq> UINT32_MAX then (case reg of None \<Rightarrow> P
        | Some (at, sz) \<Rightarrow> if at \<noteq> 0 then plat_init B 0 at P else P) else P)
      = (if clint_addr M fdt ts = 0 then P else plat_init B 0 (of_nat (clint_addr M fdt ts)) P)"
proof -
  let ?is = "node_compatible M fdt (bytes_of ''sifive,clint0'')"
  let ?off = "find_node (\<lambda>_. ?is) 0 ts"
  have nz: "0 \<notin> set (bytes_of ''sifive,clint0'')" by (simp add: bytes_of_def byte_of_char_def)
  have f: "fdt_find_compatible M fdt (bytes_of ''sifive,clint0'') = Some ?off"
    using fdt_find_compatible_loop_at [OF nz h lo] by (simp add: fdt_find_compatible_def)
  show thesis
  proof (cases "first_node ?is ts")
    case None
    then have "?off = UINT32_MAX" using find_node_first [OF h, of ?is] by simp
    then show ?thesis using that [OF f] None by (simp add: clint_addr_def)
  next
    case (Some body)
    then obtain nm where b: "?off \<noteq> UINT32_MAX" "holds M fdt ?off (TBegin nm # body)"
      using find_node_first [OF h, of ?is] by auto
    have r0: "\<exists>r. fdt_node_reg64 M fdt ?off 0 = Some r \<and>
      (case own_prop (name_is M fdt (bytes_of ''reg'')) body of
         None \<Rightarrow> r = None
       | Some d \<Rightarrow> if length d < 16 then r = None
           else \<exists>a s. r = Some (a, s) \<and> unat a = be_val (take 8 d) \<and>
             unat s = be_val (take 8 (drop 8 d)))"
      using fdt_node_reg64_at [OF b(2), of 0] by (simp cong: option.case_cong if_cong)
    then obtain reg where reg: "fdt_node_reg64 M fdt ?off 0 = Some reg"
      "case own_prop (name_is M fdt (bytes_of ''reg'')) body of
         None \<Rightarrow> reg = None
       | Some d \<Rightarrow> if length d < 16 then reg = None
           else \<exists>a s. reg = Some (a, s) \<and> unat a = be_val (take 8 d) \<and>
             unat s = be_val (take 8 (drop 8 d))"
      by blast
    have "(case reg of None \<Rightarrow> P | Some (at, sz) \<Rightarrow> if at \<noteq> 0 then plat_init B 0 at P else P)
      = (if clint_addr M fdt ts = 0 then P else plat_init B 0 (of_nat (clint_addr M fdt ts)) P)"
    proof (cases "own_prop (name_is M fdt (bytes_of ''reg'')) body")
      case None
      then show ?thesis using reg(2) Some by (simp add: clint_addr_def)
    next
      case own: (Some d)
      show ?thesis
      proof (cases "length d < 16")
        case False
        then obtain a z where az: "reg = Some (a, z)" "unat a = be_val (take 8 d)"
          using reg(2) own by auto
        have "clint_addr M fdt ts = unat a" using Some own False az(2) by (simp add: clint_addr_def)
        then show ?thesis by (simp add: az(1) unat_eq_0)
      qed (use reg(2) own Some in \<open>simp add: clint_addr_def\<close>)
    qed
    then show ?thesis using that [OF f, of reg] reg(1) b(1) by simp
  qed
qed

text \<open>C29: on a device tree that encodes a token list, with a live console, the discovery of
  the harts returns; it sets the hart count to the number of nodes whose \<open>device_type\<close> is
  \<open>cpu\<close>, raised to 1 and capped at the number of stacks, and passes the address in the \<open>reg\<close>
  property of the first \<open>sifive,clint0\<close> node, when there is one and it is not 0, to the platform
  layer, whose state is otherwise unchanged.\<close>

theorem smp_init_hart_count:
  assumes h: "holds M fdt 0 ts" and ok: "cstrings_ok M fdt (bytes_of ''device_type'') ts"
    and lo: "lists_ok M fdt (bytes_of ''compatible'') ts" and live: "uart_live E ub"
    and small: "count_nodes (node_is_cpu M fdt) ts < 2 ^ 32"
  shows "\<exists>P' S' m'. smp_init B E ub entry M (Some fdt) (P, S, m) = Some (P', S', m') \<and>
    unat (hart_count_v S') = max 1 (min 8 (count_nodes (node_is_cpu M fdt) ts)) \<and>
    P' = (if clint_addr M fdt ts = 0 then P else plat_init B 0 (of_nat (clint_addr M fdt ts)) P)"
proof -
  let ?c = "count_nodes (node_is_cpu M fdt) ts"
  let ?n = "if (of_nat ?c :: u32) = 0 then 1 else of_nat ?c :: u32"
  let ?msg = "bytes_of ''smp: %u harts in FDT, capped at %u (link.ld stack limit)'' @ [10]"
  let ?P = "if clint_addr M fdt ts = 0 then P else plat_init B 0 (of_nat (clint_addr M fdt ts)) P"
  obtain off reg where cl: "fdt_find_compatible M fdt (bytes_of ''sifive,clint0'') = Some off"
      "off \<noteq> UINT32_MAX \<longrightarrow> fdt_node_reg64 M fdt off 0 = Some reg"
      "(if off \<noteq> UINT32_MAX then (case reg of None \<Rightarrow> P
        | Some (at, sz) \<Rightarrow> if at \<noteq> 0 then plat_init B 0 at P else P) else P) = ?P"
    by (rule clint_lookup [OF h lo, where P = P and B = B])
  have Pc: "(if off \<noteq> UINT32_MAX
      then do { reg \<leftarrow> fdt_node_reg64 M fdt off 0;
                Some (case reg of None \<Rightarrow> P
                  | Some (at, sz) \<Rightarrow> if at \<noteq> 0 then plat_init B 0 at P else P) }
      else Some P) = Some ?P"
    using cl(2,3) by (auto split: if_splits)
  have n: "count_cpu_nodes M fdt = Some (of_nat ?c)"
    using count_cpu_loop_at [OF h ok, of 0] by (simp add: count_cpu_nodes_def)
  have u: "unat (of_nat ?c :: u32) = ?c" by (rule unat_of_nat_small) (use small in simp)
  have un: "unat ?n = max 1 ?c"
  proof (cases "?c = 0")
    case False
    then have "unat (of_nat ?c :: u32) \<noteq> 0" using u by simp
    then have "(of_nat ?c :: u32) \<noteq> 0" by (metis unat_0)
    then show ?thesis using u False by simp
  qed simp
  obtain out where o: "render_printf ?msg [VWord (ucast ?n), VWord (ucast SMP_MAX_HARTS)] = Some out"
    by (simp add: bytes_of_def byte_of_char_def)
  obtain m1 where m1: "uart_vprintf E ub ?msg [VWord (ucast ?n), VWord (ucast SMP_MAX_HARTS)] m = Some m1"
    using uart.put_all_live [OF live] uart_vprintf_put_all [OF o] by metis
  show ?thesis
  proof (cases "?n > SMP_MAX_HARTS")
    case True
    then have "8 < ?c" using un by (simp add: word_less_nat_alt SMP_MAX_HARTS_def)
    then show ?thesis using True cl(1) Pc n m1
      by (simp add: smp_init_def Let_def SMP_MAX_HARTS_def split: prod.split)
  next
    case False
    then have "max 1 ?c \<le> 8" using un by (simp add: word_less_nat_alt SMP_MAX_HARTS_def)
    then show ?thesis using False cl(1) Pc n un
      by (auto simp: smp_init_def Let_def split: prod.split)
  qed
qed

text \<open>A tree with a CLINT and two harts.\<close>

definition hart_tree :: "token list" where
  "hart_tree = [TBegin [], TBegin [99],
     TProp 0 [115,105,102,105,118,101,44,99,108,105,110,116,48,0],
     TProp 11 [0,0,0,0,2,1,0,0, 0,0,0,0,0,1,0,0], TEnd,
     TBegin [104], TProp 15 [99,112,117,0], TEnd,
     TBegin [105], TProp 15 [99,112,117,0], TEnd, TEnd, TFin]"

definition hart_strings :: "u8 list" where
  "hart_strings = bytes_of ''compatible'' @ [0] @ bytes_of ''reg'' @ [0] @ bytes_of ''device_type'' @ [0]"

lemma hart_tree_bytes: "enc_all hart_tree @ hart_strings =
  [0,0,0,1, 0,0,0,0, 0,0,0,1, 99,0,0,0,
   0,0,0,3, 0,0,0,14, 0,0,0,0, 115,105,102,105,118,101,44,99,108,105,110,116,48,0,0,0,
   0,0,0,3, 0,0,0,16, 0,0,0,11, 0,0,0,0,2,1,0,0, 0,0,0,0,0,1,0,0, 0,0,0,2,
   0,0,0,1, 104,0,0,0, 0,0,0,3, 0,0,0,4, 0,0,0,15, 99,112,117,0, 0,0,0,2,
   0,0,0,1, 105,0,0,0, 0,0,0,3, 0,0,0,4, 0,0,0,15, 99,112,117,0, 0,0,0,2,
   0,0,0,2, 0,0,0,9,
   99,111,109,112,97,116,105,98,108,101,0,114,101,103,0,100,101,118,105,99,101,95,116,121,112,101,0]"
  by (simp add: hart_tree_def hart_strings_def fdt_tokens be32_bytes_def pad4_def bytes_of_def
      byte_of_char_def replicate_small)

lemma hart_tree_length: "length (enc_all hart_tree) = 140"
  by (simp add: hart_tree_def length_pad4)

lemma hart_tree_holds: "holds (blob_of hart_tree hart_strings) (fdt_of hart_tree) 0 hart_tree"
  by (rule holds_blob_of)
     (simp add: hart_tree_def, simp add: hart_tree_length, simp add: hart_strings_def bytes_of_def)

lemma hart_tree_names:
  defines "M \<equiv> blob_of hart_tree hart_strings" and "f \<equiv> fdt_of hart_tree"
  shows "name_is M f (bytes_of ''compatible'') 0" "\<not> name_is M f (bytes_of ''compatible'') 11"
    "\<not> name_is M f (bytes_of ''compatible'') 15" "name_is M f (bytes_of ''reg'') 11"
    "\<not> name_is M f (bytes_of ''reg'') 0" "\<not> name_is M f (bytes_of ''device_type'') 0"
    "\<not> name_is M f (bytes_of ''device_type'') 11" "name_is M f (bytes_of ''device_type'') 15"
  by (simp_all add: M_def f_def name_is_def blob_of_def fdt_of_def hart_tree_length hart_tree_bytes
      mem_of_def bytes_of_def byte_of_char_def)

lemma smp_init_hart_count_witness:
  "\<exists>P' S' m'. smp_init MMode (\<lambda>h a. 0x20) 0x10000000 0
      (blob_of hart_tree hart_strings) (Some (fdt_of hart_tree)) (plat_reset, smp_reset, mach0)
      = Some (P', S', m') \<and> unat (hart_count_v S') = 2 \<and> clint_base P' = 0x2010000"
proof -
  let ?M = "blob_of hart_tree hart_strings" and ?f = "fdt_of hart_tree"
  note nm = hart_tree_names
  have lo: "lists_ok ?M ?f (bytes_of ''compatible'') hart_tree"
    by (simp add: lists_ok_def nm) (simp add: hart_tree_def nm)
  have ok: "cstrings_ok ?M ?f (bytes_of ''device_type'') hart_tree"
    by (simp add: cstrings_ok_def nm) (simp add: hart_tree_def nm)
  have c: "count_nodes (node_is_cpu ?M ?f) hart_tree = 2"
    using nm by (simp add: hart_tree_def node_is_cpu_def bytes_of_def byte_of_char_def)
  have a: "clint_addr ?M ?f hart_tree = 0x2010000"
    using nm by (simp add: hart_tree_def clint_addr_def node_compatible_def strlist.simps bytes_of_def
      byte_of_char_def be_val_def)
  have live: "uart_live (\<lambda>h a. 0x20) 0x10000000"
    by (simp add: uart_live_def thre_at_def LSR_THRE_def)
  obtain P' S' m' where r: "smp_init MMode (\<lambda>h a. 0x20) 0x10000000 0 ?M (Some ?f)
      (plat_reset, smp_reset, mach0) = Some (P', S', m')" "unat (hart_count_v S') = 2"
      "P' = plat_init MMode 0 0x2010000 plat_reset"
    using smp_init_hart_count [OF hart_tree_holds ok lo live, of MMode 0 plat_reset smp_reset mach0] c a
    by auto
  have "clint_base P' = 0x2010000" by (simp add: r(3) plat_init_def plat_init_m_def plat_reset_def)
  then show ?thesis using r(1,2) by blast
qed

text \<open>A command slot is never cleared: a wake-up that no start asked for, after the last
  entry returned, makes the dispatcher call the previous entry point again with the previous
  argument.\<close>

theorem smp_stale_command:
  "dispatch_begin h (fst (dispatch_end h S m)) = dispatch_begin h S"
  by (simp add: dispatch_begin_def dispatch_end_def Let_def)

end
