(* ===== verification/Virtio.thy ===== *)
theory Virtio
  imports Machine Fdt
begin

text \<open>
  The virtio-mmio transport, \<open>src/virtio.c\<close>.  A virtqueue is three regions of memory the
  device also sees.  Every store the driver makes there is an access of the trace, so its
  order is part of the model; what only the driver writes (the descriptor table, the
  available index) is also kept in the queue's record, and what the device writes (the used
  ring) is read through the environment.  \<open>None\<close> is a call that does not return, or a
  store outside the descriptor table.
\<close>

section \<open>Registers and records\<close>

definition VIRTIO_MMIO_MAGIC :: u32 where "VIRTIO_MMIO_MAGIC = 0x000"
definition VIRTIO_MMIO_VERSION :: u32 where "VIRTIO_MMIO_VERSION = 0x004"
definition VIRTIO_MMIO_DEVICE_ID :: u32 where "VIRTIO_MMIO_DEVICE_ID = 0x008"
definition VIRTIO_MMIO_DEVICE_FEAT :: u32 where "VIRTIO_MMIO_DEVICE_FEAT = 0x010"
definition VIRTIO_MMIO_DEVICE_FEAT_SEL :: u32 where "VIRTIO_MMIO_DEVICE_FEAT_SEL = 0x014"
definition VIRTIO_MMIO_DRIVER_FEAT :: u32 where "VIRTIO_MMIO_DRIVER_FEAT = 0x020"
definition VIRTIO_MMIO_DRIVER_FEAT_SEL :: u32 where "VIRTIO_MMIO_DRIVER_FEAT_SEL = 0x024"
definition VIRTIO_MMIO_QUEUE_SEL :: u32 where "VIRTIO_MMIO_QUEUE_SEL = 0x030"
definition VIRTIO_MMIO_QUEUE_NUM_MAX :: u32 where "VIRTIO_MMIO_QUEUE_NUM_MAX = 0x034"
definition VIRTIO_MMIO_QUEUE_NUM :: u32 where "VIRTIO_MMIO_QUEUE_NUM = 0x038"
definition VIRTIO_MMIO_QUEUE_READY :: u32 where "VIRTIO_MMIO_QUEUE_READY = 0x044"
definition VIRTIO_MMIO_QUEUE_NOTIFY :: u32 where "VIRTIO_MMIO_QUEUE_NOTIFY = 0x050"
definition VIRTIO_MMIO_STATUS :: u32 where "VIRTIO_MMIO_STATUS = 0x070"
definition VIRTIO_MMIO_QUEUE_DESC_LO :: u32 where "VIRTIO_MMIO_QUEUE_DESC_LO = 0x080"
definition VIRTIO_MMIO_QUEUE_DRIVER_LO :: u32 where "VIRTIO_MMIO_QUEUE_DRIVER_LO = 0x090"
definition VIRTIO_MMIO_QUEUE_DEVICE_LO :: u32 where "VIRTIO_MMIO_QUEUE_DEVICE_LO = 0x0a0"
definition VIRTIO_MAGIC_VALUE :: u32 where "VIRTIO_MAGIC_VALUE = 0x74726976"
definition VIRTIO_STATUS_ACKNOWLEDGE :: u32 where "VIRTIO_STATUS_ACKNOWLEDGE = 0x01"
definition VIRTIO_STATUS_DRIVER :: u32 where "VIRTIO_STATUS_DRIVER = 0x02"
definition VIRTIO_STATUS_DRIVER_OK :: u32 where "VIRTIO_STATUS_DRIVER_OK = 0x04"
definition VIRTIO_STATUS_FEATURES_OK :: u32 where "VIRTIO_STATUS_FEATURES_OK = 0x08"
definition VIRTIO_STATUS_FAILED :: u32 where "VIRTIO_STATUS_FAILED = 0x80"
definition VIRTQ_DESC_F_NEXT :: u16 where "VIRTQ_DESC_F_NEXT = 1"
definition VIRTQ_DESC_F_WRITE :: u16 where "VIRTQ_DESC_F_WRITE = 2"

lemmas virtio_regs = VIRTIO_MMIO_MAGIC_def VIRTIO_MMIO_VERSION_def VIRTIO_MMIO_DEVICE_ID_def
  VIRTIO_MMIO_DEVICE_FEAT_def VIRTIO_MMIO_DEVICE_FEAT_SEL_def VIRTIO_MMIO_DRIVER_FEAT_def
  VIRTIO_MMIO_DRIVER_FEAT_SEL_def VIRTIO_MMIO_QUEUE_SEL_def VIRTIO_MMIO_QUEUE_NUM_MAX_def
  VIRTIO_MMIO_QUEUE_NUM_def VIRTIO_MMIO_QUEUE_READY_def VIRTIO_MMIO_QUEUE_NOTIFY_def
  VIRTIO_MMIO_STATUS_def VIRTIO_MMIO_QUEUE_DESC_LO_def VIRTIO_MMIO_QUEUE_DRIVER_LO_def
  VIRTIO_MMIO_QUEUE_DEVICE_LO_def

lemmas virtio_status = VIRTIO_STATUS_ACKNOWLEDGE_def VIRTIO_STATUS_DRIVER_def
  VIRTIO_STATUS_DRIVER_OK_def VIRTIO_STATUS_FEATURES_OK_def VIRTIO_STATUS_FAILED_def

record virtq_desc =
  d_addr :: u64
  d_len :: u32
  d_flags :: u16
  d_next :: u16

record virtq =
  q_size :: u16
  last_used_idx :: u16
  free_head :: u16
  num_free :: u16
  desc_at :: u64
  avail_at :: u64
  used_at :: u64
  desc :: "virtq_desc list"
  avail_idx :: u16

record virtio_dev =
  base :: u64
  device_id :: u32

definition vio_r :: "env \<Rightarrow> u64 \<Rightarrow> u32 \<Rightarrow> mach \<Rightarrow> u32 \<times> mach" where
  "vio_r E b off m = mmio_r32 E (b + ucast off) m"

definition vio_w :: "u64 \<Rightarrow> u32 \<Rightarrow> u32 \<Rightarrow> mach \<Rightarrow> mach" where
  "vio_w b off v m = mmio_w32 (b + ucast off) v m"

section \<open>Discovery\<close>

definition virtio_probe :: "env \<Rightarrow> u64 \<Rightarrow> mach \<Rightarrow> u32 \<times> mach" where
  "virtio_probe E b m =
     (let (magic, m) = vio_r E b VIRTIO_MMIO_MAGIC m in
      if magic \<noteq> VIRTIO_MAGIC_VALUE then (0, m)
      else (let (version, m) = vio_r E b VIRTIO_MMIO_VERSION m in
            if version \<noteq> 2 then (0, m) else vio_r E b VIRTIO_MMIO_DEVICE_ID m))"

text \<open>The needle loop compares the bytes from position \<open>p + k\<close> on.\<close>

fun needle_eq :: "mem \<Rightarrow> u64 \<Rightarrow> u32 \<Rightarrow> u8 list \<Rightarrow> bool" where
  "needle_eq M cp pk [] = True"
| "needle_eq M cp pk (n # ns) =
     (if M (cp + ucast pk) \<noteq> n then False else needle_eq M cp (pk + 1) ns)"

partial_function (option) virtio_compat_loop :: "mem \<Rightarrow> u64 \<Rightarrow> u32 \<Rightarrow> u32 \<Rightarrow> bool option" where
  "virtio_compat_loop M cp clen p =
     (if p < clen
      then (if needle_eq M cp p (bytes_of ''virtio,mmio'') \<and> M (cp + ucast (p + 11)) = 0
            then Some True
            else do { p \<leftarrow> strlist_skip M cp clen p; virtio_compat_loop M cp clen (p + 1) })
      else Some False)"

partial_function (option) virtio_name_scan :: "mem \<Rightarrow> fdt \<Rightarrow> u32 \<Rightarrow> u32 option" where
  "virtio_name_scan M fdt walk =
     (if walk < struct_size fdt \<and> M (struct_blob fdt + ucast walk) \<noteq> 0
      then virtio_name_scan M fdt (walk + 1) else Some walk)"

text \<open>The callbacks of the library only look at the device id; \<open>cb\<close> is such a test.\<close>

partial_function (option) virtio_find_loop ::
  "env \<Rightarrow> mem \<Rightarrow> fdt \<Rightarrow> (u64 \<Rightarrow> u32 \<Rightarrow> bool) \<Rightarrow> u32 \<Rightarrow> mach \<Rightarrow> (u64 \<times> mach) option" where
  "virtio_find_loop E M fdt cb walk m =
     (if walk < struct_size fdt
      then (let tok = fdt_read_be32 M (struct_blob fdt) walk in
        if tok = FDT_BEGIN_NODE
        then do {
          cp \<leftarrow> fdt_node_prop M fdt walk (bytes_of ''compatible'');
          is_virtio \<leftarrow> (case cp of None \<Rightarrow> Some False
                         | Some (cp, clen) \<Rightarrow> virtio_compat_loop M cp clen 0);
          (found, m) \<leftarrow>
            (if is_virtio
             then do {
               reg \<leftarrow> fdt_node_reg64 M fdt walk 0;
               case reg of None \<Rightarrow> Some (None, m)
               | Some (at, sz) \<Rightarrow>
                   (let (id, m) = virtio_probe E at m
                    in Some (if id \<noteq> 0 \<and> cb at id then Some at else None, m)) }
             else Some (None, m));
          case found of Some at \<Rightarrow> Some (at, m)
          | None \<Rightarrow> do {
              walk \<leftarrow> virtio_name_scan M fdt (walk + 4);
              virtio_find_loop E M fdt cb ((walk + 4) AND NOT 3) m } }
        else if tok = FDT_END_NODE \<or> tok = FDT_NOP then virtio_find_loop E M fdt cb (walk + 4) m
        else if tok = FDT_PROP
        then (let plen = fdt_read_be32 M (struct_blob fdt) (walk + 4)
              in virtio_find_loop E M fdt cb (walk + (12 + align4 plen)) m)
        else Some (0, m))
      else Some (0, m))"

definition virtio_find_fdt ::
  "env \<Rightarrow> mem \<Rightarrow> fdt \<Rightarrow> (u64 \<Rightarrow> u32 \<Rightarrow> bool) \<Rightarrow> mach \<Rightarrow> (u64 \<times> mach) option" where
  "virtio_find_fdt E M fdt cb m = virtio_find_loop E M fdt cb 0 m"

section \<open>Initialisation\<close>

partial_function (option) virtio_reset_wait :: "env \<Rightarrow> u64 \<Rightarrow> mach \<Rightarrow> mach option" where
  "virtio_reset_wait E b m =
     (let (s, m) = vio_r E b VIRTIO_MMIO_STATUS m
      in if s \<noteq> 0 then virtio_reset_wait E b m else Some m)"

definition virtio_init ::
  "env \<Rightarrow> u64 \<Rightarrow> u32 \<Rightarrow> u32 \<Rightarrow> mach \<Rightarrow> (bool \<times> virtio_dev \<times> mach) option" where
  "virtio_init E b want_lo want_hi m =
     (let (id, m) = vio_r E b VIRTIO_MMIO_DEVICE_ID m;
          dev = \<lparr>base = b, device_id = id\<rparr>;
          m = vio_w b VIRTIO_MMIO_STATUS 0 m
      in do {
        m \<leftarrow> virtio_reset_wait E b m;
        let m = vio_w b VIRTIO_MMIO_STATUS VIRTIO_STATUS_ACKNOWLEDGE m;
        let m = vio_w b VIRTIO_MMIO_STATUS (VIRTIO_STATUS_ACKNOWLEDGE OR VIRTIO_STATUS_DRIVER) m;
        let want_hi = want_hi OR push_bit (32 - 32) 1;
        let m = vio_w b VIRTIO_MMIO_DEVICE_FEAT_SEL 0 m;
        let (dev_lo, m) = vio_r E b VIRTIO_MMIO_DEVICE_FEAT m;
        let m = vio_w b VIRTIO_MMIO_DEVICE_FEAT_SEL 1 m;
        let (dev_hi, m) = vio_r E b VIRTIO_MMIO_DEVICE_FEAT m;
        let m = vio_w b VIRTIO_MMIO_DRIVER_FEAT_SEL 0 m;
        let m = vio_w b VIRTIO_MMIO_DRIVER_FEAT (dev_lo AND want_lo) m;
        let m = vio_w b VIRTIO_MMIO_DRIVER_FEAT_SEL 1 m;
        let m = vio_w b VIRTIO_MMIO_DRIVER_FEAT (dev_hi AND want_hi) m;
        let m = vio_w b VIRTIO_MMIO_STATUS
          (VIRTIO_STATUS_ACKNOWLEDGE OR VIRTIO_STATUS_DRIVER OR VIRTIO_STATUS_FEATURES_OK) m;
        let (s, m) = vio_r E b VIRTIO_MMIO_STATUS m;
        Some (if s AND VIRTIO_STATUS_FEATURES_OK = 0
              then (False, dev, vio_w b VIRTIO_MMIO_STATUS VIRTIO_STATUS_FAILED m)
              else (True, dev, m)) })"

text \<open>Stores to the rings.\<close>

definition desc_slot :: "virtq \<Rightarrow> u16 \<Rightarrow> u64" where
  "desc_slot q i = desc_at q + 16 * ucast i"

definition desc_zero_writes :: "u64 \<Rightarrow> history" where
  "desc_zero_writes a = [Wr64 a 0, Wr32 (a + 8) 0, Wr16 (a + 12) 0, Wr16 (a + 14) 0]"

definition virtio_queue_setup ::
  "env \<Rightarrow> virtio_dev \<Rightarrow> u32 \<Rightarrow> virtq \<Rightarrow> u16 \<Rightarrow> u64 \<Rightarrow> u64 \<Rightarrow> u64 \<Rightarrow> mach \<Rightarrow> bool \<times> virtq \<times> mach" where
  "virtio_queue_setup E dev qsel q qsz da aa ua m =
     (let m = vio_w (base dev) VIRTIO_MMIO_QUEUE_SEL qsel m;
          (qmax, m) = vio_r E (base dev) VIRTIO_MMIO_QUEUE_NUM_MAX m in
      if qmax = 0 \<or> ucast qsz > qmax then (False, q, m)
      else
        (let q = q\<lparr>q_size := qsz, last_used_idx := 0, desc_at := da, avail_at := aa, used_at := ua,
                   desc := replicate (unat qsz) \<lparr>d_addr = 0, d_len = 0, d_flags = 0, d_next = 0\<rparr>,
                   avail_idx := 0\<rparr>;
             m = emits (concat (map (\<lambda>i. desc_zero_writes (desc_slot q (of_nat i))) [0..<unat qsz])) m;
             m = mmio_w16 aa 0 m;
             m = mmio_w16 (aa + 2) 0 m;
             m = mmio_w16 ua 0 m;
             m = mmio_w16 (ua + 2) 0 m;
             m = vio_w (base dev) VIRTIO_MMIO_QUEUE_NUM (ucast qsz) m;
             m = vio_w (base dev) VIRTIO_MMIO_QUEUE_DESC_LO (ucast da) m;
             m = vio_w (base dev) (VIRTIO_MMIO_QUEUE_DESC_LO + 4) (ucast (drop_bit 32 da)) m;
             m = vio_w (base dev) VIRTIO_MMIO_QUEUE_DRIVER_LO (ucast aa) m;
             m = vio_w (base dev) (VIRTIO_MMIO_QUEUE_DRIVER_LO + 4) (ucast (drop_bit 32 aa)) m;
             m = vio_w (base dev) VIRTIO_MMIO_QUEUE_DEVICE_LO (ucast ua) m;
             m = vio_w (base dev) (VIRTIO_MMIO_QUEUE_DEVICE_LO + 4) (ucast (drop_bit 32 ua)) m
         in (True, q, vio_w (base dev) VIRTIO_MMIO_QUEUE_READY 1 m)))"

definition virtio_finalize :: "virtio_dev \<Rightarrow> mach \<Rightarrow> mach" where
  "virtio_finalize dev m = vio_w (base dev) VIRTIO_MMIO_STATUS
     (VIRTIO_STATUS_ACKNOWLEDGE OR VIRTIO_STATUS_DRIVER OR VIRTIO_STATUS_FEATURES_OK
      OR VIRTIO_STATUS_DRIVER_OK) m"

section \<open>Rings\<close>

definition virtq_avail_push :: "u16 \<Rightarrow> virtq \<times> mach \<Rightarrow> virtq \<times> mach" where
  "virtq_avail_push head = (\<lambda>(q, m).
     let slot = avail_idx q mod q_size q;
         m = mmio_w16 (avail_at q + 4 + 2 * ucast slot) head m;
         m = emit Fence m;
         q = q\<lparr>avail_idx := avail_idx q + 1\<rparr>
     in (q, mmio_w16 (avail_at q + 2) (avail_idx q) m))"

definition virtq_used_pop :: "env \<Rightarrow> virtq \<times> mach \<Rightarrow> (u16 \<times> u32) option \<times> virtq \<times> mach" where
  "virtq_used_pop E = (\<lambda>(q, m).
     let m = emit Fence m;
         (cur, m) = mmio_r16 E (used_at q + 2) m in
     if cur = last_used_idx q then (None, q, m)
     else
       (let slot = last_used_idx q mod q_size q;
            (id, m) = mmio_r32 E (used_at q + 4 + 8 * ucast slot) m;
            (len, m) = mmio_r32 E (used_at q + 4 + 8 * ucast slot + 4) m
        in (Some (ucast id, len), q\<lparr>last_used_idx := last_used_idx q + 1\<rparr>, m)))"

definition virtio_notify :: "virtio_dev \<Rightarrow> u32 \<Rightarrow> mach \<Rightarrow> mach" where
  "virtio_notify dev qsel m = vio_w (base dev) VIRTIO_MMIO_QUEUE_NOTIFY qsel m"

section \<open>The free list of descriptors\<close>

text \<open>Storing one \<open>next\<close> field; outside the table it is undefined.\<close>

definition set_next :: "u16 \<Rightarrow> u16 \<Rightarrow> virtq \<times> mach \<Rightarrow> (virtq \<times> mach) option" where
  "set_next i v = (\<lambda>(q, m).
     if unat i < length (desc q)
     then Some (q\<lparr>desc := (desc q)[unat i := (desc q ! unat i)\<lparr>d_next := v\<rparr>]\<rparr>,
                mmio_w16 (desc_slot q i + 14) v m)
     else None)"

fun free_init_loop :: "nat \<Rightarrow> nat \<Rightarrow> virtq \<times> mach \<Rightarrow> (virtq \<times> mach) option" where
  "free_init_loop i 0 s = Some s"
| "free_init_loop i (Suc n) s =
     do { s \<leftarrow> set_next (of_nat i) (of_nat (i + 1)) s; free_init_loop (i + 1) n s }"

definition virtq_free_init :: "virtq \<times> mach \<Rightarrow> (virtq \<times> mach) option" where
  "virtq_free_init = (\<lambda>(q, m). do {
     (q, m) \<leftarrow> free_init_loop 0 (unat (q_size q) - 1) (q, m);
     (q, m) \<leftarrow> set_next (q_size q - 1) 0 (q, m);
     Some (q\<lparr>free_head := 0, num_free := q_size q\<rparr>, m) })"

definition virtq_alloc_desc :: "virtq \<Rightarrow> u16 \<times> virtq" where
  "virtq_alloc_desc q =
     (if num_free q = 0 then (0xFFFF, q)
      else (let idx = free_head q
            in (idx, q\<lparr>free_head := d_next (desc q ! unat idx), num_free := num_free q - 1\<rparr>)))"

definition virtq_free_desc :: "u16 \<Rightarrow> virtq \<times> mach \<Rightarrow> (virtq \<times> mach) option" where
  "virtq_free_desc idx = (\<lambda>(q, m). do {
     (q, m) \<leftarrow> set_next idx (free_head q) (q, m);
     Some (q\<lparr>free_head := idx, num_free := num_free q + 1\<rparr>, m) })"

section \<open>The free list\<close>

text \<open>The descriptors on the list, following \<open>next\<close> from the head as often as the count says.\<close>

fun chain :: "virtq_desc list \<Rightarrow> u16 \<Rightarrow> nat \<Rightarrow> u16 list" where
  "chain d h 0 = []"
| "chain d h (Suc n) = h # chain d (d_next (d ! unat h)) n"

definition free_list :: "virtq \<Rightarrow> u16 list" where
  "free_list q = chain (desc q) (free_head q) (unat (num_free q))"

definition pool_ok :: "virtq \<Rightarrow> bool" where
  "pool_ok q = (length (desc q) = unat (q_size q) \<and> distinct (free_list q) \<and>
     (\<forall>i\<in>set (free_list q). i < q_size q))"

lemma length_chain [simp]: "length (chain d h n) = n"
  by (induction n arbitrary: h) simp_all

lemma length_free_list: "length (free_list q) = unat (num_free q)"
  by (simp add: free_list_def)

lemma chain_update:
  "i \<notin> set (chain d h n) \<Longrightarrow> chain (d[unat i := x]) h n = chain d h n"
proof (induction n arbitrary: h)
  case (Suc n)
  then have "unat h \<noteq> unat i" by (auto simp: word_unat_eq_iff)
  with Suc show ?case by (simp add: nth_update)
qed simp

lemma num_free_Suc: "num_free q \<noteq> 0 \<Longrightarrow> unat (num_free q) = Suc (unat (num_free q - 1))"
  by (simp add: unat_minus_one unat_gt_0)

lemma alloc_pool:
  assumes "pool_ok q" "num_free q \<noteq> 0"
  shows "virtq_alloc_desc q = (hd (free_list q), snd (virtq_alloc_desc q))"
    "free_list (snd (virtq_alloc_desc q)) = tl (free_list q)"
    "pool_ok (snd (virtq_alloc_desc q))"
    "free_list q = hd (free_list q) # tl (free_list q)"
proof -
  note n = num_free_Suc [OF assms(2)]
  show "virtq_alloc_desc q = (hd (free_list q), snd (virtq_alloc_desc q))"
    using assms(2) by (simp add: virtq_alloc_desc_def free_list_def n Let_def)
  show tl: "free_list (snd (virtq_alloc_desc q)) = tl (free_list q)"
    using assms(2) by (simp add: virtq_alloc_desc_def free_list_def n Let_def)
  show hd: "free_list q = hd (free_list q) # tl (free_list q)" by (simp add: free_list_def n)
  have "distinct (tl (free_list q))" "set (tl (free_list q)) \<subseteq> set (free_list q)"
    using assms(1) hd by (simp_all add: pool_ok_def distinct_tl) (metis list.set_intros(2) subsetI)
  then show "pool_ok (snd (virtq_alloc_desc q))"
    using assms unfolding pool_ok_def tl by (auto simp: virtq_alloc_desc_def Let_def)
qed

lemma distinct_bounded_length:
  fixes xs :: "u16 list"
  assumes "distinct xs" "\<forall>i\<in>set xs. i < b"
  shows "length xs \<le> unat b"
proof -
  have "inj_on unat (set xs)" by (rule inj_onI) (simp add: word_unat_eq_iff)
  then have "length xs = card (unat ` set xs)" by (simp add: card_image distinct_card [OF assms(1)])
  also have "\<dots> \<le> card {0..<unat b}"
    using assms(2) by (intro card_mono) (auto simp: word_less_nat_alt)
  finally show ?thesis by simp
qed

lemma free_pool:
  assumes ok: "pool_ok q" and i: "i < q_size q" "i \<notin> set (free_list q)"
  shows "\<exists>q'. virtq_free_desc i (q, m) = Some (q', mmio_w16 (desc_slot q i + 14) (free_head q) m) \<and>
    free_list q' = i # free_list q \<and> pool_ok q' \<and> q_size q' = q_size q \<and>
    last_used_idx q' = last_used_idx q \<and> used_at q' = used_at q \<and> desc_at q' = desc_at q \<and>
    avail_at q' = avail_at q \<and> avail_idx q' = avail_idx q"
proof -
  have ui: "unat i < length (desc q)" using ok i by (simp add: pool_ok_def word_less_nat_alt)
  have "length (i # free_list q) \<le> unat (q_size q)"
    by (rule distinct_bounded_length) (use ok i in \<open>auto simp: pool_ok_def\<close>)
  then have "Suc (unat (num_free q)) < 2 ^ 16"
    using unat_u16_less [of "q_size q"] by (simp add: length_free_list)
  then have n: "unat (num_free q + 1) = Suc (unat (num_free q))"
    by (simp add: unat_add_no_wrap)
  define q' where "q' = q\<lparr>desc := (desc q)[unat i := (desc q ! unat i)\<lparr>d_next := free_head q\<rparr>],
      free_head := i, num_free := num_free q + 1\<rparr>"
  have fl: "free_list q' = i # free_list q"
    using i(2) ui by (simp add: q'_def free_list_def n chain_update)
  moreover have "pool_ok q'"
    unfolding pool_ok_def fl using ok i by (auto simp: pool_ok_def q'_def)
  moreover have "virtq_free_desc i (q, m) = Some (q', mmio_w16 (desc_slot q i + 14) (free_head q) m)"
    using ui by (simp add: virtq_free_desc_def set_next_def q'_def)
  ultimately show ?thesis by (auto simp: q'_def)
qed

text \<open>The contract of a descriptor pool: a stack of distinct indices below its capacity.\<close>

locale desc_pool =
  fixes alloc :: "'s \<Rightarrow> u16 \<times> 's"
    and release :: "u16 \<Rightarrow> 's \<Rightarrow> 's option"
    and pool :: "'s \<Rightarrow> u16 list"
    and cap :: "'s \<Rightarrow> u16"
    and ok :: "'s \<Rightarrow> bool"
  assumes pool_distinct: "ok s \<Longrightarrow> distinct (pool s)"
    and pool_bounded: "ok s \<Longrightarrow> i \<in> set (pool s) \<Longrightarrow> i < cap s"
    and alloc_hd: "ok s \<Longrightarrow> pool s \<noteq> [] \<Longrightarrow>
      fst (alloc s) = hd (pool s) \<and> pool (snd (alloc s)) = tl (pool s) \<and>
      ok (snd (alloc s)) \<and> cap (snd (alloc s)) = cap s"
    and alloc_empty: "ok s \<Longrightarrow> pool s = [] \<Longrightarrow> alloc s = (0xFFFF, s)"
    and release_push: "ok s \<Longrightarrow> i < cap s \<Longrightarrow> i \<notin> set (pool s) \<Longrightarrow>
      \<exists>s'. release i s = Some s' \<and> pool s' = i # pool s \<and> ok s' \<and> cap s' = cap s"
begin

lemma alloc_fresh:
  assumes "ok s" "pool s \<noteq> []"
  shows "fst (alloc s) < cap s \<and> fst (alloc s) \<notin> set (pool (snd (alloc s)))"
proof -
  note a = alloc_hd [OF assms]
  have "hd (pool s) \<in> set (pool s)" using assms(2) by simp
  then have "fst (alloc s) < cap s" using pool_bounded [OF assms(1)] a by simp
  moreover have "distinct (hd (pool s) # tl (pool s))" using pool_distinct [OF assms(1)] assms(2) by simp
  ultimately show ?thesis using a by simp
qed

lemma release_alloc:
  assumes "ok s" "pool s \<noteq> []"
  shows "\<exists>s'. release (fst (alloc s)) (snd (alloc s)) = Some s' \<and> pool s' = pool s \<and> ok s'"
  using release_push [of "snd (alloc s)" "fst (alloc s)"] alloc_hd [OF assms] alloc_fresh [OF assms] assms
  by (metis hd_Cons_tl)

lemma alloc_release:
  assumes "ok s" "i < cap s" "i \<notin> set (pool s)"
  shows "\<exists>s' s''. release i s = Some s' \<and> alloc s' = (i, s'') \<and> pool s'' = pool s \<and> ok s''"
proof -
  obtain s' where s': "release i s = Some s'" "pool s' = i # pool s" "ok s'"
    using release_push [OF assms] by blast
  with alloc_hd [of s'] show ?thesis
    by (intro exI [of _ s'] exI [of _ "snd (alloc s')"]) (simp add: prod_eq_iff)
qed

end

definition virtq_alloc :: "virtq \<times> mach \<Rightarrow> u16 \<times> virtq \<times> mach" where
  "virtq_alloc = (\<lambda>(q, m). let (i, q) = virtq_alloc_desc q in (i, q, m))"

interpretation virtq_pool: desc_pool virtq_alloc virtq_free_desc "\<lambda>(q, m). free_list q"
  "\<lambda>(q, m). q_size q" "\<lambda>(q, m). pool_ok q"
proof (unfold_locales, goal_cases)
  case (3 s)
  obtain q m where s: "s = (q, m)" by (cases s)
  have "num_free q \<noteq> 0" using 3 s by (auto simp: free_list_def)
  with 3 s alloc_pool [of q] show ?case
    by (cases "virtq_alloc_desc q") (auto simp: virtq_alloc_def virtq_alloc_desc_def Let_def)
next
  case (4 s)
  then show ?case using length_free_list [of "fst s"]
    by (cases s) (simp add: virtq_alloc_def virtq_alloc_desc_def unat_eq_zero)
next
  case (5 s i)
  then show ?case using free_pool [of "fst s" i "snd s"] by (cases s) auto
qed (auto simp: pool_ok_def)

section \<open>Bring-up\<close>

text \<open>The k-th read of the status register that follows the history \<open>h\<close> reports a finished
  reset.\<close>

definition reset_at :: "env \<Rightarrow> u64 \<Rightarrow> history \<Rightarrow> nat \<Rightarrow> bool" where
  "reset_at E b h k =
     ((ucast (E (h @ replicate k (Rd32 (b + 0x70))) (Rd32 (b + 0x70))) :: u32) = 0)"

lemma reset_at_shift: "reset_at E b (h @ [Rd32 (b + 0x70)]) k = reset_at E b h (Suc k)"
  by (simp add: reset_at_def)

lemma virtio_reset_wait_step:
  "virtio_reset_wait E b m =
     (if reset_at E b (trace m) 0 then Some (emit (Rd32 (b + 0x70)) m)
      else virtio_reset_wait E b (emit (Rd32 (b + 0x70)) m))"
  by (subst virtio_reset_wait.simps) (simp add: vio_r_def reset_at_def VIRTIO_MMIO_STATUS_def)

lemma virtio_reset_wait_reaches:
  assumes "reset_at E b (trace m) k" "\<And>j. j < k \<Longrightarrow> \<not> reset_at E b (trace m) j"
  shows "virtio_reset_wait E b m = Some (emits (replicate (Suc k) (Rd32 (b + 0x70))) m)"
  using assms
proof (induction k arbitrary: m)
  case 0
  then show ?case by (simp add: virtio_reset_wait_step [of E b m] emit_emits)
next
  case (Suc k)
  have n0: "\<not> reset_at E b (trace m) 0" using Suc.prems(2) by blast
  let ?m = "emit (Rd32 (b + 0x70)) m"
  have "virtio_reset_wait E b ?m = Some (emits (replicate (Suc k) (Rd32 (b + 0x70))) ?m)"
  proof (rule Suc.IH)
    show "reset_at E b (trace ?m) k" using Suc.prems(1) by (simp add: reset_at_shift)
    fix j assume "j < k"
    then show "\<not> reset_at E b (trace ?m) j" using Suc.prems(2) [of "Suc j"] by (simp add: reset_at_shift)
  qed
  then show ?case using n0 by (simp add: virtio_reset_wait_step [of E b m] emit_emits)
qed

lemma writes32_reads [simp]: "writes32 a (replicate n (Rd32 x)) = []"
  by (induction n) (simp_all add: writes32_Cons)



text \<open>Threading the free list through the table.\<close>

lemma free_init_loop_spec:
  assumes "i + n < length (desc q)" and lim: "length (desc q) \<le> 65535"
  shows "\<exists>q' m'. free_init_loop i n (q, m) = Some (q', m') \<and> length (desc q') = length (desc q) \<and>
    q_size q' = q_size q \<and>
    (\<forall>j<length (desc q). d_next (desc q' ! j) =
        (if i \<le> j \<and> j < i + n then of_nat (j + 1) else d_next (desc q ! j)))"
  using assms
proof (induction n arbitrary: i q m)
  case 0
  then show ?case by auto
next
  case (Suc n)
  define q1 where "q1 = q\<lparr>desc := (desc q)[i := (desc q ! i)\<lparr>d_next := of_nat (i + 1)\<rparr>]\<rparr>"
  have i: "i < length (desc q)" "unat (of_nat i :: u16) = i" using Suc.prems lim by (simp_all add: unat_of_nat_small)
  obtain m1 where s: "set_next (of_nat i) (of_nat (i + 1)) (q, m) = Some (q1, m1)"
    using i by (simp add: set_next_def q1_def)
  have l: "length (desc q1) = length (desc q)" "q_size q1 = q_size q" by (simp_all add: q1_def)
  have "i + 1 + n < length (desc q1)" using Suc.prems l by simp
  moreover have "length (desc q1) \<le> 65535" using l Suc.prems by simp
  ultimately obtain q' m' where
    r: "free_init_loop (i + 1) n (q1, m1) = Some (q', m')" "length (desc q') = length (desc q)"
      "q_size q' = q_size q" "\<forall>j<length (desc q). d_next (desc q' ! j) =
        (if i + 1 \<le> j \<and> j < i + 1 + n then of_nat (j + 1) else d_next (desc q1 ! j))"
    using Suc.IH [of "i + 1" q1 m1] l by metis
  have "d_next (desc q1 ! j) = (if j = i then of_nat (i + 1) else d_next (desc q ! j))" for j
    using i by (simp add: q1_def nth_list_update nth_update)
  with r s show ?case by (simp del: of_nat_Suc)
qed

lemma chain_upto:
  assumes "\<forall>j. i \<le> j \<and> j + 1 < i + n \<longrightarrow> d_next (d ! j) = of_nat (j + 1)" "i + n \<le> 65536"
  shows "chain d (of_nat i) n = map of_nat [i..<i + n]"
  using assms
proof (induction n arbitrary: i)
  case (Suc n)
  have i: "unat (of_nat i :: u16) = i" using Suc.prems(2) by (simp add: unat_of_nat_small)
  show ?case
  proof (cases n)
    case 0
    then show ?thesis by simp
  next
    case (Suc n')
    then have "d_next (d ! i) = of_nat (i + 1)" and "0 < n" using Suc.prems(1) by simp_all
    moreover have "chain d (of_nat (i + 1)) n = map of_nat [i + 1..<i + 1 + n]"
      using Suc.prems by (intro Suc.IH) auto
    ultimately show ?thesis using i \<open>0 < n\<close> by (simp add: upt_conv_Cons del: of_nat_Suc upt_Suc)
  qed
qed simp

text \<open>C21: a queue that has been set up with at least one entry has, after
  \<open>virtq_free_init\<close>, every descriptor of the table on its free list once, in index order,
  so that the first allocations hand out 0, 1, 2 and so on.\<close>

theorem virtq_free_init_correct:
  assumes "virtio_queue_setup E dev qsel q0 qsz da aa ua m0 = (True, q, m)" "0 < qsz"
  shows "\<exists>q' m'. virtq_free_init (q, m) = Some (q', m') \<and> pool_ok q' \<and> q_size q' = qsz \<and>
    free_list q' = map of_nat [0..<unat qsz]"
proof -
  have q: "length (desc q) = unat qsz" "q_size q = qsz"
    using assms(1) by (auto simp: virtio_queue_setup_def Let_def vio_r_def split: if_splits)
  have n: "0 < unat qsz" "unat qsz \<le> 65535"
    using assms(2) unat_u16_less [of qsz] by (simp_all add: unat_gt_0 word_neq_0_conv)
  obtain q1 m1 where l: "free_init_loop 0 (unat qsz - 1) (q, m) = Some (q1, m1)"
      "length (desc q1) = unat qsz" "q_size q1 = qsz"
      "\<forall>j<unat qsz. j + 1 < unat qsz \<longrightarrow> d_next (desc q1 ! j) = of_nat (j + 1)"
    using free_init_loop_spec [of 0 "unat qsz - 1" q m] q n by (auto simp: less_diff_conv)
  have u: "unat (qsz - 1) = unat qsz - 1" using n by (simp add: unat_minus_one unat_gt_0)
  define d where "d = (desc q1)[unat qsz - 1 := (desc q1 ! (unat qsz - 1))\<lparr>d_next := 0\<rparr>]"
  obtain m2 where s: "set_next (q_size q - 1) 0 (q1, m1) = Some (q1\<lparr>desc := d\<rparr>, m2)"
    using l n q u by (simp add: set_next_def d_def)
  have "\<forall>j. 0 \<le> j \<and> j + 1 < 0 + unat qsz \<longrightarrow> d_next (d ! j) = of_nat (j + 1)"
    using l by (auto simp: d_def nth_list_update)
  then have c: "chain d 0 (unat qsz) = map of_nat [0..<unat qsz]"
    using chain_upto [of 0 "unat qsz" d] n by simp
  have b: "distinct (map (of_nat :: nat \<Rightarrow> u16) [0..<unat qsz])"
    "\<forall>i\<in>set (map (of_nat :: nat \<Rightarrow> u16) [0..<unat qsz]). i < qsz"
    using n by (auto simp: distinct_map inj_on_def word_less_nat_alt unat_of_nat_small dest!: arg_cong [where f = unat])
  show ?thesis using l s q c b
    by (auto simp: virtq_free_init_def free_list_def pool_ok_def d_def)
qed

lemma virtq_free_init_correct_witness:
  "\<exists>q m q' m'. virtio_queue_setup (\<lambda>h a. 8) \<lparr>base = 0, device_id = 18\<rparr> 0
      \<lparr>q_size = 0, last_used_idx = 0, free_head = 0, num_free = 0, desc_at = 0, avail_at = 0,
       used_at = 0, desc = [], avail_idx = 0\<rparr> 4 0x1000 0x2000 0x3000 mach0 = (True, q, m) \<and>
    virtq_free_init (q, m) = Some (q', m') \<and> free_list q' = [0, 1, 2, 3]"
proof -
  have "\<exists>q m. virtio_queue_setup (\<lambda>h a. 8) \<lparr>base = 0, device_id = 18\<rparr> 0
      \<lparr>q_size = 0, last_used_idx = 0, free_head = 0, num_free = 0, desc_at = 0, avail_at = 0,
       used_at = 0, desc = [], avail_idx = 0\<rparr> 4 0x1000 0x2000 0x3000 mach0 = (True, q, m)"
    by (simp add: virtio_queue_setup_def vio_r_def Let_def)
  then obtain q m where s: "virtio_queue_setup (\<lambda>h a. 8) \<lparr>base = 0, device_id = 18\<rparr> 0
      \<lparr>q_size = 0, last_used_idx = 0, free_head = 0, num_free = 0, desc_at = 0, avail_at = 0,
       used_at = 0, desc = [], avail_idx = 0\<rparr> 4 0x1000 0x2000 0x3000 mach0 = (True, q, m)" by blast
  from virtq_free_init_correct [OF s] have "\<exists>q' m'. virtq_free_init (q, m) = Some (q', m') \<and>
      free_list q' = [0, 1, 2, 3]" by (auto simp: upt_rec)
  then show ?thesis using s by blast
qed

end
