(* ===== verification/VirtioInput.thy ===== *)
theory VirtioInput
  imports Virtio
begin

text \<open>
  The virtio keyboard, \<open>src/virtio_input.c\<close>: sixteen event buffers that the device fills
  and the driver recycles.  The device record's ring and buffer storage is given by addresses;
  the callback is a function on the caller's context.
\<close>

section \<open>The driver\<close>

definition lkc_to_usb :: "u8 list" where
  "lkc_to_usb =
  [0, 0x29, 0x1e, 0x1f, 0x20, 0x21, 0x22, 0x23, 0x24, 0x25, 0x26, 0x27, 0x2d, 0x2e, 0x2a, 0x2b,
   0x14, 0x1a, 0x8, 0x15, 0x17, 0x1c, 0x18, 0xc, 0x12, 0x13, 0x2f, 0x30, 0x28, 0xe0, 0x4, 0x16,
   0x7, 0x9, 0xa, 0xb, 0xd, 0xe, 0xf, 0x33, 0x34, 0x35, 0xe1, 0x31, 0x1d, 0x1b, 0x6, 0x19,
   0x5, 0x11, 0x10, 0x36, 0x37, 0x38, 0xe5, 0x55, 0xe2, 0x2c, 0x39, 0x3a, 0x3b, 0x3c, 0x3d, 0x3e,
   0x3f, 0x40, 0x41, 0x42, 0x43, 0x53, 0x47, 0x5f, 0x60, 0x61, 0x56, 0x5c, 0x5d, 0x5e, 0x57, 0x59,
   0x5a, 0x5b, 0x62, 0x63, 0, 0, 0, 0x44, 0x45, 0, 0, 0, 0, 0, 0, 0,
   0x58, 0xe4, 0x54, 0x46, 0xe6, 0, 0x4a, 0x52, 0x4b, 0x50, 0x4f, 0x4d, 0x51, 0x4e, 0x49, 0x4c,
   0, 0, 0, 0, 0, 0, 0, 0, 0, 0, 0, 0, 0, 0xe3, 0xe7, 0]"

definition VIRTIO_ID_INPUT :: u32 where "VIRTIO_ID_INPUT = 18"
definition VIRTIO_INPUT_EV_KEY :: u16 where "VIRTIO_INPUT_EV_KEY = 1"
definition VIRTIO_INPUT_QSIZE :: u16 where "VIRTIO_INPUT_QSIZE = 16"

record virtio_input =
  vi_dev :: virtio_dev
  eventq :: virtq
  vi_desc :: u64
  avail_buf :: u64
  used_buf :: u64
  evt_buf :: u64

definition first_input :: "u64 \<Rightarrow> u32 \<Rightarrow> bool" where
  "first_input b uid = (uid = VIRTIO_ID_INPUT)"

text \<open>Filling descriptor \<open>idx\<close> with the address of its event buffer and posting it.\<close>

definition post_event :: "u64 \<Rightarrow> u16 \<Rightarrow> virtq \<times> mach \<Rightarrow> virtq \<times> mach" where
  "post_event evt idx = (\<lambda>(q, m).
     let a = evt + 8 * ucast idx;
         q = q\<lparr>desc := (desc q)[unat idx := \<lparr>d_addr = a, d_len = 8, d_flags = VIRTQ_DESC_F_WRITE,
                d_next = 0\<rparr>]\<rparr>;
         s = desc_slot q idx;
         m = mmio_w64 s a m;
         m = mmio_w32 (s + 8) 8 m;
         m = mmio_w16 (s + 12) VIRTQ_DESC_F_WRITE m;
         m = mmio_w16 (s + 14) 0 m
     in virtq_avail_push idx (q, m))"

function refill_eventq :: "u64 \<Rightarrow> virtq \<times> mach \<Rightarrow> virtq \<times> mach" where
  "refill_eventq evt (q, m) =
     (if num_free q \<noteq> 0
      then (let (idx, q1) = virtq_alloc_desc q in
            if idx = 0xFFFF then (q1, m) else refill_eventq evt (post_event evt idx (q1, m)))
      else (q, m))"
  by pat_completeness auto
termination
proof (relation "measure (\<lambda>(evt, q, m). unat (num_free q))")
  fix evt q and m :: mach and x idx q1
  assume "num_free q \<noteq> 0" "x = virtq_alloc_desc q" "(idx, q1) = x"
  then have "num_free q1 = num_free q - 1" by (simp add: virtq_alloc_desc_def Let_def)
  moreover have "num_free (fst (post_event evt idx (q1, m))) = num_free q1"
    by (simp add: post_event_def virtq_avail_push_def Let_def)
  ultimately show "((evt, post_event evt idx (q1, m)), evt, q, m) \<in> measure (\<lambda>(evt, q, m). unat (num_free q))"
    using \<open>num_free q \<noteq> 0\<close> by (cases "post_event evt idx (q1, m)") (simp add: unat_minus_one unat_gt_0)
qed simp

declare refill_eventq.simps [simp del]

definition virtio_input_init_fdt ::
  "env \<Rightarrow> mem \<Rightarrow> fdt \<Rightarrow> virtio_input \<Rightarrow> mach \<Rightarrow> (bool \<times> virtio_input \<times> mach) option" where
  "virtio_input_init_fdt E M fdt vi m = do {
     (b, m) \<leftarrow> virtio_find_fdt E M fdt first_input m;
     if b = 0 then Some (False, vi, m)
     else do {
       (ok, dev, m) \<leftarrow> virtio_init E b 0 0 m;
       let vi = vi\<lparr>vi_dev := dev\<rparr>;
       if \<not> ok then Some (False, vi, m)
       else do {
         let (ok, q, m) = virtio_queue_setup E dev 0 (eventq vi) VIRTIO_INPUT_QSIZE
           (vi_desc vi) (avail_buf vi) (used_buf vi) m;
         let vi = vi\<lparr>eventq := q\<rparr>;
         if \<not> ok then Some (False, vi, m)
         else do {
           (q, m) \<leftarrow> virtq_free_init (eventq vi, m);
           let (q, m) = refill_eventq (evt_buf vi) (q, m);
           let vi = vi\<lparr>eventq := q\<rparr>;
           let m = virtio_finalize dev m;
           Some (True, vi, virtio_notify dev 0 m) } } } }"

text \<open>What one completed buffer means: the fields are read in the order of the tests.\<close>

definition vi_event ::
  "env \<Rightarrow> u64 \<Rightarrow> (u8 \<Rightarrow> bool \<Rightarrow> 'c \<Rightarrow> 'c) \<Rightarrow> u16 \<times> u32 \<Rightarrow> int \<times> 'c \<times> mach \<Rightarrow> int \<times> 'c \<times> mach" where
  "vi_event E evt cb = (\<lambda>(uid, len) (events, c, m).
     if uid < VIRTIO_INPUT_QSIZE \<and> len \<ge> 8
     then
       (let e = evt + 8 * ucast uid; (type, m) = mmio_r16 E e m in
        if type = VIRTIO_INPUT_EV_KEY
        then
          (let (val, m) = mmio_r32 E (e + 4) m in
           if val \<noteq> 2
           then
             (let pressed = (val = 1); (code, m) = mmio_r16 E (e + 2) m in
              if code < 128
              then (let usage = lkc_to_usb ! unat code in
                    if usage \<noteq> 0 then (events + 1, cb usage pressed c, m) else (events, c, m))
              else (events, c, m))
           else (events, c, m))
        else (events, c, m))
     else (events, c, m))"

partial_function (option) vi_poll_loop ::
  "env \<Rightarrow> u64 \<Rightarrow> (u8 \<Rightarrow> bool \<Rightarrow> 'c \<Rightarrow> 'c) \<Rightarrow> bool \<Rightarrow> int \<Rightarrow> 'c \<Rightarrow> virtq \<times> mach \<Rightarrow>
     (bool \<times> int \<times> 'c \<times> virtq \<times> mach) option" where
  "vi_poll_loop E evt cb any events c qm =
     (let (pop, q, m) = virtq_used_pop E qm in
      case pop of None \<Rightarrow> Some (any, events, c, q, m)
      | Some (uid, len) \<Rightarrow>
          (let (events, c, m) = vi_event E evt cb (uid, len) (events, c, m)
           in do { qm \<leftarrow> virtq_free_desc uid (q, m);
                   vi_poll_loop E evt cb True events c qm }))"

definition virtio_input_poll ::
  "env \<Rightarrow> (u8 \<Rightarrow> bool \<Rightarrow> 'c \<Rightarrow> 'c) \<Rightarrow> 'c \<Rightarrow> virtio_input \<Rightarrow> mach \<Rightarrow>
     (int \<times> 'c \<times> virtio_input \<times> mach) option" where
  "virtio_input_poll E cb c vi m = do {
     (any, events, c, q, m) \<leftarrow> vi_poll_loop E (evt_buf vi) cb False 0 c (eventq vi, m);
     if any
     then do {
       let (q, m) = refill_eventq (evt_buf vi) (q, m);
       Some (events, c, vi\<lparr>eventq := q\<rparr>, virtio_notify (vi_dev vi) 0 m) }
     else Some (events, c, vi\<lparr>eventq := q\<rparr>, m) }"

section \<open>Posting buffers\<close>

definition post_accesses :: "u64 \<Rightarrow> virtq \<Rightarrow> u16 \<Rightarrow> u16 \<Rightarrow> history" where
  "post_accesses evt q ai i =
     (let a = evt + 8 * ucast i; s = desc_slot q i in
      [Wr64 s a, Wr32 (s + 8) 8, Wr16 (s + 12) VIRTQ_DESC_F_WRITE, Wr16 (s + 14) 0,
       Wr16 (avail_at q + 4 + 2 * ucast (ai mod q_size q)) i, Fence, Wr16 (avail_at q + 2) (ai + 1)])"

fun post_all :: "u64 \<Rightarrow> virtq \<Rightarrow> u16 \<Rightarrow> u16 list \<Rightarrow> history" where
  "post_all evt q ai [] = []"
| "post_all evt q ai (i # is) = post_accesses evt q ai i @ post_all evt q (ai + 1) is"

definition same_rings :: "virtq \<Rightarrow> virtq \<Rightarrow> bool" where
  "same_rings q q' = (q_size q' = q_size q \<and> desc_at q' = desc_at q \<and> avail_at q' = avail_at q \<and>
     used_at q' = used_at q \<and> last_used_idx q' = last_used_idx q)"

lemma post_all_cong: "same_rings q q' \<Longrightarrow> post_all evt q' ai is = post_all evt q ai is"
  by (induction "is" arbitrary: ai) (simp_all add: same_rings_def post_accesses_def desc_slot_def Let_def)

lemma post_event_eq:
  "\<exists>q'. post_event evt i (q, m) = (q', emits (post_accesses evt q (avail_idx q) i) m) \<and>
     same_rings q q' \<and> avail_idx q' = avail_idx q + 1 \<and>
     (i \<notin> set (free_list q) \<longrightarrow> free_list q' = free_list q) \<and> num_free q' = num_free q \<and>
     length (desc q') = length (desc q)"
  by (simp add: post_event_def virtq_avail_push_def post_accesses_def same_rings_def
      free_list_def chain_update Let_def emit_emits desc_slot_def)

lemma refill_step:
  "refill_eventq evt (q, m) =
     (if num_free q \<noteq> 0
      then (let (idx, q1) = virtq_alloc_desc q in
            if idx = 0xFFFF then (q1, m) else refill_eventq evt (post_event evt idx (q1, m)))
      else (q, m))"
  by (rule refill_eventq.simps)

lemma refill_posts_all:
  assumes "pool_ok q" "q_size q \<le> 0x8000"
  shows "\<exists>q'. refill_eventq evt (q, m) = (q', emits (post_all evt q (avail_idx q) (free_list q)) m) \<and>
    pool_ok q' \<and> free_list q' = [] \<and> same_rings q q' \<and> avail_idx q' = avail_idx q + num_free q"
  using assms
proof (induction "unat (num_free q)" arbitrary: q m)
  case 0
  then have "num_free q = 0" by (simp add: unat_eq_zero)
  with 0 show ?case
    by (simp add: refill_step [of evt q] free_list_def same_rings_def)
next
  case (Suc n)
  then have nz: "num_free q \<noteq> 0" by auto
  define q1 where "q1 = snd (virtq_alloc_desc q)"
  define i where "i = hd (free_list q)"
  note a = alloc_pool [OF Suc.prems(1) nz, folded q1_def i_def]
  have q1: "num_free q1 = num_free q - 1" "same_rings q q1" "avail_idx q1 = avail_idx q"
    using nz by (simp_all add: q1_def virtq_alloc_desc_def same_rings_def Let_def)
  have "i < q_size q" using Suc.prems(1) a(4) unfolding pool_ok_def by (metis list.set_intros(1))
  then have "i < 0x8000" using Suc.prems(2) by (rule less_le_trans)
  then have ne: "i \<noteq> 0xFFFF" by auto
  have fresh: "i \<notin> set (free_list q1)"
    using Suc.prems(1) a(4) unfolding pool_ok_def a(2) by (metis distinct.simps(2))
  obtain q2 where q2: "post_event evt i (q1, m) = (q2, emits (post_accesses evt q1 (avail_idx q1) i) m)"
    "same_rings q1 q2" "avail_idx q2 = avail_idx q1 + 1" "free_list q2 = free_list q1"
    "num_free q2 = num_free q1" "length (desc q2) = length (desc q1)"
    using post_event_eq [of evt i q1 m] fresh by blast
  have sr: "same_rings q q2" using q1(2) q2(2) by (simp add: same_rings_def)
  have ok2: "pool_ok q2" "q_size q2 \<le> 0x8000"
    using a(3) q2 sr Suc.prems(2) by (simp_all add: pool_ok_def same_rings_def)
  have "n = unat (num_free q2)"
    using Suc.hyps(2) num_free_Suc [OF nz] by (simp add: q2(5) q1(1))
  from Suc.hyps(1) [OF this ok2] obtain q' where q':
    "refill_eventq evt (q2, emits (post_accesses evt q1 (avail_idx q1) i) m) =
      (q', emits (post_all evt q2 (avail_idx q2) (free_list q2)) (emits (post_accesses evt q1 (avail_idx q1) i) m))"
    "pool_ok q'" "free_list q' = []" "same_rings q2 q'" "avail_idx q' = avail_idx q2 + num_free q2"
    by blast
  have pa: "post_accesses evt q1 ai i = post_accesses evt q ai i" for ai
    using q1 by (simp add: post_accesses_def same_rings_def desc_slot_def)
  have "refill_eventq evt (q, m) = (q', emits (post_all evt q (avail_idx q) (i # tl (free_list q))) m)"
    unfolding refill_step [of evt q] a(1) using nz ne q2(1) q'(1)
    by (simp add: pa post_all_cong [OF sr] q2(3,4) q1(3) a(2))
  moreover have "same_rings q q'" using sr q'(4) by (simp add: same_rings_def)
  moreover have "avail_idx q' = avail_idx q + num_free q" by (simp add: q'(5) q2 q1)
  ultimately show ?case using q'(2,3) a(4) by metis
qed

section \<open>Draining\<close>

definition key_of :: "env \<Rightarrow> u64 \<Rightarrow> u16 \<times> u32 \<Rightarrow> mach \<Rightarrow> (u8 \<times> bool) list" where
  "key_of E evt = (\<lambda>(uid, len) m.
     let e = evt + 8 * ucast uid;
         (type, m1) = mmio_r16 E e m; (val, m2) = mmio_r32 E (e + 4) m1; (code, _) = mmio_r16 E (e + 2) m2;
         genuine = (uid < 16 \<and> 8 \<le> len \<and> type = 1)
     in if genuine \<and> val \<in> - {2} \<and> code < 128 \<and> lkc_to_usb ! unat code \<in> - {0}
        then [(lkc_to_usb ! unat code, val = 1)] else [])"

definition after_event :: "env \<Rightarrow> u64 \<Rightarrow> u16 \<times> u32 \<Rightarrow> mach \<Rightarrow> mach" where
  "after_event E evt p m = snd (snd (vi_event E evt (\<lambda>u pr ks. ks @ [(u, pr)]) p (0, [], m)))"

lemma vi_event_split:
  "vi_event E evt cb p (n, c, m) =
     (n + int (length (key_of E evt p m)), fold (\<lambda>(u, pr). cb u pr) (key_of E evt p m) c, after_event E evt p m)"
  by (cases p) (auto simp: vi_event_def key_of_def after_event_def VIRTIO_INPUT_QSIZE_def VIRTIO_INPUT_EV_KEY_def
      Let_def split: prod.splits)

text \<open>The completions a drain meets, up to a bound, with the keys each one reports.\<close>

fun popped :: "env \<Rightarrow> u64 \<Rightarrow> nat \<Rightarrow> virtq \<times> mach \<Rightarrow> (u16 \<times> (u8 \<times> bool) list) list" where
  "popped E evt 0 qm = []"
| "popped E evt (Suc k) qm =
     (let (pop, q, m) = virtq_used_pop E qm in
      case pop of None \<Rightarrow> []
      | Some p \<Rightarrow> (fst p, key_of E evt p m) #
          (case virtq_free_desc (fst p) (q, after_event E evt p m) of
             None \<Rightarrow> [] | Some qm \<Rightarrow> popped E evt k qm))"

lemma used_pop_rings:
  assumes "virtq_used_pop E (q, m) = (pop, q1, m1)"
  shows "free_list q1 = free_list q" "pool_ok q1 = pool_ok q" "q_size q1 = q_size q"
    "desc_at q1 = desc_at q" "avail_at q1 = avail_at q" "used_at q1 = used_at q"
    "avail_idx q1 = avail_idx q" "num_free q1 = num_free q"
  using assms by (auto simp: virtq_used_pop_def free_list_def pool_ok_def Let_def split: if_splits)

lemma vi_poll_loop_drains:
  assumes "pool_ok q" "popped E evt k (q, m) = ps" "length ps < k"
    and "distinct (map fst ps)" "\<forall>i\<in>set (map fst ps). i < q_size q \<and> i \<notin> set (free_list q)"
  shows "\<exists>q' m'. vi_poll_loop E evt cb any n c (q, m) =
      Some (any \<or> ps \<noteq> [], n + int (length (concat (map snd ps))),
            fold (\<lambda>(u, pr). cb u pr) (concat (map snd ps)) c, q', m') \<and>
    pool_ok q' \<and> free_list q' = rev (map fst ps) @ free_list q \<and> q_size q' = q_size q \<and>
    desc_at q' = desc_at q \<and> avail_at q' = avail_at q \<and> avail_idx q' = avail_idx q"
  using assms
proof (induction k arbitrary: q m ps any n c)
  case (Suc k)
  obtain pop q1 m1 where pop: "virtq_used_pop E (q, m) = (pop, q1, m1)"
    by (cases "virtq_used_pop E (q, m)")
  note u = used_pop_rings [OF pop]
  show ?case
  proof (cases pop)
    case None
    with Suc.prems(2) pop have "ps = []" by simp
    then show ?thesis using pop None Suc.prems(1) u
      by (subst vi_poll_loop.simps) simp
  next
    case (Some p)
    let ?m2 = "after_event E evt p m1"
    have i: "fst p < q_size q1" "fst p \<notin> set (free_list q1)"
      using Suc.prems(2,5) pop Some u by auto
    obtain q2 where q2: "virtq_free_desc (fst p) (q1, ?m2) = Some (q2, mmio_w16 (desc_slot q1 (fst p) + 14) (free_head q1) ?m2)"
      "free_list q2 = fst p # free_list q1" "pool_ok q2" "q_size q2 = q_size q1"
      "desc_at q2 = desc_at q1" "avail_at q2 = avail_at q1" "avail_idx q2 = avail_idx q1"
      using free_pool [OF _ i, of ?m2] Suc.prems(1) u by auto
    let ?m3 = "mmio_w16 (desc_slot q1 (fst p) + 14) (free_head q1) ?m2"
    define ps' where "ps' = popped E evt k (q2, ?m3)"
    have ps: "ps = (fst p, key_of E evt p m1) # ps'"
      using Suc.prems(2) pop Some q2(1) by (simp add: ps'_def)
    have "\<exists>q' m'. vi_poll_loop E evt cb True (n + int (length (key_of E evt p m1)))
        (fold (\<lambda>(u, pr). cb u pr) (key_of E evt p m1) c) (q2, ?m3) =
      Some (True \<or> ps' \<noteq> [], n + int (length (key_of E evt p m1)) + int (length (concat (map snd ps'))),
            fold (\<lambda>(u, pr). cb u pr) (concat (map snd ps')) (fold (\<lambda>(u, pr). cb u pr) (key_of E evt p m1) c), q', m') \<and>
      pool_ok q' \<and> free_list q' = rev (map fst ps') @ free_list q2 \<and> q_size q' = q_size q2 \<and>
      desc_at q' = desc_at q2 \<and> avail_at q' = avail_at q2 \<and> avail_idx q' = avail_idx q2"
    proof (rule Suc.IH [OF q2(3) ps'_def [symmetric]])
      have f: "fst p \<notin> set (map fst ps')" using Suc.prems(4) unfolding ps by simp
      show "length ps' < k" "distinct (map fst ps')" using Suc.prems(3,4) unfolding ps by simp_all
      show "\<forall>i\<in>set (map fst ps'). i < q_size q2 \<and> i \<notin> set (free_list q2)"
      proof
        fix i assume i: "i \<in> set (map fst ps')"
        then have "i < q_size q \<and> i \<notin> set (free_list q)" using Suc.prems(5) unfolding ps by auto
        moreover have "i \<noteq> fst p" using f i by blast
        ultimately show "i < q_size q2 \<and> i \<notin> set (free_list q2)" by (simp add: q2(2,4) u)
      qed
    qed
    then obtain q' m' where r: "vi_poll_loop E evt cb True (n + int (length (key_of E evt p m1)))
        (fold (\<lambda>(u, pr). cb u pr) (key_of E evt p m1) c) (q2, ?m3) =
      Some (True, n + int (length (key_of E evt p m1)) + int (length (concat (map snd ps'))),
            fold (\<lambda>(u, pr). cb u pr) (concat (map snd ps')) (fold (\<lambda>(u, pr). cb u pr) (key_of E evt p m1) c), q', m')"
      "pool_ok q'" "free_list q' = rev (map fst ps') @ free_list q2" "q_size q' = q_size q2"
      "desc_at q' = desc_at q2" "avail_at q' = avail_at q2" "avail_idx q' = avail_idx q2" by auto
    have "vi_poll_loop E evt cb any n c (q, m) =
        vi_poll_loop E evt cb True (n + int (length (key_of E evt p m1)))
          (fold (\<lambda>(u, pr). cb u pr) (key_of E evt p m1) c) (q2, ?m3)"
      using pop Some q2(1) by (subst vi_poll_loop.simps) (cases p, simp add: vi_event_split)
    then show ?thesis using r q2 u ps by (simp add: add.assoc)
  qed
qed simp

section \<open>Properties\<close>


definition demo_input :: virtio_input where
  "demo_input = \<lparr>vi_dev = \<lparr>base = 0x10001000, device_id = 18\<rparr>,
     eventq = \<lparr>q_size = 16, last_used_idx = 0, free_head = 0, num_free = 0, desc_at = 0x1000,
       avail_at = 0x1800, used_at = 0x2000,
       desc = replicate 16 \<lparr>d_addr = 0, d_len = 8, d_flags = 2, d_next = 0\<rparr>, avail_idx = 16\<rparr>,
     vi_desc = 0x1000, avail_buf = 0x1800, used_buf = 0x2000, evt_buf = 0x3000\<rparr>"

text \<open>A device that has completed buffer 3 with a press of the key A.\<close>

definition demo_device :: env where
  "demo_device h a = (case a of
     Rd16 x \<Rightarrow> if x = 0x2002 then 1 else if x = 0x3018 then 1 else if x = 0x301A then 30 else 0
   | Rd32 x \<Rightarrow> if x = 0x2004 then 3 else if x = 0x2008 then 8 else if x = 0x301C then 1 else 0
   | _ \<Rightarrow> 0)"


text \<open>C31: a used-ring entry whose id is not below the queue size makes the drain store outside
  the descriptor table: the range check guards the use of the event buffer, not the return of
  the descriptor to the free list.\<close>

theorem virtio_input_bad_id:
  assumes "pool_ok (eventq vi)" "virtq_used_pop E (eventq vi, m) = (Some (i, len), q, m1)"
    and "q_size (eventq vi) \<le> i"
  shows "virtio_input_poll E cb c vi m = None"
proof -
  have "length (desc q) = unat (q_size q)" "q_size q = q_size (eventq vi)"
    using assms(1) used_pop_rings [OF assms(2)] by (simp_all add: pool_ok_def)
  then have "virtq_free_desc i (q, after_event E (evt_buf vi) (i, len) m1) = None"
    using assms(3) by (simp add: virtq_free_desc_def set_next_def word_le_nat_alt)
  then have "vi_poll_loop E (evt_buf vi) cb False 0 c (eventq vi, m) = None"
    using assms(2) by (subst vi_poll_loop.simps) (simp add: vi_event_split)
  then show ?thesis by (simp add: virtio_input_poll_def)
qed

lemma virtio_input_bad_id_witness:
  "virtio_input_poll (\<lambda>h a. 0x4000) (\<lambda>u pr ks. ks @ [(u, pr)]) [] demo_input mach0 = None"
proof -
  have "virtq_used_pop (\<lambda>h a. 0x4000) (eventq demo_input, mach0) =
      (Some (0x4000, 0x4000), (eventq demo_input)\<lparr>last_used_idx := 1\<rparr>,
       emits [Fence, Rd16 0x2002, Rd32 0x2004, Rd32 0x2008] mach0)"
    by (simp add: virtq_used_pop_def demo_input_def emit_emits)
  moreover have "pool_ok (eventq demo_input)" "q_size (eventq demo_input) \<le> 0x4000"
    by (simp_all add: demo_input_def pool_ok_def free_list_def)
  ultimately show ?thesis by (intro virtio_input_bad_id)
qed

end
