(* ===== verification/Pci.thy ===== *)
theory Pci
  imports Uart
begin

text \<open>
  PCI configuration access, \<open>src/pci.c\<close> and \<open>include/pci.h\<close>: the ECAM scan with its
  recursion through bridges, the reading of BARs, the capability walk and the MSI set-up.
  Configuration space is memory-mapped, so every access is an entry of the trace and what a
  function answers is the environment's.  \<open>None\<close> is a call that does not return: the scan
  follows bridges without a bound.
\<close>

section \<open>Constants and records\<close>

definition RVVM_PCI_ECAM_BASE :: u64 where "RVVM_PCI_ECAM_BASE = 0x30000000"
definition PCI_CFG_VENDOR_DEVICE :: u32 where "PCI_CFG_VENDOR_DEVICE = 0x00"
definition PCI_CFG_COMMAND_STATUS :: u32 where "PCI_CFG_COMMAND_STATUS = 0x04"
definition PCI_CFG_HEADER_TYPE :: u32 where "PCI_CFG_HEADER_TYPE = 0x0E"
definition PCI_CFG_BAR0 :: u32 where "PCI_CFG_BAR0 = 0x10"
definition PCI_CFG_SECONDARY_BUS :: u32 where "PCI_CFG_SECONDARY_BUS = 0x19"
definition PCI_CFG_CAP_PTR :: u32 where "PCI_CFG_CAP_PTR = 0x34"
definition PCI_CFG_INTLINE :: u32 where "PCI_CFG_INTLINE = 0x3C"
definition PCI_CFG_INTPIN :: u32 where "PCI_CFG_INTPIN = 0x3D"
definition PCI_STATUS_CAP_LIST :: u16 where "PCI_STATUS_CAP_LIST = 0x0010"
definition PCI_CMD_MEM :: u16 where "PCI_CMD_MEM = 0x0002"
definition PCI_CMD_BUS_MASTER :: u16 where "PCI_CMD_BUS_MASTER = 0x0004"
definition PCI_CAP_ID_MSI :: u8 where "PCI_CAP_ID_MSI = 0x05"

lemmas pci_regs = PCI_CFG_VENDOR_DEVICE_def PCI_CFG_COMMAND_STATUS_def PCI_CFG_HEADER_TYPE_def
  PCI_CFG_BAR0_def PCI_CFG_SECONDARY_BUS_def PCI_CFG_CAP_PTR_def PCI_CFG_INTLINE_def
  PCI_CFG_INTPIN_def

record pci_func =
  p_bus :: u8
  p_dev :: u8
  p_func :: u8
  cfg :: u64
  bar :: "u64 list"
  bar_size :: "u64 list"

section \<open>Configuration space\<close>

definition pci_cfg_r32 :: "env \<Rightarrow> pci_func \<Rightarrow> u32 \<Rightarrow> mach \<Rightarrow> u32 \<times> mach" where
  "pci_cfg_r32 E f off m = mmio_r32 E (cfg f + ucast off) m"

definition pci_cfg_r16 :: "env \<Rightarrow> pci_func \<Rightarrow> u32 \<Rightarrow> mach \<Rightarrow> u16 \<times> mach" where
  "pci_cfg_r16 E f off m = mmio_r16 E (cfg f + ucast off) m"

definition pci_cfg_r8 :: "env \<Rightarrow> pci_func \<Rightarrow> u32 \<Rightarrow> mach \<Rightarrow> u8 \<times> mach" where
  "pci_cfg_r8 E f off m = mmio_r8 E (cfg f + ucast off) m"

definition pci_cfg_w32 :: "pci_func \<Rightarrow> u32 \<Rightarrow> u32 \<Rightarrow> mach \<Rightarrow> mach" where
  "pci_cfg_w32 f off v m = mmio_w32 (cfg f + ucast off) v m"

definition pci_cfg_w16 :: "pci_func \<Rightarrow> u32 \<Rightarrow> u16 \<Rightarrow> mach \<Rightarrow> mach" where
  "pci_cfg_w16 f off v m = mmio_w16 (cfg f + ucast off) v m"

definition pci_cfg_w8 :: "pci_func \<Rightarrow> u32 \<Rightarrow> u8 \<Rightarrow> mach \<Rightarrow> mach" where
  "pci_cfg_w8 f off v m = mmio_w8 (cfg f + ucast off) v m"

definition pci_func_irq_line :: "env \<Rightarrow> pci_func \<Rightarrow> mach \<Rightarrow> u32 \<times> mach" where
  "pci_func_irq_line E f m =
     (let (pin, m) = pci_cfg_r8 E f PCI_CFG_INTPIN m in
      if pin = 0 then (0, m)
      else (let (line, m) = pci_cfg_r8 E f PCI_CFG_INTLINE m in (ucast line, m)))"

text \<open>\<open>ecam\<close> is the file's static \<open>ecam_base\<close>.\<close>

definition pci_init :: "u64 \<Rightarrow> u64 \<Rightarrow> u64" where
  "pci_init b ecam = (if b \<noteq> 0 then b else ecam)"

definition ecam_addr :: "u64 \<Rightarrow> u8 \<Rightarrow> u8 \<Rightarrow> u8 \<Rightarrow> u64" where
  "ecam_addr ecam bus dev func =
     ecam OR push_bit 20 (ucast bus) OR push_bit 15 (ucast dev) OR push_bit 12 (ucast func)"

definition fill_func :: "u8 \<Rightarrow> u8 \<Rightarrow> u8 \<Rightarrow> u64 \<Rightarrow> pci_func" where
  "fill_func bus dev func c =
     \<lparr>p_bus = bus, p_dev = dev, p_func = func, cfg = c,
      bar = replicate 6 0, bar_size = replicate 6 0\<rparr>"

section \<open>The scan\<close>

text \<open>One pass of the function loop up to the recursion: nothing there, the match that ends
  the scan, or a function that has been counted, with the flag \<open>multifunc\<close> and the secondary
  bus to descend into (0 for none).\<close>

datatype scan_visit = Absent | Match pci_func | Visited u32 bool u8

definition scan_function ::
  "env \<Rightarrow> u64 \<Rightarrow> u32 \<Rightarrow> u32 \<Rightarrow> u8 \<Rightarrow> u8 \<Rightarrow> u8 \<Rightarrow> bool \<Rightarrow> u32 \<Rightarrow> mach \<Rightarrow> scan_visit \<times> mach" where
  "scan_function E ecam vd n bus dev func multi seen m =
     (let c = ecam_addr ecam bus dev func;
          (uid, m) = mmio_r32 E (c + ucast PCI_CFG_VENDOR_DEVICE) m in
      if uid = 0xFFFFFFFF then (Absent, m)
      else if uid = vd \<and> seen = n then (Match (fill_func bus dev func c), m)
      else
        (let seen = (if uid = vd then seen + 1 else seen);
             (hdr, m) = mmio_r8 E (c + ucast PCI_CFG_HEADER_TYPE) m;
             multi = (if func = 0 then hdr AND 0x80 \<noteq> 0 else multi) in
         if hdr AND 0x7F = 1
         then (let (sec, m) = mmio_r8 E (c + ucast PCI_CFG_SECONDARY_BUS) m
               in (Visited seen multi (if sec \<noteq> 0 \<and> sec \<noteq> bus then sec else 0), m))
         else (Visited seen multi 0, m)))"

text \<open>The two loops and the recursion of \<open>scan_bus\<close>: the state of a call is the position
  \<open>dev\<close>, \<open>func\<close>, the flag \<open>multifunc\<close> of the current device, and the counter
  \<open>seen\<close> shared by the calls.  A finished device loop is \<open>dev = 32\<close>, a finished function
  loop \<open>func = 8\<close>.\<close>

partial_function (option) scan_from ::
  "(u8 \<Rightarrow> u8 \<Rightarrow> u8 \<Rightarrow> bool \<Rightarrow> u32 \<Rightarrow> mach \<Rightarrow> scan_visit \<times> mach) \<Rightarrow>
     u8 \<times> u8 \<times> u8 \<times> bool \<times> u32 \<times> mach \<Rightarrow> (pci_func option \<times> u32 \<times> mach) option" where
  "scan_from visit s = (case s of (bus, dev, func, multi, seen, m) \<Rightarrow>
     (if \<not> dev < 32 then Some (None, seen, m)
      else if \<not> func < 8 then scan_from visit (bus, dev + 1, 0, False, seen, m)
      else
        (let (v, m) = visit bus dev func multi seen m in
         case v of
           Absent \<Rightarrow>
             if func = 0 then scan_from visit (bus, dev + 1, 0, False, seen, m)
             else scan_from visit (bus, dev, func + 1, multi, seen, m)
         | Match f \<Rightarrow> Some (Some f, seen, m)
         | Visited seen multi sec \<Rightarrow> do {
             (res, seen, m) \<leftarrow>
               (if sec \<noteq> 0 then scan_from visit (sec, 0, 0, False, seen, m)
                else Some (None, seen, m));
             if res \<noteq> None then Some (res, seen, m)
             else if func = 0 \<and> \<not> multi
             then scan_from visit (bus, dev + 1, 0, False, seen, m)
             else scan_from visit (bus, dev, func + 1, multi, seen, m) })))"

definition scan_bus ::
  "env \<Rightarrow> u64 \<Rightarrow> u8 \<Rightarrow> u32 \<Rightarrow> u32 \<Rightarrow> u32 \<Rightarrow> mach \<Rightarrow> (pci_func option \<times> u32 \<times> mach) option" where
  "scan_bus E ecam bus vd n seen m = scan_from (scan_function E ecam vd n) (bus, 0, 0, False, seen, m)"

definition pci_find_device_nth ::
  "env \<Rightarrow> u64 \<Rightarrow> u32 \<Rightarrow> u32 \<Rightarrow> mach \<Rightarrow> (pci_func option \<times> mach) option" where
  "pci_find_device_nth E ecam vd n m =
     do { (res, seen, m) \<leftarrow> scan_bus E ecam 0 vd n 0 m; Some (res, m) }"

definition pci_find_device :: "env \<Rightarrow> u64 \<Rightarrow> u32 \<Rightarrow> mach \<Rightarrow> (pci_func option \<times> mach) option" where
  "pci_find_device E ecam vd m = pci_find_device_nth E ecam vd 0 m"

section \<open>BARs, capabilities, MSI\<close>

function bars_loop :: "env \<Rightarrow> nat \<Rightarrow> pci_func \<times> mach \<Rightarrow> pci_func \<times> mach" where
  "bars_loop E i (f, m) =
     (if i < 6
      then
        (let off = PCI_CFG_BAR0 + of_nat i * 4; (lo, m) = pci_cfg_r32 E f off m in
         if lo = 0 then bars_loop E (i + 1) (f, m)
         else
           (let is_io = (lo AND 1 \<noteq> 0);
                is_64 = (\<not> is_io \<and> lo AND 6 = 4);
                msk = (if is_io then 3 else 0xF) :: u32;
                a = ucast (lo AND NOT msk) :: u64;
                (a, m) = (if is_64
                  then (let (hi, m) = pci_cfg_r32 E f (off + 4) m in (a OR push_bit 32 (ucast hi), m))
                  else (a, m));
                f = f\<lparr>bar := (bar f)[i := a]\<rparr>
            in bars_loop E (if is_64 then i + 2 else i + 1) (f, m)))
      else (f, m))"
  by pat_completeness auto
termination
  by (relation "measure (\<lambda>(E, i, s). 6 - i)") (auto split: if_splits)

declare bars_loop.simps [simp del]

definition pci_setup_bars :: "env \<Rightarrow> pci_func \<Rightarrow> mach \<Rightarrow> pci_func \<times> mach" where
  "pci_setup_bars E f m =
     (let (f, m) = bars_loop E 0 (f, m);
          (cmd, m) = pci_cfg_r16 E f PCI_CFG_COMMAND_STATUS m
      in (f, pci_cfg_w16 f PCI_CFG_COMMAND_STATUS (cmd OR PCI_CMD_MEM OR PCI_CMD_BUS_MASTER) m))"

fun cap_loop :: "env \<Rightarrow> pci_func \<Rightarrow> u8 \<Rightarrow> nat \<Rightarrow> u8 \<Rightarrow> mach \<Rightarrow> u8 \<times> mach" where
  "cap_loop E f want 0 off m = (0, m)"
| "cap_loop E f want (Suc hops) off m =
     (if off = 0 then (0, m)
      else
        (let (uid, m) = pci_cfg_r8 E f (ucast off) m;
             (nxt, m) = pci_cfg_r8 E f (ucast off + 1) m;
             nxt = nxt AND 0xFC in
         if uid = want then (off, m)
         else if nxt = off then (0, m)
         else cap_loop E f want hops nxt m))"

definition pci_find_capability :: "env \<Rightarrow> pci_func \<Rightarrow> u8 \<Rightarrow> mach \<Rightarrow> u8 \<times> mach" where
  "pci_find_capability E f want m =
     (let (cmdsts, m) = pci_cfg_r32 E f PCI_CFG_COMMAND_STATUS m;
          status = ucast (drop_bit 16 cmdsts) :: u16 in
      if status AND PCI_STATUS_CAP_LIST = 0 then (0, m)
      else (let (off, m) = pci_cfg_r8 E f PCI_CFG_CAP_PTR m
            in cap_loop E f want 48 (off AND 0xFC) m))"

definition pci_msi_configure ::
  "env \<Rightarrow> u64 \<Rightarrow> pci_func \<Rightarrow> u64 \<Rightarrow> u16 \<Rightarrow> mach \<Rightarrow> (bool \<times> mach) option" where
  "pci_msi_configure E ub f msi_addr msi_data m =
     (let (cp, m) = pci_find_capability E f PCI_CAP_ID_MSI m in
      if cp = 0 then Some (False, m)
      else
        (let cp = ucast cp :: u32;
             (msg_ctl, m) = pci_cfg_r16 E f (cp + 2) m;
             addr_64 = (msg_ctl AND push_bit 7 1 \<noteq> 0);
             new_ctl = (msg_ctl AND NOT 0x70) OR 1;
             m = pci_cfg_w32 f (cp + 4) (ucast (msi_addr AND 0xFFFFFFFF)) m
         in do {
           m \<leftarrow> (if addr_64
                then Some (pci_cfg_w16 f (cp + 12) msi_data
                             (pci_cfg_w32 f (cp + 8) (ucast (drop_bit 32 msi_addr)) m))
                else do {
                  m \<leftarrow> (if drop_bit 32 msi_addr \<noteq> 0
                       then uart_puts E ub (bytes_of ''pci_msi_configure: device only supports 32-bit address'' @ [10]) m
                       else Some m);
                  Some (pci_cfg_w16 f (cp + 8) msi_data m) });
           Some (True, pci_cfg_w16 f (cp + 2) new_ctl m) }))"

section \<open>The functions behind a root bus\<close>

text \<open>A configuration space that does not change during the scan is a function \<open>c\<close> from
  accesses to answers.  \<open>functions_below\<close> lists what can be reached from a bus through at most
  \<open>k\<close> levels of bridges, in depth-first order; \<open>levels\<close> says that \<open>k\<close> levels are all.\<close>

definition func_id :: "(access \<Rightarrow> u64) \<Rightarrow> u64 \<Rightarrow> u8 \<times> u8 \<times> u8 \<Rightarrow> u32" where
  "func_id c e = (\<lambda>(b, d, f). ucast (c (Rd32 (ecam_addr e b d f))))"

definition func_hdr :: "(access \<Rightarrow> u64) \<Rightarrow> u64 \<Rightarrow> u8 \<times> u8 \<times> u8 \<Rightarrow> u8" where
  "func_hdr c e = (\<lambda>(b, d, f). ucast (c (Rd8 (ecam_addr e b d f + 0x0E))))"

definition bridge_to :: "(access \<Rightarrow> u64) \<Rightarrow> u64 \<Rightarrow> u8 \<times> u8 \<times> u8 \<Rightarrow> u8" where
  "bridge_to c e = (\<lambda>(b, d, f).
     let s = ucast (c (Rd8 (ecam_addr e b d f + 0x19)))
     in if func_hdr c e (b, d, f) AND 0x7F = 1 \<and> s \<noteq> b then s else 0)"

definition slot_funcs :: "(access \<Rightarrow> u64) \<Rightarrow> u64 \<Rightarrow> u8 \<Rightarrow> u8 \<Rightarrow> u8 list" where
  "slot_funcs c e b d =
     (if func_id c e (b, d, 0) = 0xFFFFFFFF then []
      else if func_hdr c e (b, d, 0) AND 0x80 = 0 then [0]
      else filter (\<lambda>f. func_id c e (b, d, f) \<noteq> 0xFFFFFFFF) (map of_nat [0..<8]))"

fun functions_below :: "(access \<Rightarrow> u64) \<Rightarrow> u64 \<Rightarrow> nat \<Rightarrow> u8 \<Rightarrow> (u8 \<times> u8 \<times> u8) list" where
  "functions_below c e 0 b = []"
| "functions_below c e (Suc k) b =
     concat (map (\<lambda>d. concat (map (\<lambda>f. (b, of_nat d, f) #
       (let s = bridge_to c e (b, of_nat d, f) in if s = 0 then [] else functions_below c e k s))
       (slot_funcs c e b (of_nat d)))) [0..<32])"

fun levels :: "(access \<Rightarrow> u64) \<Rightarrow> u64 \<Rightarrow> nat \<Rightarrow> u8 \<Rightarrow> bool" where
  "levels c e 0 b = False"
| "levels c e (Suc k) b = (\<forall>d<32. \<forall>f\<in>set (slot_funcs c e b (of_nat d)).
     let s = bridge_to c e (b, of_nat d, f) in s = 0 \<or> levels c e k s)"

definition found :: "u64 \<Rightarrow> u8 \<times> u8 \<times> u8 \<Rightarrow> pci_func" where
  "found e = (\<lambda>(b, d, f). fill_func b d f (ecam_addr e b d f))"

text \<open>What a scan that has already passed \<open>s\<close> matches finds in a list of functions.\<close>

definition hits :: "(access \<Rightarrow> u64) \<Rightarrow> u64 \<Rightarrow> u32 \<Rightarrow> u32 \<Rightarrow> u32 \<Rightarrow> (u8 \<times> u8 \<times> u8) list \<Rightarrow>
    pci_func option \<times> u32 \<times> mach \<Rightarrow> bool" where
  "hits c e vd n s L = (\<lambda>(res, s', m).
     let ms = filter (\<lambda>x. func_id c e x = vd) L in
     if unat n < unat s + length ms then res = Some (found e (ms ! (unat n - unat s)))
     else res = None \<and> unat s' = unat s + length ms)"

lemma hits_Nil: "s \<le> n \<Longrightarrow> hits c e vd n s [] (None, s, m)"
  by (simp add: hits_def word_le_nat_alt)

lemma hits_found:
  "s \<le> n \<Longrightarrow> hits c e vd n s L (Some f, s', m) \<Longrightarrow> hits c e vd n s (L @ L') (Some f, s'', m')"
  by (auto simp: hits_def Let_def nth_append word_le_nat_alt split: if_splits)

lemma hits_more:
  assumes "hits c e vd n s L (None, s1, m1)" "hits c e vd n s1 L' (r, s2, m2)"
  shows "hits c e vd n s (L @ L') (r, s2, m2)"
  using assms by (auto simp: hits_def Let_def nth_append diff_diff_add split: if_splits)

lemma hits_bound: "hits c e vd n s L (None, s', m) \<Longrightarrow> s' \<le> n"
  by (auto simp: hits_def Let_def word_le_nat_alt split: if_splits)

text \<open>The part of a bus that is left at position \<open>(d, f)\<close>.\<close>

definition below :: "(access \<Rightarrow> u64) \<Rightarrow> u64 \<Rightarrow> nat \<Rightarrow> u8 \<times> u8 \<times> u8 \<Rightarrow> (u8 \<times> u8 \<times> u8) list" where
  "below c e k x = x # (if bridge_to c e x = 0 then [] else functions_below c e k (bridge_to c e x))"

definition slot_rest :: "(access \<Rightarrow> u64) \<Rightarrow> u64 \<Rightarrow> nat \<Rightarrow> u8 \<Rightarrow> nat \<Rightarrow> nat \<Rightarrow> (u8 \<times> u8 \<times> u8) list" where
  "slot_rest c e k b d f = concat (map (\<lambda>f. below c e k (b, of_nat d, f))
     (filter (\<lambda>f. func_id c e (b, of_nat d, f) \<noteq> 0xFFFFFFFF) (map of_nat [f..<8])))"

definition bus_rest :: "(access \<Rightarrow> u64) \<Rightarrow> u64 \<Rightarrow> nat \<Rightarrow> u8 \<Rightarrow> nat \<Rightarrow> (u8 \<times> u8 \<times> u8) list" where
  "bus_rest c e k b d = concat (map (\<lambda>d. concat (map (\<lambda>f. below c e k (b, of_nat d, f))
     (slot_funcs c e b (of_nat d)))) [d..<32])"

lemma functions_below_Suc: "functions_below c e (Suc k) b = bus_rest c e k b 0"
  by (simp add: bus_rest_def below_def Let_def)

declare functions_below.simps(2) [simp del] levels.simps(2) [simp del]

lemma slot_rest_Suc:
  "f < 8 \<Longrightarrow> slot_rest c e k b d f =
     (if func_id c e (b, of_nat d, of_nat f) = 0xFFFFFFFF then [] else below c e k (b, of_nat d, of_nat f))
     @ slot_rest c e k b d (Suc f)"
  by (simp add: slot_rest_def upt_conv_Cons)

lemma slot_rest_8 [simp]: "slot_rest c e k b d 8 = []"
  by (simp add: slot_rest_def)

lemma bus_rest_Suc:
  "d < 32 \<Longrightarrow> bus_rest c e k b d =
     (if func_id c e (b, of_nat d, 0) = 0xFFFFFFFF then []
      else below c e k (b, of_nat d, 0) @
        (if func_hdr c e (b, of_nat d, 0) AND 0x80 = 0 then [] else slot_rest c e k b d 1))
     @ bus_rest c e k b (Suc d)"
proof -
  assume d: "d < 32"
  have "[0..<8] = 0 # [1..<8]" by (simp add: upt_conv_Cons)
  then show ?thesis using d
    by (simp only: bus_rest_def upt_conv_Cons slot_funcs_def slot_rest_def) simp
qed

lemma bus_rest_32 [simp]: "bus_rest c e k b 32 = []"
  by (simp add: bus_rest_def)

text \<open>One visit on a static configuration space.\<close>

lemma scan_function_static:
  "scan_function (\<lambda>h. c) e vd n b d f multi s m =
     (let x = (b, d, f); m1 = emits [Rd32 (ecam_addr e b d f)] m;
          m2 = emits [Rd32 (ecam_addr e b d f), Rd8 (ecam_addr e b d f + 0x0E)] m in
      if func_id c e x = 0xFFFFFFFF then (Absent, m1)
      else if func_id c e x = vd \<and> s = n then (Match (found e x), m1)
      else (Visited (if func_id c e x = vd then s + 1 else s)
              (if f = 0 then func_hdr c e x AND 0x80 \<noteq> 0 else multi) (bridge_to c e x),
            if func_hdr c e x AND 0x7F = 1 then emits [Rd8 (ecam_addr e b d f + 0x19)] m2 else m2))"
  by (simp add: scan_function_def func_id_def func_hdr_def bridge_to_def found_def pci_regs Let_def
      emit_emits)

lemma pos_less:
  "d \<le> 32 \<Longrightarrow> ((of_nat d :: u8) < 32) = (d < 32)"
  "f \<le> 8 \<Longrightarrow> ((of_nat f :: u8) < 8) = (f < 8)"
  "f \<le> 8 \<Longrightarrow> ((of_nat f :: u8) = 0) = (f = 0)"
  by (simp_all add: word_less_nat_alt unat_of_nat_small unat_eq_zero [symmetric] del: unat_eq_zero)

text \<open>The invariant of a position past function 0, and the functions left there.\<close>

definition pos_ok :: "(access \<Rightarrow> u64) \<Rightarrow> u64 \<Rightarrow> u8 \<Rightarrow> nat \<Rightarrow> nat \<Rightarrow> bool \<Rightarrow> bool" where
  "pos_ok c e b d f multi = (d \<le> 32 \<and> f \<le> 8 \<and> (f \<noteq> 0 \<longrightarrow> d < 32 \<and> multi \<and>
     func_id c e (b, of_nat d, 0) \<noteq> 0xFFFFFFFF \<and> func_hdr c e (b, of_nat d, 0) AND 0x80 \<noteq> 0))"

definition left_at :: "(access \<Rightarrow> u64) \<Rightarrow> u64 \<Rightarrow> nat \<Rightarrow> u8 \<Rightarrow> nat \<Rightarrow> nat \<Rightarrow> (u8 \<times> u8 \<times> u8) list" where
  "left_at c e k b d f = (if f = 0 then bus_rest c e k b d
     else slot_rest c e k b d f @ bus_rest c e k b (Suc d))"

definition scans :: "(access \<Rightarrow> u64) \<Rightarrow> u64 \<Rightarrow> u32 \<Rightarrow> u32 \<Rightarrow> u8 \<times> u8 \<times> u8 \<times> bool \<times> u32 \<times> mach \<Rightarrow>
    (u8 \<times> u8 \<times> u8) list \<Rightarrow> bool" where
  "scans c e vd n st L = (case st of (b, d, f, multi, s, m) \<Rightarrow>
     \<exists>r. scan_from (scan_function (\<lambda>h. c) e vd n) st = Some r \<and> hits c e vd n s L r)"

lemma below_visited:
  assumes sub: "bridge_to c e x \<noteq> 0 \<Longrightarrow> \<exists>r. scan_from V (bridge_to c e x, 0, 0, False, s1, m) = Some r \<and>
      hits c e vd n s1 (functions_below c e k (bridge_to c e x)) r"
    and s1: "s1 = (if func_id c e x = vd then s + 1 else s)" "\<not> (func_id c e x = vd \<and> s = n)" "s \<le> n"
  shows "\<exists>r s2 m2. (if bridge_to c e x \<noteq> 0 then scan_from V (bridge_to c e x, 0, 0, False, s1, m)
           else Some (None, s1, m)) = Some (r, s2, m2) \<and> hits c e vd n s (below c e k x) (r, s2, m2)"
proof -
  have "unat s1 = unat s + (if func_id c e x = vd then 1 else 0) \<and> s1 \<le> n"
  proof (cases "func_id c e x = vd")
    case True
    then have "s < n" using s1 by auto
    then have "unat (s + 1) = unat s + 1"
      using unat_u32_less [of n] by (subst unat_add_no_wrap) (simp_all add: word_less_nat_alt)
    then show ?thesis using s1 True \<open>s < n\<close> by (simp add: word_less_nat_alt word_le_nat_alt)
  qed (use s1 in simp)
  then have one: "hits c e vd n s [x] (None, s1, m)"
    by (auto simp: hits_def Let_def word_le_nat_alt)
  show ?thesis
  proof (cases "bridge_to c e x = 0")
    case True
    then show ?thesis using one by (simp add: below_def)
  next
    case False
    from sub [OF False] obtain r s2 m2 where "scan_from V (bridge_to c e x, 0, 0, False, s1, m) = Some (r, s2, m2)"
      "hits c e vd n s1 (functions_below c e k (bridge_to c e x)) (r, s2, m2)" by auto
    then show ?thesis using hits_more [OF one] False by (auto simp: below_def)
  qed
qed

lemma left_at_step:
  assumes "pos_ok c e b d f multi" "d < 32" "f < 8"
  shows "left_at c e k b d f =
    (if func_id c e (b, of_nat d, of_nat f) = 0xFFFFFFFF
     then if f = 0 then left_at c e k b (Suc d) 0 else left_at c e k b d (Suc f)
     else below c e k (b, of_nat d, of_nat f) @
       (if f = 0 \<and> func_hdr c e (b, of_nat d, 0) AND 0x80 = 0 then left_at c e k b (Suc d) 0
        else left_at c e k b d (Suc f)))"
  using assms by (simp add: left_at_def bus_rest_Suc slot_rest_Suc)

lemma scan_from_end: "scan_from V (b, of_nat 32, f, multi, s, m) = Some (None, s, m)"
  by (subst scan_from.simps) simp

lemma scan_from_next_dev:
  "d < 32 \<Longrightarrow> scan_from V (b, of_nat d, of_nat 8, multi, s, m) =
     scan_from V (b, of_nat (Suc d), of_nat 0, False, s, m)"
  by (subst scan_from.simps) (simp add: pos_less add.commute)

lemma scan_from_visit:
  assumes "d < 32" "f < 8"
  shows "scan_from V (b, of_nat d, of_nat f, multi, s, m) =
    (let (v, m) = V b (of_nat d) (of_nat f) multi s m in
     case v of
       Absent \<Rightarrow> if f = 0 then scan_from V (b, of_nat (Suc d), of_nat 0, False, s, m)
                 else scan_from V (b, of_nat d, of_nat (Suc f), multi, s, m)
     | Match f \<Rightarrow> Some (Some f, s, m)
     | Visited s multi sec \<Rightarrow> do {
         (res, s, m) \<leftarrow> (if sec \<noteq> 0 then scan_from V (sec, 0, 0, False, s, m) else Some (None, s, m));
         if res \<noteq> None then Some (res, s, m)
         else if f = 0 \<and> \<not> multi then scan_from V (b, of_nat (Suc d), of_nat 0, False, s, m)
         else scan_from V (b, of_nat d, of_nat (Suc f), multi, s, m) })"
proof -
  have e: "of_nat (Suc d) = (of_nat d + 1 :: u8)" "of_nat (Suc f) = (of_nat f + 1 :: u8)"
    "(f = 0) = ((of_nat f :: u8) = 0)" "of_nat 0 = (0 :: u8)"
    using assms by (simp_all add: pos_less add.commute)
  show ?thesis unfolding e using assms by (subst scan_from.simps) (simp add: pos_less)
qed

lemma hits_match:
  "func_id c e x = vd \<Longrightarrow> hits c e vd n n (below c e k x @ L) (Some (found e x), s', m)"
  by (simp add: hits_def below_def)

lemma in_slot:
  assumes "pos_ok c e b d f multi" "f < 8" "func_id c e (b, of_nat d, of_nat f) \<noteq> 0xFFFFFFFF"
  shows "of_nat f \<in> set (slot_funcs c e b (of_nat d))"
proof (cases "f = 0")
  case True
  have "(0 :: u8) \<in> of_nat ` {0..<8}" by (rule image_eqI [of _ _ 0]) simp_all
  then show ?thesis using assms True by (simp add: slot_funcs_def)
qed (use assms in \<open>simp add: pos_ok_def slot_funcs_def\<close>)

lemma scan_below:
  assumes "levels c e k b" "pos_ok c e b d f multi" "s \<le> n"
  shows "scans c e vd n (b, of_nat d, of_nat f, multi, s, m) (left_at c e (k - 1) b d f)"
  using assms
proof (induction k arbitrary: b d f multi s m)
  case 0
  then show ?case by simp
next
  case (Suc k)
  let ?V = "scan_function (\<lambda>h. c) e vd n"
  note lev = Suc.prems(1)
  have sub: "scans c e vd n (s, 0, 0, False, s1, m) (functions_below c e k s)"
    if "levels c e k s" "s1 \<le> n" for s s1 m
  proof (cases k)
    case 0
    with that show ?thesis by simp
  next
    case (Suc k')
    have "pos_ok c e s 0 0 False" by (simp add: pos_ok_def)
    from Suc.IH [OF that(1) this that(2)] show ?thesis
      by (simp add: left_at_def functions_below_Suc Suc)
  qed
  show ?case using Suc.prems(2,3)
  proof (induction "(32 - d) * 9 + (8 - f)" arbitrary: d f multi s m rule: less_induct)
    case less
    let ?x = "(b, of_nat d :: u8, of_nat f :: u8)"
    have lim: "d \<le> 32" "f \<le> 8" using less.prems by (simp_all add: pos_ok_def)
    have dev: "scans c e vd n (b, of_nat (Suc d), of_nat 0, False, s', m') (left_at c e k b (Suc d) 0)"
      if "d < 32" "s' \<le> n" for s' m'
      using less.hyps [of "Suc d" 0 False s' m'] that by (simp add: pos_ok_def)
    show ?case
    proof (cases "d < 32 \<and> f < 8")
      case False
      show ?thesis
      proof (cases "d < 32")
        case True
        with False lim have f: "f = 8" by simp
        then have l: "left_at c e k b d f = left_at c e k b (Suc d) 0"
          by (simp add: left_at_def)
        show ?thesis using dev [OF True less.prems(2), of m]
          unfolding scans_def f prod.case scan_from_next_dev [OF True] by (simp add: l [unfolded f])
      next
        case nd: False
        with lim less.prems have "d = 32" "f = 0" by (auto simp: pos_ok_def)
        then show ?thesis using hits_Nil [OF less.prems(2), of c e vd m] scan_from_end
          by (simp add: scans_def left_at_def)
      qed
    next
      case True
      then have d: "d < 32" and f: "f < 8" by simp_all
      have fn: "scans c e vd n (b, of_nat d, of_nat (Suc f), True, s', m') (left_at c e k b d (Suc f))"
        if "pos_ok c e b d (Suc f) True" "s' \<le> n" for s' m'
        using less.hyps [of d "Suc f" True s' m'] that f by simp
      have z: "((of_nat f :: u8) = 0) = (f = 0)" using f by (simp add: pos_less)
      have nxt: "f \<noteq> 0 \<or> func_id c e ?x \<noteq> 0xFFFFFFFF \<and> func_hdr c e ?x AND 0x80 \<noteq> 0 \<Longrightarrow> pos_ok c e b d (Suc f) True"
        using less.prems(1) d f by (auto simp: pos_ok_def)
      have mt: "f \<noteq> 0 \<Longrightarrow> multi" using less.prems(1) by (simp add: pos_ok_def)
      note step = scan_from_visit [OF d f, of ?V b multi s m] left_at_step [OF less.prems(1) d f, of k]
      show ?thesis
      proof (cases "func_id c e ?x = 0xFFFFFFFF")
        case True
        show ?thesis using True dev [OF d less.prems(2)] fn [OF nxt less.prems(2)] mt
          by (simp add: scans_def step scan_function_static z Let_def del: of_nat_Suc)
      next
        case present: False
        show ?thesis
        proof (cases "func_id c e ?x = vd \<and> s = n")
          case True
          then obtain m1 where vis: "?V b (of_nat d) (of_nat f) multi s m = (Match (found e ?x), m1)"
            using present by (auto simp: scan_function_static Let_def)
          have eq: "scan_from ?V (b, of_nat d, of_nat f, multi, s, m) = Some (Some (found e ?x), s, m1)"
            by (simp add: step(1) vis)
          show ?thesis unfolding scans_def prod.case eq using True present
            by (simp add: step(2) hits_match)
        next
          case False
          let ?s1 = "if func_id c e ?x = vd then s + 1 else s"
          let ?mu = "if f = 0 then func_hdr c e ?x AND 0x80 \<noteq> 0 else multi"
          obtain m1 where vis: "?V b (of_nat d) (of_nat f) multi s m = (Visited ?s1 ?mu (bridge_to c e ?x), m1)"
            using present False z by (auto simp: scan_function_static Let_def)
          have s1: "?s1 \<le> n" using False less.prems(2) by (auto simp: inc_le)
          have lv: "bridge_to c e ?x \<noteq> 0 \<Longrightarrow> levels c e k (bridge_to c e ?x)"
            using lev d f present less.prems(1) in_slot [OF less.prems(1) f present]
            by (auto simp: levels.simps(2) Let_def)
          from below_visited [OF _ refl False less.prems(2), of ?V m1 k] sub [OF lv s1]
          obtain r s2 m2 where r: "(if bridge_to c e ?x \<noteq> 0 then scan_from ?V (bridge_to c e ?x, 0, 0, False, ?s1, m1)
              else Some (None, ?s1, m1)) = Some (r, s2, m2)" "hits c e vd n s (below c e k ?x) (r, s2, m2)"
            by (auto simp: scans_def)
          have eq: "scan_from ?V (b, of_nat d, of_nat f, multi, s, m) =
              (if r \<noteq> None then Some (r, s2, m2)
               else if f = 0 \<and> \<not> ?mu then scan_from ?V (b, of_nat (Suc d), of_nat 0, False, s2, m2)
               else scan_from ?V (b, of_nat d, of_nat (Suc f), ?mu, s2, m2))"
            by (simp only: step(1) vis r(1) Let_def prod.case scan_visit.case bind.simps)
          show ?thesis
          proof (cases r)
            case (Some g)
            then show ?thesis unfolding scans_def prod.case eq using r(2) present
              by (auto simp: step(2) intro: hits_found [OF less.prems(2)])
          next
            case None
            then have s2: "s2 \<le> n" using r(2) hits_bound by blast
            note more = hits_more [OF r(2) [unfolded None]]
            show ?thesis
            proof (cases "f = 0 \<and> func_hdr c e ?x AND 0x80 = 0")
              case True
              then have la: "left_at c e k b d f = below c e k ?x @ left_at c e k b (Suc d) 0"
                using step(2) present by auto
              from dev [OF d s2, of m2] obtain a b' c' where
                "scan_from ?V (b, of_nat (Suc d), of_nat 0, False, s2, m2) = Some (a, b', c')"
                "hits c e vd n s2 (left_at c e k b (Suc d) 0) (a, b', c')"
                unfolding scans_def prod.case by (metis prod_cases3)
              with more [OF this(2)] show ?thesis unfolding scans_def prod.case eq
                using None True by (simp add: la [simplified True] del: of_nat_Suc) auto
            next
              case False
              then have "pos_ok c e b d (Suc f) True" "?mu" using nxt present mt by auto
              moreover from fn [OF _ s2, of m2] calculation obtain a b' c' where
                "scan_from ?V (b, of_nat d, of_nat (Suc f), True, s2, m2) = Some (a, b', c')"
                "hits c e vd n s2 (left_at c e k b d (Suc f)) (a, b', c')"
                unfolding scans_def prod.case by (metis prod_cases3)
              moreover have "left_at c e k b d f = below c e k ?x @ left_at c e k b d (Suc f)"
                using False step(2) present by auto
              ultimately show ?thesis unfolding scans_def prod.case eq
                using None False more by (auto simp del: of_nat_Suc)
            qed
          qed
        qed
      qed
    qed
  qed
qed

text \<open>C17: on a configuration space in which the bridges below the root bus nest at most
  \<open>k\<close> deep, the search returns, and its result is the n-th function with the wanted id in the
  depth-first order of the functions, each reported with its position and its configuration
  address; if there are not that many, it reports none.\<close>

theorem pci_find_device_nth_correct:
  assumes "levels c ecam k 0"
  shows "\<exists>m'. pci_find_device_nth (\<lambda>h. c) ecam vd n m =
    Some (let ms = filter (\<lambda>x. func_id c ecam x = vd) (functions_below c ecam k 0)
          in if unat n < length ms then Some (found ecam (ms ! unat n)) else None, m')"
proof -
  obtain k' where k: "k = Suc k'" using assms by (cases k) auto
  have p: "pos_ok c ecam 0 0 0 False" by (simp add: pos_ok_def)
  have "left_at c ecam (k - 1) 0 0 0 = functions_below c ecam k 0"
    by (simp add: k left_at_def functions_below_Suc)
  with scan_below [OF assms p, of 0 n vd m]
  obtain r s' m' where "scan_from (scan_function (\<lambda>h. c) ecam vd n) (0, 0, 0, False, 0, m) = Some (r, s', m')"
    "hits c ecam vd n 0 (functions_below c ecam k 0) (r, s', m')"
    by (auto simp: scans_def)
  then show ?thesis
    by (auto simp: pci_find_device_nth_def scan_bus_def hits_def Let_def split: if_splits)
qed

text \<open>A host bridge in slot 0 and a bridge in slot 1 whose secondary bus holds a controller.\<close>

definition demo_config :: "access \<Rightarrow> u64" where
  "demo_config a = (case a of
     Rd32 x \<Rightarrow> if x = 0x30000000 then 0x0000F15E else if x = 0x30008000 then 0x00011AF4
               else if x = 0x30100000 then 0x45121F31 else 0xFFFFFFFF
   | Rd8 x \<Rightarrow> if x = 0x3000800E then 1 else if x = 0x30008019 then 1 else 0
   | _ \<Rightarrow> 0)"

lemma demo_slots:
  "slot_funcs demo_config 0x30000000 0 (of_nat d) = (if d = 0 \<or> d = 1 then [0] else [])"
  "slot_funcs demo_config 0x30000000 1 (of_nat d) = (if d = 0 then [0] else [])"
  if "d < 32"
proof -
  have "d \<in> set [0..<32]" using that by simp
  then show "slot_funcs demo_config 0x30000000 0 (of_nat d) = (if d = 0 \<or> d = 1 then [0] else [])"
    "slot_funcs demo_config 0x30000000 1 (of_nat d) = (if d = 0 then [0] else [])"
    by (simp_all add: upt_rec) (elim disjE; simp add: slot_funcs_def func_id_def func_hdr_def
      demo_config_def ecam_addr_def)+
qed

lemma demo_bridges:
  "bridge_to demo_config 0x30000000 (0, 0, 0) = 0" "bridge_to demo_config 0x30000000 (0, 1, 0) = 1"
  "bridge_to demo_config 0x30000000 (1, 0, 0) = 0"
  by (simp_all add: bridge_to_def func_hdr_def demo_config_def ecam_addr_def)

lemma pci_find_device_nth_correct_witness:
  "\<exists>m'. pci_find_device_nth (\<lambda>h. demo_config) 0x30000000 0x45121F31 0 mach0 =
     Some (Some (fill_func 1 0 0 0x30100000), m')"
proof -
  let ?e = "0x30000000 :: u64"
  have l: "levels demo_config ?e (Suc (Suc 0)) 0"
    by (auto simp: levels.simps(2) Let_def demo_slots demo_bridges split: if_splits)
  define ds where "ds = [2..<32 :: nat]"
  have up: "[0..<32] = 0 # 1 # ds" by (simp add: ds_def upt_rec)
  have "\<forall>d\<in>set ds. 2 \<le> d \<and> d < 32" unfolding ds_def set_upt by auto
  then have z: "concat (map (\<lambda>d. concat (map (h d) (slot_funcs demo_config ?e b (of_nat d)))) ds) = []"
    if "b = 0 \<or> b = 1" for b :: u8 and h :: "nat \<Rightarrow> u8 \<Rightarrow> (u8 \<times> u8 \<times> u8) list"
    using that by (auto simp: demo_slots)
  have "functions_below demo_config ?e (Suc (Suc 0)) 0 = [(0, 0, 0), (0, 1, 0), (1, 0, 0)]"
    using demo_slots [of 0] demo_slots [of 1]
    by (simp add: functions_below.simps(2) up z demo_bridges Let_def)
  moreover have "func_id demo_config ?e (0, 0, 0) \<noteq> 0x45121F31" "func_id demo_config ?e (0, 1, 0) \<noteq> 0x45121F31"
    "func_id demo_config ?e (1, 0, 0) = 0x45121F31" "ecam_addr ?e 1 0 0 = 0x30100000"
    by (simp_all add: func_id_def demo_config_def ecam_addr_def)
  ultimately show ?thesis
    using pci_find_device_nth_correct [OF l, of "0x45121F31" 0 mach0] by (simp add: found_def)
qed

text \<open>The capability list of a configuration space, as offsets with their ids.\<close>

fun cap_list :: "(access \<Rightarrow> u64) \<Rightarrow> pci_func \<Rightarrow> u8 \<Rightarrow> (u8 \<times> u8) list \<Rightarrow> bool" where
  "cap_list c f off [] = (off = 0)"
| "cap_list c f off ((o1, i) # cs) = (off = o1 \<and> ucast (c (Rd8 (cfg f + ucast o1))) = i \<and>
     cap_list c f (ucast (c (Rd8 (cfg f + ucast o1 + 1))) AND 0xFC) cs)"

lemma cap_loop_finds:
  assumes "cap_list c f off cs" "\<forall>(o1, i)\<in>set cs. o1 \<noteq> 0" "distinct (map fst cs)" "length cs \<le> k"
  shows "\<exists>m'. cap_loop (\<lambda>h. c) f want k off m =
    ((case find (\<lambda>(o1, i). i = want) cs of None \<Rightarrow> 0 | Some (o1, i) \<Rightarrow> o1), m')"
  using assms
proof (induction cs arbitrary: off k m)
  case Nil
  then show ?case by (cases k) auto
next
  case (Cons ci cs)
  obtain o1 i where ci: "ci = (o1, i)" by (cases ci)
  obtain k' where k: "k = Suc k'" using Cons.prems(4) by (cases k) auto
  let ?n = "ucast (c (Rd8 (cfg f + ucast o1 + 1))) AND 0xFC :: u8"
  have a: "ucast o1 + (1 :: u32) = ucast o1 + 1" ..
  have u: "(ucast (ucast o1 + 1 :: u32) :: u64) = ucast o1 + 1"
    using unat_u8_less [of o1]
    by (simp add: word_unat_eq_iff unsigned_ucast_eq unat_word_ariths take_bit_nat_eq_self)
  have u0: "(ucast (ucast o1 :: u32) :: u64) = ucast o1"
    by (simp add: ucast_ucast_up)
  have st: "off = o1" "o1 \<noteq> 0" "ucast (c (Rd8 (cfg f + ucast o1))) = i" "cap_list c f ?n cs"
    using Cons.prems ci by auto
  have self: "?n = o1 \<Longrightarrow> False" using st(2,4) Cons.prems(3) ci by (cases cs) auto
  have "\<exists>m'. cap_loop (\<lambda>h. c) f want k' ?n m2 =
      ((case find (\<lambda>(o1, i). i = want) cs of None \<Rightarrow> 0 | Some (o1, i) \<Rightarrow> o1), m')" for m2
    using Cons.prems k ci st(4) by (intro Cons.IH) auto
  then show ?case using st self k ci
    by (auto simp: pci_cfg_r8_def Let_def u u0 add.assoc)
qed

text \<open>At most 48 distinct word-aligned offsets lie in the part of configuration space that
  capabilities may use, so the hop budget never cuts off a well-formed list.\<close>

lemma cap_offsets_bound:
  assumes "distinct os" "\<forall>x\<in>set os. 0x40 \<le> x \<and> x AND 3 = (0 :: u8)"
  shows "length os \<le> 48"
proof -
  have "set os \<subseteq> of_nat ` (\<lambda>i. 64 + 4 * i) ` {0..<48}"
  proof
    fix x assume "x \<in> set os"
    then have x: "0x40 \<le> x" "x AND 3 = 0" using assms(2) by auto
    have "unat (x AND mask 2) = 0" using x(2) by (simp add: mask_eq_exp_minus_1)
    then have m: "unat x mod 4 = 0" unfolding unat_and_mask by simp
    have "64 \<le> unat x" using x(1) by (simp add: word_le_nat_alt)
    then have "unat x = 64 + 4 * ((unat x - 64) div 4)" using m by presburger
    moreover have "(unat x - 64) div 4 < 48" using unat_u8_less [of x] by simp
    ultimately have "unat x \<in> (\<lambda>i. 64 + 4 * i) ` {0..<48}" by (metis atLeastLessThan_iff image_eqI zero_le)
    moreover have "x = of_nat (unat x)" by simp
    ultimately show "x \<in> of_nat ` (\<lambda>i. 64 + 4 * i) ` {0..<48}" by blast
  qed
  then have "card (set os) \<le> card ((of_nat :: nat \<Rightarrow> u8) ` (\<lambda>i. 64 + 4 * i) ` {0..<48})"
    by (intro card_mono) simp_all
  also have "\<dots> \<le> card ((\<lambda>i :: nat. 64 + 4 * i) ` {0..<48})" by (rule card_image_le) simp
  also have "\<dots> \<le> 48" using card_image_le [of "{0..<48 :: nat}" "\<lambda>i. 64 + 4 * i"] by simp
  finally have "card (set os) \<le> 48" .
  then show ?thesis using distinct_card [OF assms(1)] by simp
qed

text \<open>C32: on a device that advertises a well-formed capability list (each offset in the area
  capabilities may use, word-aligned, no offset twice), the walk returns the offset of the
  first capability with the wanted id, and 0 if there is none: the budget of 48 hops is
  always enough.\<close>

theorem pci_find_capability_correct:
  assumes "(ucast (drop_bit 16 (ucast (c (Rd32 (cfg f + 4))) :: u32)) :: u16) AND 0x10 \<noteq> 0"
    and "cap_list c f (ucast (c (Rd8 (cfg f + 0x34))) AND 0xFC) cs"
    and "\<forall>x\<in>set (map fst cs). 0x40 \<le> x \<and> x AND 3 = 0" "distinct (map fst cs)"
  shows "\<exists>m'. pci_find_capability (\<lambda>h. c) f want m =
    ((case find (\<lambda>(o1, i). i = want) cs of None \<Rightarrow> 0 | Some (o1, i) \<Rightarrow> o1), m')"
proof -
  have "length cs \<le> 48" using cap_offsets_bound [OF assms(4,3)] by simp
  moreover have "\<forall>(o1, i)\<in>set cs. o1 \<noteq> 0" using assms(3) by force
  ultimately show ?thesis using cap_loop_finds [OF assms(2) _ assms(4)] assms(1)
    by (simp add: pci_find_capability_def pci_cfg_r32_def pci_cfg_r8_def pci_regs PCI_STATUS_CAP_LIST_def Let_def)
qed

definition demo_caps :: "access \<Rightarrow> u64" where
  "demo_caps a = (case a of Rd32 x \<Rightarrow> if x = 4 then 0x100000 else 0
     | Rd8 x \<Rightarrow> if x = 0x34 then 0x40 else if x = 0x40 then 1 else if x = 0x41 then 0x50
               else if x = 0x50 then 5 else 0
     | _ \<Rightarrow> 0)"

lemma pci_find_capability_correct_witness:
  "\<exists>m'. pci_find_capability (\<lambda>h. demo_caps) (fill_func 0 3 0 0) PCI_CAP_ID_MSI mach0 = (0x50, m')"
  using pci_find_capability_correct [of demo_caps "fill_func 0 3 0 0" "[(0x40, 1), (0x50, 5)]" PCI_CAP_ID_MSI mach0]
  by (simp add: demo_caps_def fill_func_def PCI_CAP_ID_MSI_def)

text \<open>Message-signalled interrupts.  A register of configuration space after a history of writes
  of its width reads as the last of them.\<close>

definition is_read :: "access \<Rightarrow> bool" where
  "is_read x = (case x of Rd8 _ \<Rightarrow> True | Rd16 _ \<Rightarrow> True | Rd32 _ \<Rightarrow> True | Rd64 _ \<Rightarrow> True | _ \<Rightarrow> False)"

definition writes16 :: "u64 \<Rightarrow> history \<Rightarrow> u16 list" where
  "writes16 a h = List.map_filter (\<lambda>x. case x of Wr16 b v \<Rightarrow> if b = a then Some v else None | _ \<Rightarrow> None) h"

definition reg16 :: "(access \<Rightarrow> u64) \<Rightarrow> history \<Rightarrow> u64 \<Rightarrow> u16" where
  "reg16 c h a = (if writes16 a h = [] then ucast (c (Rd16 a)) else last (writes16 a h))"

definition reg32 :: "(access \<Rightarrow> u64) \<Rightarrow> history \<Rightarrow> u64 \<Rightarrow> u32" where
  "reg32 c h a = (if writes32 a h = [] then ucast (c (Rd32 a)) else last (writes32 a h))"

text \<open>What the capability at \<open>cp\<close> then makes the device do: whether it signals at all, how many
  messages it may use, and the address and the data of the write it makes.\<close>

record msi =
  msi_on :: bool
  msi_messages :: nat
  msi_target :: nat
  msi_value :: u16

definition msi_of :: "(access \<Rightarrow> u64) \<Rightarrow> history \<Rightarrow> u64 \<Rightarrow> msi" where
  "msi_of c h cp =
     (let ctl = unat (reg16 c h (cp + 2)); wide = odd (ctl div 128);
          lo = unat (reg32 c h (cp + 4)); hi = unat (reg32 c h (cp + 8)) in
      \<lparr>msi_on = odd ctl, msi_messages = 2 ^ (ctl div 16 mod 8),
       msi_target = (if wide then hi * 2 ^ 32 + lo else lo),
       msi_value = reg16 c h (cp + (if wide then 12 else 8))\<rparr>)"

lemma cap_loop_reads:
  "\<exists>rs. snd (cap_loop E f want k off m) = emits rs m \<and> list_all is_read rs"
proof (induction k arbitrary: off m)
  case (Suc k)
  define rs0 where "rs0 = [Rd8 (cfg f + ucast (ucast off :: u32)), Rd8 (cfg f + ucast (ucast off + 1 :: u32))]"
  have r0: "list_all is_read rs0" by (simp add: rs0_def is_read_def)
  obtain rs where "snd (cap_loop E f want k (ucast (E (trace m @ [Rd8 (cfg f + ucast (ucast off :: u32))])
      (Rd8 (cfg f + ucast (ucast off + 1 :: u32)))) AND 0xFC) (emits rs0 m)) = emits rs (emits rs0 m)" "list_all is_read rs"
    using Suc.IH by blast
  then show ?case using r0
    by (auto simp: pci_cfg_r8_def Let_def emit_emits rs0_def [symmetric] intro: exI [of _ "[]"])
qed (auto intro: exI [of _ "[]"])

lemma pci_find_capability_reads:
  "\<exists>rs. snd (pci_find_capability E f want m) = emits rs m \<and> list_all is_read rs"
proof -
  define r1 r2 where "r1 = Rd32 (cfg f + 4)" and "r2 = Rd8 (cfg f + 0x34)"
  have r: "list_all is_read [r1, r2]" by (simp add: r1_def r2_def is_read_def)
  let ?off = "ucast (E (trace m @ [r1]) r2) AND 0xFC :: u8"
  obtain rs where rs: "snd (cap_loop E f want 48 ?off (emits [r1, r2] m)) = emits rs (emits [r1, r2] m)" "list_all is_read rs"
    using cap_loop_reads by blast
  have "snd (pci_find_capability E f want m) = emits [r1] m \<or>
    snd (pci_find_capability E f want m) = emits ([r1, r2] @ rs) m"
    using rs(1) by (simp add: pci_find_capability_def pci_cfg_r32_def pci_cfg_r8_def pci_regs Let_def r1_def r2_def emit_emits)
  then show ?thesis
  proof
    assume "snd (pci_find_capability E f want m) = emits [r1] m"
    then show ?thesis using r by (intro exI [of _ "[r1]"]) simp
  next
    assume "snd (pci_find_capability E f want m) = emits ([r1, r2] @ rs) m"
    then show ?thesis using r rs(2) by (intro exI [of _ "[r1, r2] @ rs"]) simp
  qed
qed

lemma bit_odd_unat: "odd (unat (w :: u16) div 2 ^ k) = bit w k"
proof -
  have "odd (unat w div 2 ^ k) = bit (unat w) k" by (rule bit_iff_odd [symmetric])
  then show ?thesis by (simp add: bit_unsigned_iff)
qed

lemma msi_control:
  fixes w :: u16
  defines "v \<equiv> (w AND NOT 0x70) OR 1"
  shows "odd (unat v)" "unat v div 16 mod 8 = 0" "odd (unat v div 128) = bit w 7"
    "v AND NOT 0x71 = w AND NOT 0x71"
proof -
  have n70: "bit (0x70 :: u16) k = (k \<in> {4, 5, 6})" "bit (0x71 :: u16) k = (k \<in> {0, 4, 5, 6})" for k
  proof -
    have e: "(0x70 :: u16) = push_bit 4 (mask 3)" "(0x71 :: u16) = push_bit 4 (mask 3) OR 1"
      by (simp_all add: mask_eq_exp_minus_1)
    show "bit (0x70 :: u16) k = (k \<in> {4, 5, 6})" "bit (0x71 :: u16) k = (k \<in> {0, 4, 5, 6})"
      unfolding e bit_push_bit_iff bit_mask_iff bit_or_iff bit_1_iff by auto
  qed
  have v: "bit v k = ((bit w k \<and> k \<notin> {4, 5, 6}) \<or> k = 0)" if "k < 16" for k
    unfolding v_def bit_or_iff bit_and_iff bit_not_iff_eq n70 bit_1_iff using that by auto
  show "odd (unat v)" using bit_odd_unat [of v 0] v [of 0] by simp
  show "odd (unat v div 128) = bit w 7" using bit_odd_unat [of v 7] v [of 7] by simp
  have "drop_bit 4 v AND mask 3 = 0"
    by (rule bit_word_eqI) (auto simp: bit_and_iff bit_drop_bit_eq bit_mask_iff v)
  then have "unat (drop_bit 4 v AND mask 3) = 0" by simp
  then show "unat v div 16 mod 8 = 0" unfolding unat_and_mask unat_drop_bit_eq by (simp add: drop_bit_eq_div)
  show "v AND NOT 0x71 = w AND NOT 0x71"
    by (rule bit_word_eqI) (auto simp: bit_and_iff bit_not_iff n70 v)
qed

lemma cap_field: "unat k \<le> 16 \<Longrightarrow> (ucast (ucast (o1 :: u8) + k :: u32) :: u64) = ucast o1 + ucast k"
  using unat_u8_less [of o1]
  by (subst word_unat_eq_iff) (simp add: unsigned_ucast_eq unat_word_ariths take_bit_nat_eq_self)

lemma writes16_simps [simp]:
  "writes16 a [] = []" "writes16 a (x # h) = (case x of Wr16 b v \<Rightarrow> if b = a then v # writes16 a h else writes16 a h
     | _ \<Rightarrow> writes16 a h)"
  by (cases x; simp add: writes16_def List.map_filter_def)+

lemma no_writes:
  "list_all is_read rs \<Longrightarrow> writes16 a (rs @ ws) = writes16 a ws \<and> writes32 a (rs @ ws) = writes32 a ws"
  by (induction rs) (auto simp: is_read_def writes32_Cons split: access.splits)

lemma low_word: "(ucast (addr AND 0xFFFFFFFF) :: u32) = ucast (addr :: u64)"
proof -
  have m: "(0xFFFFFFFF :: u64) = mask 32" by (simp add: mask_eq_exp_minus_1)
  show ?thesis unfolding m by (rule bit_word_eqI) (auto simp: bit_and_iff bit_ucast_iff bit_mask_iff)
qed

lemma address_halves: "unat (ucast (drop_bit 32 addr) :: u32) * 2 ^ 32 + unat (ucast addr :: u32) = unat (addr :: u64)"
proof -
  have "unat (drop_bit 32 addr) < 2 ^ 32"
    using unat_u64_less [of addr] unfolding unat_drop_bit_eq by (simp add: drop_bit_eq_div less_mult_imp_div_less)
  then have "unat (ucast (drop_bit 32 addr) :: u32) = unat addr div 2 ^ 32"
    by (simp add: unsigned_ucast_eq take_bit_nat_eq_self drop_bit_eq_div unat_div)
  moreover have "unat (ucast addr :: u32) = unat addr mod 2 ^ 32"
    by (simp add: unsigned_ucast_eq take_bit_eq_mod)
  ultimately show ?thesis by (simp only: div_mult_mod_eq)
qed

text \<open>A write of the address or data registers of the capability at \<open>cp\<close>.\<close>

definition msi_field :: "u64 \<Rightarrow> access \<Rightarrow> bool" where
  "msi_field cp x = (case x of Wr16 a v \<Rightarrow> a - cp \<in> {8, 12} | Wr32 a v \<Rightarrow> a - cp \<in> {4, 8} | _ \<Rightarrow> False)"

text \<open>C16: on a device with a well-formed capability list, message-signalled interrupts are
  configured when the list holds their capability, and the device can hold the address (it has
  the 64-bit form, or the high half is 0): the call returns true, and what it wrote makes the
  device signal with one message, the given data to the given address; the control word, whose
  other bits keep their value, is written last, after address and data, and nothing but these
  registers of the capability is written.  Without the capability
  the call returns false and writes nothing.\<close>

theorem pci_msi_configure_correct:
  assumes "(ucast (drop_bit 16 (ucast (c (Rd32 (cfg f + 4))) :: u32)) :: u16) AND 0x10 \<noteq> 0"
    and "cap_list c f (ucast (c (Rd8 (cfg f + 0x34))) AND 0xFC) cs"
    and "\<forall>x\<in>set (map fst cs). 0x40 \<le> x \<and> x AND 3 = 0" "distinct (map fst cs)"
  shows "case find (\<lambda>(o1, i). i = 5) cs of
      None \<Rightarrow> \<exists>rs. pci_msi_configure (\<lambda>h. c) ub f addr data m = Some (False, emits rs m) \<and> list_all is_read rs
    | Some (o1, i) \<Rightarrow>
        (let cp = cfg f + ucast o1; old = ucast (c (Rd16 (cp + 2))) :: u16 in
         bit old 7 \<or> unat addr < 2 ^ 32 \<longrightarrow>
         (\<exists>rs ws v. pci_msi_configure (\<lambda>h. c) ub f addr data m = Some (True, emits (rs @ ws @ [Wr16 (cp + 2) v]) m) \<and>
           list_all is_read rs \<and> list_all (msi_field cp) ws \<and> v AND NOT 0x71 = old AND NOT 0x71 \<and>
           msi_of c (rs @ ws @ [Wr16 (cp + 2) v]) cp =
             \<lparr>msi_on = True, msi_messages = 1, msi_target = unat addr, msi_value = data\<rparr>))"
proof -
  have "length cs \<le> 48" using cap_offsets_bound [OF assms(4,3)] by simp
  moreover have nz: "\<forall>(o1, i)\<in>set cs. o1 \<noteq> 0" using assms(3) by force
  ultimately obtain m1 where m1: "pci_find_capability (\<lambda>h. c) f 5 m =
      ((case find (\<lambda>(o1, i). i = 5) cs of None \<Rightarrow> 0 | Some (o1, i) \<Rightarrow> o1), m1)"
    using cap_loop_finds [OF assms(2) _ assms(4)] assms(1)
    by (simp add: pci_find_capability_def pci_cfg_r32_def pci_cfg_r8_def pci_regs PCI_STATUS_CAP_LIST_def Let_def) metis
  then obtain rs where rs: "m1 = emits rs m" "list_all is_read rs"
    using pci_find_capability_reads [of "\<lambda>h. c" f 5 m] by auto
  show ?thesis
  proof (cases "find (\<lambda>(o1, i). i = 5) cs")
    case None
    then show ?thesis using m1 rs by (auto simp: pci_msi_configure_def PCI_CAP_ID_MSI_def)
  next
    case (Some p)
    obtain o1 i where p: "p = (o1, i)" by (cases p)
    have "p \<in> set cs" using Some by (metis find_Some_iff nth_mem)
    then have o1: "o1 \<noteq> 0" using nz p by auto
    define cp where "cp = cfg f + ucast o1"
    define old where "old = (ucast (c (Rd16 (cp + 2))) :: u16)"
    define v where "v = (old AND NOT 0x70) OR 1"
    have at: "cfg f + ucast (ucast o1 + k :: u32) = cp + ucast k" if "unat k \<le> 16" for k
      using cap_field [OF that, of o1] by (simp add: cp_def add.assoc)
    have wide: "(old AND push_bit 7 1 \<noteq> 0) = bit old 7"
      unfolding push_bit_of_1 and_exp_eq_0_iff_not_bit by simp
    have wide2: "(old AND 128 = 0) = (\<not> bit old 7)" using wide by (simp; blast)
    define ws where "ws = [Wr32 (cp + 4) (ucast addr)] @
      (if bit old 7 then [Wr32 (cp + 8) (ucast (drop_bit 32 addr)), Wr16 (cp + 12) data] else [Wr16 (cp + 8) data])"
    have lo: "(ucast (addr AND 0xFFFFFFFF) :: u32) = ucast addr"
      by (rule low_word)
    have hi: "unat addr < 2 ^ 32 \<Longrightarrow> drop_bit 32 addr = 0"
      by (simp add: word_unat_eq_iff drop_bit_eq_div unat_div)
    have halves: "unat (ucast (drop_bit 32 addr) :: u32) * 2 ^ 32 + unat (ucast addr :: u32) = unat addr"
      by (rule address_halves)
    have "pci_msi_configure (\<lambda>h. c) ub f addr data m = Some (True, emits ((rs @ [Rd16 (cp + 2)]) @ ws @ [Wr16 (cp + 2) v]) m)"
      if "bit old 7 \<or> unat addr < 2 ^ 32"
      using that hi m1 rs o1 Some
      by (cases "bit old 7") (simp_all add: pci_msi_configure_def PCI_CAP_ID_MSI_def p pci_cfg_r16_def
          pci_cfg_w16_def pci_cfg_w32_def Let_def at old_def [symmetric] wide2 ws_def v_def emit_emits lo)
    moreover have "list_all is_read (rs @ [Rd16 (cp + 2)])" using rs(2) by (simp add: is_read_def)
    moreover have "list_all (msi_field cp) ws" by (simp add: ws_def msi_field_def)
    moreover have "msi_of c ((rs @ [Rd16 (cp + 2)]) @ ws @ [Wr16 (cp + 2) v]) cp =
        \<lparr>msi_on = True, msi_messages = 1, msi_target = unat addr, msi_value = data\<rparr>"
      if "bit old 7 \<or> unat addr < 2 ^ 32"
    proof -
      let ?h = "(rs @ [Rd16 (cp + 2)]) @ ws @ [Wr16 (cp + 2) v]"
      have w16: "writes16 a ?h = writes16 a (ws @ [Wr16 (cp + 2) v])"
        and w32: "writes32 a ?h = writes32 a (ws @ [Wr16 (cp + 2) v])" for a
        using no_writes [of "rs @ [Rd16 (cp + 2)]"] rs(2) by (simp_all add: is_read_def)
      have ctl: "reg16 c ?h (cp + 2) = v" unfolding reg16_def w16 by (simp add: ws_def)
      have l: "reg32 c ?h (cp + 4) = ucast addr" unfolding reg32_def w32 by (simp add: ws_def writes32_Cons)
      have h: "bit old 7 \<Longrightarrow> reg32 c ?h (cp + 8) = ucast (drop_bit 32 addr)"
        unfolding reg32_def w32 by (simp add: ws_def writes32_Cons)
      have d: "reg16 c ?h (cp + (if bit old 7 then 12 else 8)) = data" unfolding reg16_def w16 by (simp add: ws_def)
      have "\<not> bit old 7 \<Longrightarrow> unat (ucast addr :: u32) = unat addr"
        using that by (simp add: unsigned_ucast_eq take_bit_nat_eq_self)
      then show ?thesis using msi_control(1-3) [of old, folded v_def] ctl l h d halves
        by (simp add: msi_of_def Let_def)
    qed
    moreover note msi_control(4) [of old, folded v_def]
    ultimately show ?thesis
      unfolding Some p option.case prod.case cp_def [symmetric] Let_def old_def [symmetric] by blast
  qed
qed

definition demo_msi :: "access \<Rightarrow> u64" where
  "demo_msi a = (case a of Rd16 x \<Rightarrow> if x = 0x52 then 0x8A else 0 | _ \<Rightarrow> demo_caps a)"

lemma pci_msi_configure_correct_witness:
  "\<exists>rs ws v. pci_msi_configure (\<lambda>h. demo_msi) 0x10000000 (fill_func 0 3 0 0) 0x280000010 7 mach0 =
       Some (True, emits (rs @ ws @ [Wr16 0x52 v]) mach0) \<and>
     msi_of demo_msi (rs @ ws @ [Wr16 0x52 v]) 0x50 =
       \<lparr>msi_on = True, msi_messages = 1, msi_target = 0x280000010, msi_value = 7\<rparr>"
proof -
  have b: "bit (0x8A :: u16) 7" using bit_odd_unat [of "0x8A" 7] by simp
  show ?thesis
    using pci_msi_configure_correct [of demo_msi "fill_func 0 3 0 0" "[(0x40, 1), (0x50, 5)]" "0x10000000" "0x280000010" 7 mach0] b
    by (simp add: demo_msi_def demo_caps_def fill_func_def Let_def) blast
qed

text \<open>The registers of a function's base addresses, by what they describe, and the
  address the driver should see in each slot.\<close>

datatype bar_kind = NoBar | IoBar u32 | MemBar u32 bool | MemBar64 u64 bool

fun bar_ok :: "bar_kind \<Rightarrow> bool" where
  "bar_ok NoBar = True"
| "bar_ok (IoBar a) = (a AND 3 = 0)"
| "bar_ok (MemBar a p) = (a AND 0xF = 0)"
| "bar_ok (MemBar64 a p) = (a AND 0xF = 0)"

fun bar_regs :: "bar_kind \<Rightarrow> u32 list" where
  "bar_regs NoBar = [0]"
| "bar_regs (IoBar a) = [a OR 1]"
| "bar_regs (MemBar a p) = [a OR (if p then 8 else 0)]"
| "bar_regs (MemBar64 a p) = [ucast a OR (if p then 0xC else 4), ucast (drop_bit 32 a)]"

fun bar_slots :: "bar_kind \<Rightarrow> u64 list" where
  "bar_slots NoBar = [0]"
| "bar_slots (IoBar a) = [ucast a]"
| "bar_slots (MemBar a p) = [ucast a]"
| "bar_slots (MemBar64 a p) = [a, 0]"

lemma or_and_low:
  fixes a t k :: "'a::len word"
  assumes "a AND k = 0" "t AND k = t"
  shows "(a OR t) AND NOT k = a" "(a OR t) AND k = t" "\<And>l. l AND k = l \<Longrightarrow> (a OR t) AND l = t AND l"
proof -
  have ak: "bit a n \<Longrightarrow> \<not> bit k n" for n using assms(1) by (metis bit_0_eq bit_and_iff bot_apply bot_bool_def)
  have tk: "bit t n \<Longrightarrow> bit k n" for n using assms(2) by (metis bit_and_iff)
  show "(a OR t) AND NOT k = a" "(a OR t) AND k = t"
    by (rule bit_word_eqI; use ak tk in \<open>auto simp: bit_and_iff bit_or_iff bit_not_iff\<close>)+
  fix l assume l: "l AND k = l"
  have "bit l n \<Longrightarrow> bit k n" for n using l by (metis bit_and_iff)
  then show "(a OR t) AND l = t AND l"
    by (intro bit_word_eqI) (use ak in \<open>auto simp: bit_and_iff bit_or_iff\<close>)
qed

lemma low_ucast: "(ucast (a :: u64) :: u32) AND 0xF = ucast (a AND 0xF)"
proof -
  have m: "(0xF :: u32) = mask 4" "(0xF :: u64) = mask 4" by (simp_all add: mask_eq_exp_minus_1)
  show ?thesis unfolding m by (rule bit_word_eqI) (auto simp: bit_and_iff bit_ucast_iff bit_mask_iff)
qed

definition bar_at :: "pci_func \<Rightarrow> nat \<Rightarrow> u64" where
  "bar_at f i = cfg f + 0x10 + 4 * of_nat i"

lemma bar_at_eq:
  "i < 8 \<Longrightarrow> cfg f + ucast (PCI_CFG_BAR0 + of_nat i * 4) = bar_at f i"
  "i < 8 \<Longrightarrow> cfg f + ucast (PCI_CFG_BAR0 + of_nat i * 4 + 4) = bar_at f (Suc i)"
proof -
  assume "i < 8"
  then have "i \<in> {0, 1, 2, 3, 4, 5, 6, 7}" by auto
  then show "cfg f + ucast (PCI_CFG_BAR0 + of_nat i * 4) = bar_at f i"
    "cfg f + ucast (PCI_CFG_BAR0 + of_nat i * 4 + 4) = bar_at f (Suc i)"
    by (auto simp: bar_at_def PCI_CFG_BAR0_def add.assoc)
qed

definition bars_read :: "(access \<Rightarrow> u64) \<Rightarrow> pci_func \<Rightarrow> nat \<Rightarrow> u32 list \<Rightarrow> bool" where
  "bars_read c f i rs = (\<forall>j<length rs. ucast (c (Rd32 (bar_at f (i + j)))) = rs ! j)"

lemma bars_read_Cons:
  "bars_read c f i (r # rs) = (ucast (c (Rd32 (bar_at f i))) = r \<and> bars_read c f (Suc i) rs)"
  by (simp add: bars_read_def All_less_Suc2)

lemma bars_read_append:
  "bars_read c f i (rs @ rs') = (bars_read c f i rs \<and> bars_read c f (i + length rs) rs')"
  by (induction rs arbitrary: i) (auto simp: bars_read_Cons bars_read_def [of c f _ "[]"])

lemma bars_read_bar [simp]: "bars_read c (f\<lparr>bar := b\<rparr>) i rs = bars_read c f i rs"
  by (simp add: bars_read_def bar_at_def)

lemma bars_loop_none:
  assumes "i < 6" "ucast (c (Rd32 (bar_at f i))) = (0 :: u32)"
  shows "bars_loop (\<lambda>h. c) i (f, m) = bars_loop (\<lambda>h. c) (Suc i) (f, emits [Rd32 (bar_at f i)] m)"
  using assms by (subst bars_loop.simps) (simp add: pci_cfg_r32_def bar_at_eq emit_emits)

lemma bars_loop_32:
  assumes "i < 6" "ucast (c (Rd32 (bar_at f i))) = lo" "lo \<noteq> (0 :: u32)" "lo AND 1 \<noteq> 0 \<or> lo AND 6 \<noteq> 4"
    "lo AND NOT (if lo AND 1 \<noteq> 0 then 3 else 0xF) = a"
  shows "bars_loop (\<lambda>h. c) i (f, m) =
    bars_loop (\<lambda>h. c) (Suc i) (f\<lparr>bar := (bar f)[i := ucast a]\<rparr>, emits [Rd32 (bar_at f i)] m)"
  using assms by (subst bars_loop.simps) (auto simp: pci_cfg_r32_def bar_at_eq Let_def emit_emits)

lemma bars_loop_64:
  assumes "i < 6" "ucast (c (Rd32 (bar_at f i))) = lo" "lo AND 1 = (0 :: u32)" "lo AND 6 = 4"
    "ucast (c (Rd32 (bar_at f (Suc i)))) = hi"
  shows "bars_loop (\<lambda>h. c) i (f, m) =
    bars_loop (\<lambda>h. c) (Suc (Suc i)) (f\<lparr>bar := (bar f)[i := ucast (lo AND NOT 0xF) OR push_bit 32 (ucast (hi :: u32))]\<rparr>,
      emits [Rd32 (bar_at f i), Rd32 (bar_at f (Suc i))] m)"
proof -
  have "lo \<noteq> 0" using assms(4) by auto
  then show ?thesis using assms by (subst bars_loop.simps) (simp add: pci_cfg_r32_def bar_at_eq Let_def emit_emits)
qed

lemma bars_loop_layout:
  assumes "length (concat (map bar_regs ks)) = 6 - i" "i \<le> 6" "\<forall>k\<in>set ks. bar_ok k"
    "bars_read c f i (concat (map bar_regs ks))" "bar f = xs @ replicate (6 - i) 0" "length xs = i"
  shows "\<exists>as. bars_loop (\<lambda>h. c) i (f, m) = (f\<lparr>bar := xs @ concat (map bar_slots ks)\<rparr>, emits as m)"
  using assms
proof (induction ks arbitrary: i f xs m)
  case Nil
  then show ?case by (subst bars_loop.simps) (auto intro: exI [of _ "[]"])
next
  case (Cons k ks)
  have next1: "\<exists>as. bars_loop (\<lambda>h. c) (Suc i) (f\<lparr>bar := (xs @ [x]) @ replicate (6 - Suc i) 0\<rparr>, m1) =
      (f\<lparr>bar := (xs @ [x]) @ concat (map bar_slots ks)\<rparr>, emits as m1)"
    if "length (bar_regs k) = 1" for x m1
    using that Cons.prems Cons.IH [of "Suc i" "f\<lparr>bar := (xs @ [x]) @ replicate (6 - Suc i) 0\<rparr>" "xs @ [x]" m1]
    by (simp add: bars_read_append)
  have pre: "\<exists>as. z = (y, emits as m)" if "\<exists>as. z = (y, emits as (emits bs m))" for z y bs
    using that by auto
  have six: "i < 6" using Cons.prems(1) by (cases k) auto
  then have rep: "replicate (6 - i) (0 :: u64) = 0 # replicate (6 - Suc i) 0"
    by (simp add: Suc_diff_Suc replicate_Suc [symmetric] del: replicate_Suc)
  have upd: "(bar f)[i := x] = (xs @ [x]) @ replicate (6 - Suc i) 0" for x
    using Cons.prems(5,6) by (simp add: rep list_update_append)
  have same: "f\<lparr>bar := (xs @ [0]) @ replicate (6 - Suc i) 0\<rparr> = f"
    using Cons.prems(5) rep by (cases f) simp
  have ok: "bar_ok k" using Cons.prems(3) by simp
  have rd: "bars_read c f i (bar_regs k)" using Cons.prems(4) by (simp add: bars_read_append)
  show ?case
  proof (cases k)
    case NoBar
    have "bars_loop (\<lambda>h. c) i (f, m) = bars_loop (\<lambda>h. c) (Suc i)
        (f\<lparr>bar := (xs @ [0]) @ replicate (6 - Suc i) 0\<rparr>, emits [Rd32 (bar_at f i)] m)"
      unfolding same using rd NoBar six by (intro bars_loop_none) (simp_all add: bars_read_Cons)
    then show ?thesis using pre [OF next1] NoBar by simp
  next
    case (IoBar a)
    have "bars_loop (\<lambda>h. c) i (f, m) = bars_loop (\<lambda>h. c) (Suc i)
        (f\<lparr>bar := (xs @ [ucast a]) @ replicate (6 - Suc i) 0\<rparr>, emits [Rd32 (bar_at f i)] m)"
      unfolding upd [symmetric] using rd IoBar six ok or_and_low [of a 3 1]
      by (intro bars_loop_32 [where lo = "a OR 1"]) (auto simp: bars_read_Cons)
    then show ?thesis using pre [OF next1] IoBar by simp
  next
    case (MemBar a p)
    have "bars_loop (\<lambda>h. c) i (f, m) = bars_loop (\<lambda>h. c) (Suc i)
        (f\<lparr>bar := (xs @ [ucast a]) @ replicate (6 - Suc i) 0\<rparr>, emits [Rd32 (bar_at f i)] m)"
    proof (cases "a = 0 \<and> \<not> p")
      case True
      then have "ucast a = (0 :: u64)" by simp
      then show ?thesis unfolding \<open>ucast a = (0 :: u64)\<close> same using rd MemBar six True
        by (intro bars_loop_none) (simp_all add: bars_read_Cons)
    next
      case False
      show ?thesis
        unfolding upd [symmetric] using rd MemBar six ok or_and_low [of a "0xF" "if p then 8 else 0"] False
        by (intro bars_loop_32 [where lo = "a OR (if p then 8 else 0)"]) (auto simp: bars_read_Cons)
    qed
    then show ?thesis using pre [OF next1] MemBar by simp
  next
    case (MemBar64 a p)
    let ?t = "if p then 0xC else 4 :: u32"
    have low: "(ucast a :: u32) AND 0xF = 0" using ok MemBar64 low_ucast by simp
    have five: "i < 5" using Cons.prems(1) MemBar64 by simp
    then have rep2: "replicate (6 - Suc i) (0 :: u64) = 0 # replicate (6 - Suc (Suc i)) 0"
      by (simp add: Suc_diff_Suc replicate_Suc [symmetric] del: replicate_Suc)
    note bits = or_and_low [OF low, of ?t]
    have "bars_loop (\<lambda>h. c) i (f, m) = bars_loop (\<lambda>h. c) (Suc (Suc i))
        (f\<lparr>bar := (bar f)[i := ucast ((ucast a OR ?t) AND NOT 0xF) OR push_bit 32 (ucast (ucast (drop_bit 32 a) :: u32))]\<rparr>,
          emits [Rd32 (bar_at f i), Rd32 (bar_at f (Suc i))] m)"
      using rd MemBar64 six bits by (intro bars_loop_64) (auto simp: bars_read_Cons)
    also have "ucast ((ucast a OR ?t) AND NOT 0xF) OR push_bit 32 (ucast (ucast (drop_bit 32 a) :: u32)) = a"
      using bits(1) join_halves [of "ucast a" a] by simp
    finally have "bars_loop (\<lambda>h. c) i (f, m) = bars_loop (\<lambda>h. c) (Suc (Suc i))
        (f\<lparr>bar := (xs @ [a, 0]) @ replicate (6 - Suc (Suc i)) 0\<rparr>,
          emits [Rd32 (bar_at f i), Rd32 (bar_at f (Suc i))] m)"
      unfolding upd rep2 by simp
    moreover have next2: "\<exists>as. bars_loop (\<lambda>h. c) (Suc (Suc i))
          (f\<lparr>bar := (xs @ [a, 0]) @ replicate (6 - Suc (Suc i)) 0\<rparr>, m1) =
        (f\<lparr>bar := (xs @ [a, 0]) @ concat (map bar_slots ks)\<rparr>, emits as m1)" for m1
      using MemBar64 Cons.prems five Cons.IH [of "Suc (Suc i)"
          "f\<lparr>bar := (xs @ [a, 0]) @ replicate (6 - Suc (Suc i)) 0\<rparr>" "xs @ [a, 0]" m1]
      by (simp add: bars_read_Cons)
    ultimately show ?thesis using pre [OF next2] MemBar64 by simp
  qed
qed


definition demo_bars :: "access \<Rightarrow> u64" where
  "demo_bars a = (case a of Rd32 x \<Rightarrow> if x = 0x10 then 0x40000004 else if x = 0x14 then 1
     else if x = 0x18 then 0x3001 else if x = 0x20 then 0x41000008 else 0 | _ \<Rightarrow> 0)"


end
