(* ===== verification/Dma.thy ===== *)
theory Dma
  imports Machine
begin

text \<open>
  Memory as a device sees it: what a history of byte stores leaves behind, and the
  little-endian reading of it.  Drivers that hand structures to a device (queue entries,
  descriptor lists, frames) state their correctness over this memory.
\<close>

section \<open>What the controller sees of the stores\<close>

text \<open>The memory after a history of byte stores.\<close>

definition ram_of :: "history \<Rightarrow> mem" where
  "ram_of h = fold (\<lambda>a M. case a of Wr8 x v \<Rightarrow> M(x := v) | _ \<Rightarrow> M) h (\<lambda>_. 0)"

definition touched :: "history \<Rightarrow> u64 set" where
  "touched h = {x. \<exists>v. Wr8 x v \<in> set h}"

lemma touched_simps [simp]:
  "touched [] = {}" "touched (a # h) = (case a of Wr8 x v \<Rightarrow> insert x (touched h) | _ \<Rightarrow> touched h)"
  "touched (h @ k) = touched h \<union> touched k"
  by (auto simp: touched_def split: access.splits)

lemma ram_of_append:
  "ram_of (h @ k) x = (if x \<in> touched k then ram_of k x else ram_of h x)"
proof (induction k rule: rev_induct)
  case (snoc a k)
  then show ?case by (cases a) (auto simp: ram_of_def)
qed (simp add: ram_of_def)

definition read32 :: "mem \<Rightarrow> u64 \<Rightarrow> u32" where
  "read32 M a = be32_of (M (a + 3)) (M (a + 2)) (M (a + 1)) (M a)"

definition read64 :: "mem \<Rightarrow> u64 \<Rightarrow> u64" where
  "read64 M a = ucast (read32 M a) OR push_bit 32 (ucast (read32 M (a + 4)))"

text \<open>The eight byte stores of a 64-bit value, least significant byte first.\<close>

definition store64 :: "u64 \<Rightarrow> u64 \<Rightarrow> history" where
  "store64 a v = [Wr8 a (ucast v), Wr8 (a + 1) (ucast (drop_bit 8 v)), Wr8 (a + 2) (ucast (drop_bit 16 v)),
     Wr8 (a + 3) (ucast (drop_bit 24 v)), Wr8 (a + 4) (ucast (drop_bit 32 v)), Wr8 (a + 5) (ucast (drop_bit 40 v)),
     Wr8 (a + 6) (ucast (drop_bit 48 v)), Wr8 (a + 7) (ucast (drop_bit 56 v))]"

lemma touched_store64: "touched (store64 a v) = {a, a + 1, a + 2, a + 3, a + 4, a + 5, a + 6, a + 7}"
  by (simp add: store64_def)

lemma touched_store64_iff: "x \<in> touched (store64 a v) \<longleftrightarrow> unat (x - a) < 8"
proof
  assume "unat (x - a) < 8"
  then have "unat (x - a) \<in> {0, 1, 2, 3, 4, 5, 6, 7}" by auto
  then have "(of_nat (unat (x - a)) :: u64) \<in> of_nat ` {0, 1, 2, 3, 4, 5, 6, 7}" by (rule imageI)
  then have "x - a \<in> {0, 1, 2, 3, 4, 5, 6, 7}" by simp
  then show "x \<in> touched (store64 a v)" by (auto simp: touched_store64 diff_eq_eq add.commute)
qed (auto simp: touched_store64)

lemma low_byte [simp]:
  "ucast (v AND 0xFF) = (ucast (v :: u64) :: u8)" "ucast (w AND 0xFF) = (ucast (w :: u32) :: u8)"
  "ucast (y AND 0xFF) = (ucast (y :: u16) :: u8)"
proof -
  have m: "(0xFF :: u64) = mask 8" "(0xFF :: u32) = mask 8" "(0xFF :: u16) = mask 8"
    by (simp_all add: mask_eq_exp_minus_1)
  show "ucast (v AND 0xFF) = (ucast (v :: u64) :: u8)" "ucast (w AND 0xFF) = (ucast (w :: u32) :: u8)"
    "ucast (y AND 0xFF) = (ucast (y :: u16) :: u8)"
    unfolding m by (rule bit_word_eqI; auto simp: bit_and_iff bit_ucast_iff bit_mask_iff)+
qed

lemma halves_bytes:
  "ucast (drop_bit k (ucast (v :: u64) :: u32)) = (ucast (drop_bit k v) :: u8)" if "k \<le> 24"
  by (rule bit_word_eqI) (use that in \<open>auto simp: bit_ucast_iff bit_drop_bit_eq\<close>)

lemma store64_at:
  "ram_of (store64 a v) a = ucast v" "ram_of (store64 a v) (a + 1) = ucast (drop_bit 8 v)"
  "ram_of (store64 a v) (a + 2) = ucast (drop_bit 16 v)" "ram_of (store64 a v) (a + 3) = ucast (drop_bit 24 v)"
  "ram_of (store64 a v) (a + 4) = ucast (drop_bit 32 v)" "ram_of (store64 a v) (a + 5) = ucast (drop_bit 40 v)"
  "ram_of (store64 a v) (a + 6) = ucast (drop_bit 48 v)" "ram_of (store64 a v) (a + 7) = ucast (drop_bit 56 v)"
  by (simp_all add: store64_def ram_of_def)

lemma read64_store64:
  assumes "\<And>x. x \<in> touched (store64 a v) \<Longrightarrow> M x = ram_of (store64 a v) x"
  shows "read64 M a = v"
proof -
  have "M a = ucast v" "M (a + 1) = ucast (drop_bit 8 v)" "M (a + 2) = ucast (drop_bit 16 v)"
    "M (a + 3) = ucast (drop_bit 24 v)" "M (a + 4) = ucast (drop_bit 32 v)" "M (a + 5) = ucast (drop_bit 40 v)"
    "M (a + 6) = ucast (drop_bit 48 v)" "M (a + 7) = ucast (drop_bit 56 v)"
    by (simp_all add: assms touched_store64 store64_at)
  moreover have "be32_of (ucast (drop_bit 24 v)) (ucast (drop_bit 16 v)) (ucast (drop_bit 8 v)) (ucast v) = ucast v"
    using be32_roundtrip [of "ucast v"] by (simp add: halves_bytes ucast_ucast_down)
  moreover have "be32_of (ucast (drop_bit 56 v)) (ucast (drop_bit 48 v)) (ucast (drop_bit 40 v)) (ucast (drop_bit 32 v))
      = ucast (drop_bit 32 v)"
    using be32_roundtrip [of "ucast (drop_bit 32 v)"] by (simp add: halves_bytes ucast_ucast_down)
  ultimately show ?thesis using join_halves [of _ v]
    by (simp add: read64_def read32_def add.assoc)
qed

section \<open>Copies\<close>

text \<open>A copy between a shared buffer and the program, byte by byte in both directions.\<close>

fun copy_in :: "env \<Rightarrow> u64 \<Rightarrow> nat \<Rightarrow> mach \<Rightarrow> u8 list \<times> mach" where
  "copy_in E a 0 m = ([], m)"
| "copy_in E a (Suc n) m =
     (let (b, m) = mmio_r8 E a m; (bs, m) = copy_in E (a + 1) n m in (b # bs, m))"

definition copy_out :: "u64 \<Rightarrow> u8 list \<Rightarrow> mach \<Rightarrow> mach" where
  "copy_out a bs m = emits (map (\<lambda>i. Wr8 (a + of_nat i) (bs ! i)) [0..<length bs]) m"

lemma touched_copy: "touched (map (\<lambda>i. Wr8 (a + of_nat i) (f i)) is) = (\<lambda>i. a + of_nat i) ` set is"
  by (induction "is") auto

lemma ram_of_copy:
  assumes "j < n" "n \<le> 2 ^ 32"
  shows "ram_of (map (\<lambda>i. Wr8 (a + of_nat i) (f i)) [0..<n]) (a + of_nat j) = f j"
  using assms
proof (induction n)
  case (Suc n)
  have "of_nat j \<noteq> (of_nat n :: u64)" if "j \<noteq> n"
    using that Suc.prems by (simp add: word_unat_eq_iff unat_of_nat_small)
  then show ?case using Suc by (cases "j = n") (auto simp: ram_of_def)
qed simp

end
