(* ===== verification/Nvme.thy ===== *)
theory Nvme
  imports Pci Dma
begin

text \<open>
  The NVMe driver, \<open>src/nvme.c\<close>.  The object is given by its address and its fields; the
  queue pages and the PRP list inside it are memory the controller reads, so stores to them
  are accesses of the trace, and completion entries are read through the environment.  A
  store past the end of the PRP list is \<open>None\<close>, as is a console that never drains.
\<close>

section \<open>Registers and layout\<close>

definition NVME_PCI_ID :: u32 where "NVME_PCI_ID = 0x45121F31"
definition NVME_REG_CC :: u32 where "NVME_REG_CC = 0x14"
definition NVME_REG_CSTS :: u32 where "NVME_REG_CSTS = 0x1C"
definition NVME_REG_AQA :: u32 where "NVME_REG_AQA = 0x24"
definition NVME_REG_ASQ_LO :: u32 where "NVME_REG_ASQ_LO = 0x28"
definition NVME_REG_ASQ_HI :: u32 where "NVME_REG_ASQ_HI = 0x2C"
definition NVME_REG_ACQ_LO :: u32 where "NVME_REG_ACQ_LO = 0x30"
definition NVME_REG_ACQ_HI :: u32 where "NVME_REG_ACQ_HI = 0x34"
definition NVME_REG_DOORBELL_BASE :: u32 where "NVME_REG_DOORBELL_BASE = 0x1000"
definition NVME_CC_EN :: u32 where "NVME_CC_EN = 0x00000001"
definition NVME_CC_IOQES :: u32 where "NVME_CC_IOQES = 0x00460000"
definition NVME_CSTS_RDY :: u32 where "NVME_CSTS_RDY = 0x00000001"
definition SQE_CDW0 :: u32 where "SQE_CDW0 = 0x00"
definition SQE_CID :: u32 where "SQE_CID = 0x02"
definition SQE_NSID :: u32 where "SQE_NSID = 0x04"
definition SQE_PRP1 :: u32 where "SQE_PRP1 = 0x18"
definition SQE_PRP2 :: u32 where "SQE_PRP2 = 0x20"
definition SQE_CDW10 :: u32 where "SQE_CDW10 = 0x28"
definition SQE_CDW11 :: u32 where "SQE_CDW11 = 0x2C"
definition SQE_CDW12 :: u32 where "SQE_CDW12 = 0x30"
definition CQE_CID_PB_SF :: u32 where "CQE_CID_PB_SF = 0x0C"
definition CQE_PB_MASK :: u32 where "CQE_PB_MASK = 0x00010000"
definition ADM_CREATE_IO_SQ :: u8 where "ADM_CREATE_IO_SQ = 0x01"
definition ADM_CREATE_IO_CQ :: u8 where "ADM_CREATE_IO_CQ = 0x05"
definition ADM_IDENTIFY :: u8 where "ADM_IDENTIFY = 0x06"
definition IO_FLUSH :: u8 where "IO_FLUSH = 0x00"
definition IO_WRITE :: u8 where "IO_WRITE = 0x01"
definition IO_READ :: u8 where "IO_READ = 0x02"
definition CNS_NAMESPACE :: u32 where "CNS_NAMESPACE = 0x00"
definition CQ_FLAGS_PC :: u32 where "CQ_FLAGS_PC = 0x0001"
definition SQ_FLAGS_PC :: u32 where "SQ_FLAGS_PC = 0x0001"
definition NVME_NSID :: u32 where "NVME_NSID = 1"
definition ADMIN_QID :: u32 where "ADMIN_QID = 0"
definition IO_QID :: u32 where "IO_QID = 1"
definition QUEUE_DEPTH :: u16 where "QUEUE_DEPTH = 64"
definition NVME_LBA_SIZE :: u32 where "NVME_LBA_SIZE = 512"
definition NVME_PAGE_SIZE :: u32 where "NVME_PAGE_SIZE = 4096"
definition NVME_PRP_LIST_PAGES :: u32 where "NVME_PRP_LIST_PAGES = 16"
definition NVME_MAX_SINGLE_TRANSFER :: u32 where "NVME_MAX_SINGLE_TRANSFER = 8178 * NVME_PAGE_SIZE"
definition NVME_MAX_LBAS_PER_CMD :: u32 where
  "NVME_MAX_LBAS_PER_CMD = NVME_MAX_SINGLE_TRANSFER div NVME_LBA_SIZE"
definition ENTRIES_PER_LIST_PAGE :: u32 where "ENTRIES_PER_LIST_PAGE = NVME_PAGE_SIZE div 8"

lemmas nvme_regs = NVME_REG_CC_def NVME_REG_CSTS_def NVME_REG_AQA_def NVME_REG_ASQ_LO_def
  NVME_REG_ASQ_HI_def NVME_REG_ACQ_LO_def NVME_REG_ACQ_HI_def NVME_REG_DOORBELL_BASE_def

lemmas sqe_fields = SQE_CDW0_def SQE_CID_def SQE_NSID_def SQE_PRP1_def SQE_PRP2_def
  SQE_CDW10_def SQE_CDW11_def SQE_CDW12_def

record nvme =
  n_at :: u64
  bar0 :: u64
  num_lbas :: u64
  aq_entries :: u16
  ioq_entries :: u16
  asq_tail :: u16
  acq_head :: u16
  iosq_tail :: u16
  iocq_head :: u16
  cmd_id :: u16
  acq_phase :: bool
  iocq_phase :: bool
  present :: bool

definition asq_buf :: "nvme \<Rightarrow> u64" where "asq_buf n = n_at n"
definition acq_buf :: "nvme \<Rightarrow> u64" where "acq_buf n = n_at n + 4096"
definition iosq_buf :: "nvme \<Rightarrow> u64" where "iosq_buf n = n_at n + 8192"
definition iocq_buf :: "nvme \<Rightarrow> u64" where "iocq_buf n = n_at n + 12288"
definition prp_list :: "nvme \<Rightarrow> u64" where "prp_list n = n_at n + 16384"

text \<open>The size of the object: the four queue pages, the list, the fields, rounded to a page.\<close>

definition NVME_T_SIZE :: nat where "NVME_T_SIZE = 86016"

definition nvme_r32 :: "env \<Rightarrow> nvme \<Rightarrow> u32 \<Rightarrow> mach \<Rightarrow> u32 \<times> mach" where
  "nvme_r32 E n off m = mmio_r32 E (bar0 n + ucast off) m"

definition nvme_w32 :: "nvme \<Rightarrow> u32 \<Rightarrow> u32 \<Rightarrow> mach \<Rightarrow> mach" where
  "nvme_w32 n off v m = mmio_w32 (bar0 n + ucast off) v m"

definition db_sq_tail :: "u32 \<Rightarrow> u32" where
  "db_sq_tail qid = NVME_REG_DOORBELL_BASE + qid * 8"

definition db_cq_head :: "u32 \<Rightarrow> u32" where
  "db_cq_head qid = NVME_REG_DOORBELL_BASE + qid * 8 + 4"

fun wait_csts_rdy :: "env \<Rightarrow> nvme \<Rightarrow> bool \<Rightarrow> nat \<Rightarrow> mach \<Rightarrow> bool \<times> mach" where
  "wait_csts_rdy E n want 0 m = (False, m)"
| "wait_csts_rdy E n want (Suc spin) m =
     (let (v, m) = nvme_r32 E n NVME_REG_CSTS m; rdy = (v AND NVME_CSTS_RDY \<noteq> 0)
      in if rdy = want then (True, m) else wait_csts_rdy E n want spin m)"

section \<open>Entries in memory\<close>

definition sqe_w8 :: "u64 \<Rightarrow> u32 \<Rightarrow> u8 \<Rightarrow> mach \<Rightarrow> mach" where
  "sqe_w8 sqe off v m = emit (Wr8 (sqe + ucast off) v) m"

definition sqe_w16 :: "u64 \<Rightarrow> u32 \<Rightarrow> u16 \<Rightarrow> mach \<Rightarrow> mach" where
  "sqe_w16 sqe off v m = emits
     [Wr8 (sqe + ucast off) (ucast (v AND 0xFF)),
      Wr8 (sqe + ucast (off + 1)) (ucast (drop_bit 8 v AND 0xFF))] m"

definition sqe_w32 :: "u64 \<Rightarrow> u32 \<Rightarrow> u32 \<Rightarrow> mach \<Rightarrow> mach" where
  "sqe_w32 sqe off v m = emits
     [Wr8 (sqe + ucast off) (ucast (v AND 0xFF)),
      Wr8 (sqe + ucast (off + 1)) (ucast (drop_bit 8 v AND 0xFF)),
      Wr8 (sqe + ucast (off + 2)) (ucast (drop_bit 16 v AND 0xFF)),
      Wr8 (sqe + ucast (off + 3)) (ucast (drop_bit 24 v AND 0xFF))] m"

definition sqe_w64 :: "u64 \<Rightarrow> u32 \<Rightarrow> u64 \<Rightarrow> mach \<Rightarrow> mach" where
  "sqe_w64 sqe off v m = sqe_w32 sqe (off + 4) (ucast (drop_bit 32 v)) (sqe_w32 sqe off (ucast v) m)"

definition cqe_r32 :: "env \<Rightarrow> u64 \<Rightarrow> u32 \<Rightarrow> mach \<Rightarrow> u32 \<times> mach" where
  "cqe_r32 E cqe off m =
     (let (p0, m) = mmio_r8 E (cqe + ucast off) m;
          (p1, m) = mmio_r8 E (cqe + ucast off + 1) m;
          (p2, m) = mmio_r8 E (cqe + ucast off + 2) m;
          (p3, m) = mmio_r8 E (cqe + ucast off + 3) m
      in (be32_of p3 p2 p1 p0, m))"

definition cqe_r64 :: "env \<Rightarrow> u64 \<Rightarrow> u32 \<Rightarrow> mach \<Rightarrow> u64 \<times> mach" where
  "cqe_r64 E cqe off m =
     (let (lo, m) = cqe_r32 E cqe off m; (hi, m) = cqe_r32 E cqe (off + 4) m
      in (ucast lo OR push_bit 32 (ucast hi), m))"

text \<open>Eight bytes of the PRP list; a store that leaves the list is undefined.\<close>

definition prp_list_w64 :: "nvme \<Rightarrow> u32 \<Rightarrow> u64 \<Rightarrow> mach \<Rightarrow> mach option" where
  "prp_list_w64 n off v m =
     (if unat off + 8 \<le> unat (NVME_PRP_LIST_PAGES * NVME_PAGE_SIZE)
      then Some (emits (map (\<lambda>b. Wr8 (prp_list n + ucast off + of_nat b) (ucast (drop_bit (b * 8) v AND 0xFF))) [0..<8]) m)
      else None)"

text \<open>The loop over the entries: \<open>i\<close> counts data entries, a chain pointer takes the last
  slot of a page that is not the last.\<close>

function prp_loop :: "nvme \<Rightarrow> u64 \<Rightarrow> u32 \<Rightarrow> u32 \<Rightarrow> u32 \<Rightarrow> u32 \<Rightarrow> mach \<Rightarrow> mach option" where
  "prp_loop n list_base needed cur_page slot i m =
     (if i < needed
      then
        (let off = cur_page * NVME_PAGE_SIZE + slot * 8;
             last_slot = (slot = ENTRIES_PER_LIST_PAGE - 1);
             more_after_this = (i + 1 < needed) in
         if last_slot \<and> more_after_this
         then do {
           m \<leftarrow> prp_list_w64 n off (prp_list n + ucast ((cur_page + 1) * NVME_PAGE_SIZE)) m;
           prp_loop n list_base needed (cur_page + 1) 0 i m }
         else do {
           m \<leftarrow> prp_list_w64 n off (list_base + ucast i * ucast NVME_PAGE_SIZE) m;
           prp_loop n list_base needed cur_page (slot + 1) (i + 1) m })
      else Some m)"
  by pat_completeness auto
termination
proof (relation "measure (\<lambda>(n, b, needed, p, slot, i, m). 2 * (unat needed - unat i) +
    (if slot = ENTRIES_PER_LIST_PAGE - 1 then 1 else 0))", goal_cases)
  case (3 n list_base needed cur_page slot i m off last_slot more m')
  then have "unat (i + 1) = unat i + 1"
    using unat_u32_less [of needed] by (subst unat_add_no_wrap) (simp_all add: word_less_nat_alt)
  with 3 show ?case by (auto simp: word_less_nat_alt)
qed (simp_all add: ENTRIES_PER_LIST_PAGE_def NVME_PAGE_SIZE_def)

declare prp_loop.simps [simp del]

definition setup_prp :: "nvme \<Rightarrow> u64 \<Rightarrow> u64 \<Rightarrow> u32 \<Rightarrow> mach \<Rightarrow> mach option" where
  "setup_prp n sqe buf sz m =
     (let addr = buf;
          page_off = ucast (addr AND (ucast NVME_PAGE_SIZE - 1)) :: u32;
          first_chunk = NVME_PAGE_SIZE - page_off;
          m = sqe_w64 sqe SQE_PRP1 addr m in
      if sz \<le> first_chunk then Some (sqe_w64 sqe SQE_PRP2 0 m)
      else if sz \<le> first_chunk + NVME_PAGE_SIZE
      then Some (sqe_w64 sqe SQE_PRP2 ((addr + ucast first_chunk) AND NOT (ucast NVME_PAGE_SIZE - 1)) m)
      else
        (let list_base = (addr + ucast first_chunk) AND NOT (ucast NVME_PAGE_SIZE - 1);
             remaining = sz - first_chunk;
             entries_needed = (remaining + NVME_PAGE_SIZE - 1) div NVME_PAGE_SIZE
         in do {
           m \<leftarrow> prp_loop n list_base entries_needed 0 0 0 m;
           Some (sqe_w64 sqe SQE_PRP2 (prp_list n) m) }))"

section \<open>Commands\<close>

text \<open>Polling one completion entry, at most \<open>spin\<close> times.\<close>

fun poll_cqe :: "env \<Rightarrow> u64 \<Rightarrow> bool \<Rightarrow> nat \<Rightarrow> mach \<Rightarrow> u32 option \<times> mach" where
  "poll_cqe E cqe expected 0 m = (None, m)"
| "poll_cqe E cqe expected (Suc spin) m =
     (let (v, m) = cqe_r32 E cqe CQE_CID_PB_SF m; phase = (v AND CQE_PB_MASK \<noteq> 0)
      in if phase = expected then (Some v, m) else poll_cqe E cqe expected spin m)"

definition next_slot :: "u16 \<Rightarrow> u16 \<Rightarrow> u16" where
  "next_slot i depth = of_nat ((unat i + 1) mod unat depth)"

definition CQE_POLLS :: nat where "CQE_POLLS = 16 * 1000 * 1000"

text \<open>The tail, head and phase are the queue's fields; the result is the status with the
  updated fields.\<close>

definition submit_and_wait ::
  "env \<Rightarrow> nvme \<Rightarrow> u32 \<Rightarrow> u64 \<Rightarrow> u16 \<Rightarrow> u16 \<Rightarrow> bool \<Rightarrow> u16 \<Rightarrow> mach \<Rightarrow> u32 \<times> u16 \<times> u16 \<times> bool \<times> mach" where
  "submit_and_wait E n qid cq_buf sq_tail cq_head expected_phase depth m =
     (let sq_tail = next_slot sq_tail depth;
          m = mmio_barrier m;
          m = nvme_w32 n (db_sq_tail qid) (ucast sq_tail) m;
          (r, m) = poll_cqe E (cq_buf + ucast cq_head * 16) expected_phase CQE_POLLS m
      in case r of
           None \<Rightarrow> (0xFFFF, sq_tail, cq_head, expected_phase, m)
         | Some v \<Rightarrow>
             (let status = drop_bit 17 v;
                  cq_head = next_slot cq_head depth;
                  expected_phase = (if cq_head = 0 then \<not> expected_phase else expected_phase);
                  m = mmio_barrier m;
                  m = nvme_w32 n (db_cq_head qid) (ucast cq_head) m
              in (status, sq_tail, cq_head, expected_phase, m)))"

definition sqe_zero :: "u64 \<Rightarrow> mach \<Rightarrow> mach" where
  "sqe_zero sqe m = emits (map (\<lambda>i. Wr8 (sqe + of_nat i) 0) [0..<64]) m"

definition admin_cmd ::
  "env \<Rightarrow> nvme \<Rightarrow> u8 \<Rightarrow> u32 \<Rightarrow> u64 \<Rightarrow> u32 \<Rightarrow> u32 \<Rightarrow> u32 \<Rightarrow> mach \<Rightarrow> (u32 \<times> nvme \<times> mach) option" where
  "admin_cmd E n opcode nsid prp_buf prp_size cdw10 cdw11 m =
     (let sqe = asq_buf n + ucast (asq_tail n) * 64;
          m = sqe_zero sqe m;
          m = sqe_w8 sqe SQE_CDW0 opcode m;
          m = sqe_w16 sqe SQE_CID (cmd_id n) m;
          n = n\<lparr>cmd_id := cmd_id n + 1\<rparr>;
          m = sqe_w32 sqe SQE_NSID nsid m
      in do {
        m \<leftarrow> (if prp_buf \<noteq> 0 then setup_prp n sqe prp_buf prp_size m else Some m);
        let m = sqe_w32 sqe SQE_CDW10 cdw10 m;
        let m = sqe_w32 sqe SQE_CDW11 cdw11 m;
        let (st, tail, head, phase, m) = submit_and_wait E n ADMIN_QID (acq_buf n)
          (asq_tail n) (acq_head n) (acq_phase n) (aq_entries n) m;
        Some (st, n\<lparr>asq_tail := tail, acq_head := head, acq_phase := phase\<rparr>, m) })"

definition io_cmd ::
  "env \<Rightarrow> nvme \<Rightarrow> u8 \<Rightarrow> u64 \<Rightarrow> u64 \<Rightarrow> u32 \<Rightarrow> u32 \<Rightarrow> mach \<Rightarrow> (u32 \<times> nvme \<times> mach) option" where
  "io_cmd E n opcode lba buf sz nlb m =
     (let sqe = iosq_buf n + ucast (iosq_tail n) * 64;
          m = sqe_zero sqe m;
          m = sqe_w8 sqe SQE_CDW0 opcode m;
          m = sqe_w16 sqe SQE_CID (cmd_id n) m;
          n = n\<lparr>cmd_id := cmd_id n + 1\<rparr>;
          m = sqe_w32 sqe SQE_NSID NVME_NSID m
      in do {
        m \<leftarrow> (if sz \<noteq> 0 then setup_prp n sqe buf sz m else Some m);
        let m = sqe_w32 sqe SQE_CDW10 (ucast lba) m;
        let m = sqe_w32 sqe SQE_CDW11 (ucast (drop_bit 32 lba)) m;
        let m = sqe_w32 sqe SQE_CDW12 (if nlb \<noteq> 0 then nlb - 1 else 0) m;
        let (st, tail, head, phase, m) = submit_and_wait E n IO_QID (iocq_buf n)
          (iosq_tail n) (iocq_head n) (iocq_phase n) (ioq_entries n) m;
        Some (st, n\<lparr>iosq_tail := tail, iocq_head := head, iocq_phase := phase\<rparr>, m) })"

section \<open>Bring-up\<close>

text \<open>The object after the byte-wise clearing.\<close>

definition nvme_zero :: "u64 \<Rightarrow> nvme" where
  "nvme_zero a = \<lparr>n_at = a, bar0 = 0, num_lbas = 0, aq_entries = 0, ioq_entries = 0, asq_tail = 0,
     acq_head = 0, iosq_tail = 0, iocq_head = 0, cmd_id = 0, acq_phase = False, iocq_phase = False,
     present = False\<rparr>"

text \<open>From the enabled controller to the two I/O queues; \<open>ns_id\<close> is the address of the
  function's static buffer.\<close>

definition nvme_create_queues ::
  "env \<Rightarrow> u64 \<Rightarrow> u64 \<Rightarrow> pci_func \<Rightarrow> nvme \<Rightarrow> mach \<Rightarrow> (bool \<times> nvme \<times> mach) option" where
  "nvme_create_queues E ub ns_id pf n m = do {
     (st, n, m) \<leftarrow> admin_cmd E n ADM_IDENTIFY NVME_NSID ns_id NVME_PAGE_SIZE CNS_NAMESPACE 0 m;
     if st \<noteq> 0
     then do { m \<leftarrow> uart_printf E ub (''nvme: Identify Namespace failed, status=%x'' @ [CHR 0x0A]) [VWord (ucast st)] m;
               Some (False, n, m) }
     else do {
       let (lbas, m) = cqe_r64 E ns_id 0 m;
       let n = n\<lparr>num_lbas := lbas\<rparr>;
       let cdw10 = IO_QID OR push_bit 16 (ucast (ioq_entries n - 1));
       (st, n, m) \<leftarrow> admin_cmd E n ADM_CREATE_IO_CQ 0 (iocq_buf n) 0 cdw10 CQ_FLAGS_PC m;
       if st \<noteq> 0
       then do { m \<leftarrow> uart_printf E ub (''nvme: Create I/O CQ failed, status=%x'' @ [CHR 0x0A]) [VWord (ucast st)] m;
                 Some (False, n, m) }
       else do {
         let cdw11 = SQ_FLAGS_PC OR push_bit 16 IO_QID;
         (st, n, m) \<leftarrow> admin_cmd E n ADM_CREATE_IO_SQ 0 (iosq_buf n) 0 cdw10 cdw11 m;
         if st \<noteq> 0
         then do { m \<leftarrow> uart_printf E ub (''nvme: Create I/O SQ failed, status=%x'' @ [CHR 0x0A]) [VWord (ucast st)] m;
                   Some (False, n, m) }
         else do {
           let n = n\<lparr>present := True\<rparr>;
           m \<leftarrow> uart_printf E ub (''nvme: %u:%u.%u  bar0=%p  capacity=%u sectors (%u MiB)'' @ [CHR 0x0A])
             [VWord (ucast (p_bus pf)), VWord (ucast (p_dev pf)), VWord (ucast (p_func pf)), VWord (bar0 n),
              VWord (num_lbas n), VWord (drop_bit 20 (num_lbas n * ucast NVME_LBA_SIZE))] m;
           Some (True, n, m) } } } }"

text \<open>From the mapped registers to the enabled controller.\<close>

definition nvme_bring_up ::
  "env \<Rightarrow> u64 \<Rightarrow> u64 \<Rightarrow> pci_func \<Rightarrow> nvme \<Rightarrow> mach \<Rightarrow> (bool \<times> nvme \<times> mach) option" where
  "nvme_bring_up E ub ns_id pf n m =
     (let n = n\<lparr>bar0 := pci_func.bar pf ! 0, aq_entries := QUEUE_DEPTH, ioq_entries := QUEUE_DEPTH, cmd_id := 1,
                acq_phase := True, iocq_phase := True\<rparr>;
          m = nvme_w32 n NVME_REG_CC 0 m;
          (ok, m) = wait_csts_rdy E n False 100000 m in
      if \<not> ok
      then do { m \<leftarrow> uart_puts E ub (bytes_of (''nvme: controller stuck ready during reset'' @ [CHR 0x0A])) m;
                Some (False, n, m) }
      else
        (let aqa = ucast (aq_entries n - 1) OR push_bit 16 (ucast (aq_entries n - 1));
             m = nvme_w32 n NVME_REG_AQA aqa m;
             m = nvme_w32 n NVME_REG_ASQ_LO (ucast (asq_buf n)) m;
             m = nvme_w32 n NVME_REG_ASQ_HI (ucast (drop_bit 32 (asq_buf n))) m;
             m = nvme_w32 n NVME_REG_ACQ_LO (ucast (acq_buf n)) m;
             m = nvme_w32 n NVME_REG_ACQ_HI (ucast (drop_bit 32 (acq_buf n))) m;
             m = nvme_w32 n NVME_REG_CC (NVME_CC_EN OR NVME_CC_IOQES) m;
             (ok, m) = wait_csts_rdy E n True 100000 m in
         if \<not> ok
         then do { m \<leftarrow> uart_puts E ub (bytes_of (''nvme: controller failed to ready'' @ [CHR 0x0A])) m;
                   Some (False, n, m) }
         else nvme_create_queues E ub ns_id pf n m))"

definition nvme_init_nth ::
  "env \<Rightarrow> u64 \<Rightarrow> u64 \<Rightarrow> u64 \<Rightarrow> nvme \<Rightarrow> u32 \<Rightarrow> mach \<Rightarrow> (bool \<times> nvme \<times> mach) option" where
  "nvme_init_nth E ub ecam ns_id n idx m =
     (let m = emits (map (\<lambda>i. Wr8 (n_at n + of_nat i) 0) [0..<NVME_T_SIZE]) m; n = nvme_zero (n_at n)
      in do {
        (pf, m) \<leftarrow> pci_find_device_nth E ecam NVME_PCI_ID idx m;
        case pf of None \<Rightarrow> Some (False, n, m)
        | Some pf \<Rightarrow>
            (let (pf, m) = pci_setup_bars E pf m in
             if pci_func.bar pf ! 0 = 0
             then do {
               m \<leftarrow> uart_printf E ub (''nvme: BAR0 unmapped on %u:%u.%u'' @ [CHR 0x0A])
                 [VWord (ucast (p_bus pf)), VWord (ucast (p_dev pf)), VWord (ucast (p_func pf))] m;
               Some (False, n, m) }
             else nvme_bring_up E ub ns_id pf n m) })"

definition nvme_init ::
  "env \<Rightarrow> u64 \<Rightarrow> u64 \<Rightarrow> u64 \<Rightarrow> nvme \<Rightarrow> mach \<Rightarrow> (bool \<times> nvme \<times> mach) option" where
  "nvme_init E ub ecam ns_id n m = nvme_init_nth E ub ecam ns_id n 0 m"

section \<open>Block transfers\<close>

text \<open>One round of the transfer loops: how many blocks the next command moves, and where.\<close>

definition next_batch :: "u32 \<Rightarrow> u32 \<Rightarrow> u32" where
  "next_batch nlb done_n =
     (let batch = nlb - done_n in if batch > NVME_MAX_LBAS_PER_CMD then NVME_MAX_LBAS_PER_CMD else batch)"

partial_function (option) nvme_read_loop ::
  "env \<Rightarrow> u64 \<Rightarrow> u64 \<Rightarrow> u64 \<Rightarrow> u32 \<Rightarrow> u32 \<times> nvme \<times> mach \<Rightarrow> (u32 \<times> nvme \<times> mach) option" where
  "nvme_read_loop E ub lba buf nlb s = (case s of (done_n, n, m) \<Rightarrow>
     if done_n < nlb
     then
       (let batch = next_batch nlb done_n
        in do {
          (st, n, m) \<leftarrow> io_cmd E n IO_READ (lba + ucast done_n) (buf + ucast done_n * ucast NVME_LBA_SIZE)
            (batch * NVME_LBA_SIZE) batch m;
          if st \<noteq> 0
          then do {
            m \<leftarrow> uart_printf E ub (''nvme: read failed at lba=%u nlb=%u status=%x (%u of %u LBAs done)'' @ [CHR 0x0A])
              [VWord (lba + ucast done_n), VWord (ucast batch), VWord (ucast st), VWord (ucast done_n), VWord (ucast nlb)] m;
            Some (done_n, n, m) }
          else nvme_read_loop E ub lba buf nlb (done_n + batch, n, m) })
     else Some (done_n, n, m))"

definition nvme_read ::
  "env \<Rightarrow> u64 \<Rightarrow> nvme \<Rightarrow> u64 \<Rightarrow> u64 \<Rightarrow> u32 \<Rightarrow> mach \<Rightarrow> (u32 \<times> nvme \<times> mach) option" where
  "nvme_read E ub n lba buf nlb m =
     (if \<not> present n \<or> nlb = 0 then Some (0, n, m) else nvme_read_loop E ub lba buf nlb (0, n, m))"

partial_function (option) nvme_write_loop ::
  "env \<Rightarrow> u64 \<Rightarrow> u64 \<Rightarrow> u32 \<Rightarrow> u32 \<times> nvme \<times> mach \<Rightarrow> (u32 \<times> nvme \<times> mach) option" where
  "nvme_write_loop E lba buf nlb s = (case s of (done_n, n, m) \<Rightarrow>
     if done_n < nlb
     then
       (let batch = next_batch nlb done_n
        in do {
          (st, n, m) \<leftarrow> io_cmd E n IO_WRITE (lba + ucast done_n) (buf + ucast done_n * ucast NVME_LBA_SIZE)
            (batch * NVME_LBA_SIZE) batch m;
          if st \<noteq> 0 then Some (done_n, n, m)
          else nvme_write_loop E lba buf nlb (done_n + batch, n, m) })
     else Some (done_n, n, m))"

definition nvme_write ::
  "env \<Rightarrow> nvme \<Rightarrow> u64 \<Rightarrow> u64 \<Rightarrow> u32 \<Rightarrow> mach \<Rightarrow> (u32 \<times> nvme \<times> mach) option" where
  "nvme_write E n lba buf nlb m =
     (if \<not> present n \<or> nlb = 0 then Some (0, n, m) else nvme_write_loop E lba buf nlb (0, n, m))"

definition nvme_flush :: "env \<Rightarrow> nvme \<Rightarrow> mach \<Rightarrow> (bool \<times> nvme \<times> mach) option" where
  "nvme_flush E n m =
     (if \<not> present n then Some (False, n, m)
      else do { (st, n, m) \<leftarrow> io_cmd E n IO_FLUSH 0 0 0 0 m; Some (st = 0, n, m) })"

lemma sqe_w64_store:
  "sqe_w64 sqe SQE_PRP1 v m = emits (store64 (sqe + 0x18) v) m"
  "sqe_w64 sqe SQE_PRP2 v m = emits (store64 (sqe + 0x20) v) m"
  by (simp_all add: sqe_w64_def sqe_w32_def store64_def sqe_fields halves_bytes ucast_ucast_down add.assoc)

lemma prp_list_w64_store:
  "prp_list_w64 n off v m = (if unat off + 8 \<le> 65536 then Some (emits (store64 (prp_list n + ucast off) v) m) else None)"
  by (simp add: prp_list_w64_def store64_def NVME_PRP_LIST_PAGES_def NVME_PAGE_SIZE_def upt_rec)

section \<open>PRP entries\<close>

text \<open>What the specification makes of the entries: \<open>k\<close> pages are still to be found, the next
  entry is at \<open>p\<close>; the last entry of a list page is a pointer to the next list page when
  more than one page is left.\<close>

fun prp_walk :: "mem \<Rightarrow> u64 \<Rightarrow> nat \<Rightarrow> u64 list" where
  "prp_walk M p 0 = []"
| "prp_walk M p (Suc k) =
     (if p AND 0xFFF = 0xFF8 \<and> 0 < k
      then (let q = read64 M p in read64 M q # prp_walk M (q + 8) k)
      else read64 M p # prp_walk M (p + 8) k)"

definition slot_at :: "nvme \<Rightarrow> nat \<Rightarrow> nat \<Rightarrow> u64" where
  "slot_at n p s = prp_list n + of_nat (4096 * p + 8 * s)"

lemma page_offset:
  fixes a :: u64
  assumes "a AND 0xFFF = 0" "k < 4096"
  shows "(a + of_nat (4096 * p + k)) AND 0xFFF = of_nat k"
proof -
  have m: "(0xFFF :: u64) = mask 12" by (simp add: mask_eq_exp_minus_1)
  have a: "unat a mod 4096 = 0"
    using arg_cong [OF assms(1), of unat] unfolding m unat_and_mask by simp
  have u: "unat (a + of_nat c) = (unat a + c) mod 2 ^ 64" for c
    by (simp add: unat_word_ariths unat_of_nat take_bit_eq_mod mod_add_right_eq)
  have "unat ((a + of_nat (4096 * p + k)) AND mask 12) = (unat a + (4096 * p + k)) mod 2 ^ 64 mod 4096"
    unfolding unat_and_mask u by simp
  also have "\<dots> = (unat a + (4096 * p + k)) mod 4096"
    by (rule mod_mod_cancel) (rule dvdI [of _ _ "2 ^ 52"], simp)
  also have "\<dots> = k" using a assms(2) by (simp add: mod_add_eq [symmetric])
  finally show ?thesis unfolding m
    using assms(2) by (simp add: word_unat_eq_iff unat_of_nat_small)
qed

lemma of_nat_less_u32: "a < 2 ^ 32 \<Longrightarrow> b < 2 ^ 32 \<Longrightarrow> ((of_nat a :: u32) < of_nat b) = (a < b)"
  by (simp add: word_less_nat_alt unat_of_nat_small)

lemma ucast_of_nat_u32: "a < 2 ^ 32 \<Longrightarrow> (ucast (of_nat a :: u32) :: u64) = of_nat a"
  by (simp add: ucast_eq_of_nat unat_of_nat_small)

text \<open>One step of the loop, in naturals.\<close>

lemma prp_loop_step:
  assumes "p \<le> 16" "s \<le> 511" "i < needed" "needed \<le> 2 ^ 20"
  shows "prp_loop n b (of_nat needed) (of_nat p) (of_nat s) (of_nat i) m =
    (if 65536 < 4096 * p + 8 * s + 8 then None
     else if s = 511 \<and> Suc i < needed
     then prp_loop n b (of_nat needed) (of_nat (Suc p)) (of_nat 0) (of_nat i)
       (emits (store64 (slot_at n p s) (slot_at n (Suc p) 0)) m)
     else prp_loop n b (of_nat needed) (of_nat p) (of_nat (Suc s)) (of_nat (Suc i))
       (emits (store64 (slot_at n p s) (b + of_nat i * 4096)) m))"
proof -
  define c where "c = 4096 * p + 8 * s"
  define d where "d = 4096 * Suc p"
  have sl: "slot_at n p s = prp_list n + of_nat c" "slot_at n (Suc p) 0 = prp_list n + of_nat d"
    by (simp_all add: slot_at_def c_def d_def)
  have "of_nat p * NVME_PAGE_SIZE + of_nat s * 8 = (of_nat c :: u32)"
    "(of_nat p + 1) * NVME_PAGE_SIZE = (of_nat d :: u32)"
    by (simp_all add: NVME_PAGE_SIZE_def c_def d_def algebra_simps)
  moreover have "((of_nat s :: u32) = ENTRIES_PER_LIST_PAGE - 1) = (s = 511)"
    using assms by (simp add: ENTRIES_PER_LIST_PAGE_def NVME_PAGE_SIZE_def word_unat_eq_iff unat_of_nat_small)
  moreover have "(of_nat i :: u32) + 1 = of_nat (Suc i)" "(of_nat s :: u32) + 1 = of_nat (Suc s)"
    "of_nat (Suc p) = (of_nat p :: u32) + 1"
    by simp_all
  moreover have "unat (of_nat c :: u32) = c"
    using assms by (simp add: unat_of_nat_small c_def del: of_nat_add of_nat_mult)
  moreover have "(ucast (of_nat c :: u32) :: u64) = of_nat c" "(ucast (of_nat d :: u32) :: u64) = of_nat d"
    "(ucast (of_nat i :: u32) :: u64) = of_nat i"
    using assms by (simp_all add: ucast_of_nat_u32 c_def d_def del: of_nat_add of_nat_mult of_nat_Suc)
  moreover have "((of_nat i :: u32) < of_nat needed) = (i < needed)"
    "((of_nat (Suc i) :: u32) < of_nat needed) = (Suc i < needed)"
    using assms by (simp_all add: of_nat_less_u32 del: of_nat_Suc)
  moreover have "(ucast NVME_PAGE_SIZE :: u64) = 4096" by (simp add: NVME_PAGE_SIZE_def)
  moreover have "(65536 < 4096 * p + 8 * s + 8) = (\<not> c + 8 \<le> 65536)" by (auto simp: c_def)
  ultimately show ?thesis using assms(3) unfolding sl
    by (subst prp_loop.simps) (simp add: prp_list_w64_store Let_def del: of_nat_Suc)
qed

lemma prp_loop_end:
  "prp_loop n b (of_nat k) p s (of_nat k) m = Some m"
  by (subst prp_loop.simps) simp

lemma prp_loop_overrun:
  assumes "p \<le> 16" "s \<le> 511" "i = 511 * p + s" "8177 < needed" "needed \<le> 2 ^ 20" "i \<le> 8176"
  shows "prp_loop n b (of_nat needed) (of_nat p) (of_nat s) (of_nat i) m = None"
  using assms
proof (induction "2 * (8177 - i) + (if s = 511 then 1 else 0)" arbitrary: p s i m rule: less_induct)
  case less
  note st = prp_loop_step [OF less.prems(1,2) _ less.prems(5), of i n b m]
  have i: "i < needed" "Suc i < needed" using less.prems by auto
  show ?case
  proof (cases "65536 < 4096 * p + 8 * s + 8")
    case True
    then show ?thesis using st i by simp
  next
    case False
    show ?thesis
    proof (cases "s = 511")
      case True
      have "prp_loop n b (of_nat needed) (of_nat (Suc p)) (of_nat 0) (of_nat i) m' = None" for m'
        using less.prems False True by (intro less.hyps) auto
      then show ?thesis using st i False True by simp
    next
      case nl: False
      have "p \<le> 15" "s \<le> 510" using less.prems(2) False nl by simp_all
      then have "i \<noteq> 8176" using less.prems(3) by simp
      then have "prp_loop n b (of_nat needed) (of_nat p) (of_nat (Suc s)) (of_nat (Suc i)) m' = None" for m'
        using less.prems nl by (intro less.hyps) (simp_all, arith?)
      then show ?thesis using st [OF i(1)] False nl by (simp only: if_False simp_thms)
    qed
  qed
qed

text \<open>Where the stores go, and what a walk over any memory that holds them finds.\<close>

definition in_list :: "nvme \<Rightarrow> nat \<Rightarrow> nat \<Rightarrow> history \<Rightarrow> bool" where
  "in_list n p s as = (\<forall>x\<in>touched as. 4096 * p + 8 * s \<le> unat (x - prp_list n) \<and> unat (x - prp_list n) < 65536)"

definition holds_stores :: "mem \<Rightarrow> history \<Rightarrow> bool" where
  "holds_stores M as = (\<forall>x\<in>touched as. M x = ram_of as x)"

lemma slot_offset:
  assumes "4096 * p + 8 * s + 8 \<le> 65536" "x \<in> touched (store64 (slot_at n p s) v)"
  shows "4096 * p + 8 * s \<le> unat (x - prp_list n) \<and> unat (x - prp_list n) < 4096 * p + 8 * s + 8"
proof -
  have "unat (x - slot_at n p s) < 8" using assms(2) by (simp add: touched_store64_iff)
  moreover have "unat (x - prp_list n) = unat ((x - slot_at n p s) + of_nat (4096 * p + 8 * s))"
    by (simp add: slot_at_def)
  moreover have "unat (of_nat (4096 * p + 8 * s) :: u64) = 4096 * p + 8 * s"
    using assms(1) by (intro unat_of_nat_small) simp
  ultimately have "unat (x - prp_list n) = unat (x - slot_at n p s) + (4096 * p + 8 * s)"
    using assms(1) unat_add_no_wrap [of "x - slot_at n p s" "of_nat (4096 * p + 8 * s)"] by simp
  then show ?thesis using \<open>unat (x - slot_at n p s) < 8\<close> by simp
qed

lemma holds_stores_append:
  assumes "holds_stores M (as @ bs)" "touched as \<inter> touched bs = {}"
  shows "holds_stores M as" "holds_stores M bs"
  using assms by (auto simp: holds_stores_def ram_of_append)

lemma store_then:
  assumes "in_list n p s' as" "8 * s + 8 \<le> 4096 * (p - q) + 8 * s'" "q \<le> p" "4096 * q + 8 * s + 8 \<le> 65536"
  shows "in_list n q s (store64 (slot_at n q s) v @ as)"
    and "holds_stores M (store64 (slot_at n q s) v @ as) \<Longrightarrow> read64 M (slot_at n q s) = v \<and> holds_stores M as"
proof -
  have le: "4096 * q + 8 * s + 8 \<le> 4096 * p + 8 * s'" using assms(2,3) by (simp add: diff_mult_distrib2)
  note here = slot_offset [OF assms(4), of _ n v]
  have there: "4096 * q + 8 * s + 8 \<le> unat (x - prp_list n)" "unat (x - prp_list n) < 65536"
    if "x \<in> touched as" for x
    using assms(1) le that order.trans unfolding in_list_def by blast+
  show "in_list n q s (store64 (slot_at n q s) v @ as)"
    unfolding in_list_def
  proof
    fix x assume "x \<in> touched (store64 (slot_at n q s) v @ as)"
    then consider "x \<in> touched (store64 (slot_at n q s) v)" | "x \<in> touched as" by auto
    then show "4096 * q + 8 * s \<le> unat (x - prp_list n) \<and> unat (x - prp_list n) < 65536"
      using here [of x] there [of x] assms(4) by cases linarith+
  qed
  have "touched (store64 (slot_at n q s) v) \<inter> touched as = {}"
  proof (rule ccontr)
    assume "touched (store64 (slot_at n q s) v) \<inter> touched as \<noteq> {}"
    then obtain x where "x \<in> touched (store64 (slot_at n q s) v)" "x \<in> touched as" by blast
    then show False using here [of x] there [of x] by linarith
  qed
  moreover assume "holds_stores M (store64 (slot_at n q s) v @ as)"
  ultimately show "read64 M (slot_at n q s) = v \<and> holds_stores M as"
    using holds_stores_append [of M "store64 (slot_at n q s) v" as] read64_store64 [of "slot_at n q s" v M]
    by (simp add: holds_stores_def)
qed

lemma prp_loop_walk:
  assumes "p \<le> 15" "s \<le> 511 \<or> s = 512 \<and> i = needed" "i = 511 * p + s" "i \<le> needed" "needed \<le> 8177"
    and al: "prp_list n AND 0xFFF = 0"
  shows "\<exists>as. prp_loop n b (of_nat needed) (of_nat p) (of_nat s) (of_nat i) m = Some (emits as m) \<and>
    in_list n p s as \<and>
    (\<forall>M. holds_stores M as \<longrightarrow>
      prp_walk M (slot_at n p s) (needed - i) = map (\<lambda>j. b + of_nat j * 4096) [i..<needed])"
  using assms(1-5)
proof (induction "2 * (needed - i) + (if s = 511 then 1 else 0)" arbitrary: p s i m rule: less_induct)
  case less
  show ?case
  proof (cases "i = needed")
    case True
    then show ?thesis
      by (intro exI [of _ "[]"]) (simp add: prp_loop_end in_list_def)
  next
    case False
    then have i: "i < needed" and s: "s \<le> 511" using less.prems by auto
    have fits: "4096 * p + 8 * s + 8 \<le> 65536" using less.prems(1) s by simp
    have st: "prp_loop n b (of_nat needed) (of_nat p) (of_nat s) (of_nat i) m =
      (if s = 511 \<and> Suc i < needed
       then prp_loop n b (of_nat needed) (of_nat (Suc p)) (of_nat 0) (of_nat i)
         (emits (store64 (slot_at n p s) (slot_at n (Suc p) 0)) m)
       else prp_loop n b (of_nat needed) (of_nat p) (of_nat (Suc s)) (of_nat (Suc i))
         (emits (store64 (slot_at n p s) (b + of_nat i * 4096)) m))"
      using prp_loop_step [OF _ s i, of p n b m] less.prems fits by simp
    have off: "slot_at n p s AND 0xFFF = of_nat (8 * s)"
      unfolding slot_at_def by (rule page_offset [OF al]) (use s in simp)
    show ?thesis
    proof (cases "s = 511 \<and> Suc i < needed")
      case True
      then have p: "Suc p \<le> 15" using less.prems by simp
      let ?v = "slot_at n (Suc p) 0"
      have "\<exists>as. prp_loop n b (of_nat needed) (of_nat (Suc p)) (of_nat 0) (of_nat i)
          (emits (store64 (slot_at n p s) ?v) m) = Some (emits as (emits (store64 (slot_at n p s) ?v) m)) \<and>
        in_list n (Suc p) 0 as \<and> (\<forall>M. holds_stores M as \<longrightarrow>
          prp_walk M ?v (needed - i) = map (\<lambda>j. b + of_nat j * 4096) [i..<needed])"
        by (rule less.hyps) (use p True less.prems in simp_all)
      then obtain as where r: "prp_loop n b (of_nat needed) (of_nat (Suc p)) (of_nat 0) (of_nat i)
          (emits (store64 (slot_at n p s) ?v) m) = Some (emits as (emits (store64 (slot_at n p s) ?v) m))"
        "in_list n (Suc p) 0 as" "\<forall>M. holds_stores M as \<longrightarrow>
          prp_walk M ?v (needed - i) = map (\<lambda>j. b + of_nat j * 4096) [i..<needed]"
        by blast
      note new = store_then [OF r(2), where s = s and q = p and v = ?v] 
      have z: "?v AND 0xFFF = 0" using page_offset [OF al, of 0 "Suc p"] by (simp add: slot_at_def)
      obtain k where k: "needed - i = Suc k" "0 < k" using True by (metis Suc_diff_Suc Suc_lessD zero_less_diff)
      have "prp_walk M (slot_at n p s) (needed - i) = map (\<lambda>j. b + of_nat j * 4096) [i..<needed]"
        if "holds_stores M (store64 (slot_at n p s) ?v @ as)" for M
        using new(2) [OF _ _ fits that] r(3) True off z k by simp
      then show ?thesis using r(1) st True new(1) [OF _ _ fits]
        by (intro exI [of _ "store64 (slot_at n p s) ?v @ as"]) simp
    next
      case nl: False
      let ?v = "b + of_nat i * 4096"
      have "\<exists>as. prp_loop n b (of_nat needed) (of_nat p) (of_nat (Suc s)) (of_nat (Suc i))
          (emits (store64 (slot_at n p s) ?v) m) = Some (emits as (emits (store64 (slot_at n p s) ?v) m)) \<and>
        in_list n p (Suc s) as \<and> (\<forall>M. holds_stores M as \<longrightarrow>
          prp_walk M (slot_at n p (Suc s)) (needed - Suc i) = map (\<lambda>j. b + of_nat j * 4096) [Suc i..<needed])"
      proof (rule less.hyps)
        show "2 * (needed - Suc i) + (if Suc s = 511 then 1 else 0) < 2 * (needed - i) + (if s = 511 then 1 else 0)"
          unfolding Suc_diff_Suc [OF i, symmetric] by simp
        show "Suc s \<le> 511 \<or> Suc s = 512 \<and> Suc i = needed" using nl i s by linarith
        show "Suc i = 511 * p + Suc s" using less.prems(3) by simp
      qed (use i less.prems in simp_all)
      then obtain as where r: "prp_loop n b (of_nat needed) (of_nat p) (of_nat (Suc s)) (of_nat (Suc i))
          (emits (store64 (slot_at n p s) ?v) m) = Some (emits as (emits (store64 (slot_at n p s) ?v) m))"
        "in_list n p (Suc s) as" "\<forall>M. holds_stores M as \<longrightarrow>
          prp_walk M (slot_at n p (Suc s)) (needed - Suc i) = map (\<lambda>j. b + of_nat j * 4096) [Suc i..<needed]"
        by blast
      note new = store_then [OF r(2), where s = s and q = p and v = ?v]
      have k: "needed - i = Suc (needed - Suc i)" using i by simp
      have nx: "slot_at n p s + 8 = slot_at n p (Suc s)" by (simp add: slot_at_def)
      have "(of_nat (8 * s) = (0xFF8 :: u64)) = (s = 511)"
        using s by (simp add: word_unat_eq_iff unat_of_nat_small del: of_nat_mult)
      then have "prp_walk M (slot_at n p s) (needed - i) = map (\<lambda>j. b + of_nat j * 4096) [i..<needed]"
        if "holds_stores M (store64 (slot_at n p s) ?v @ as)" for M
        using new(2) [OF _ _ fits that] r(3) nl off i unfolding k
        by (auto simp: nx upt_conv_Cons [OF i] simp del: of_nat_mult)
      then show ?thesis using r(1) st nl new(1) [OF _ _ fits]
        by (intro exI [of _ "store64 (slot_at n p s) ?v @ as"]) (simp del: of_nat_Suc)
    qed
  qed
qed

text \<open>The pages a controller transfers for a command of \<open>len\<close> bytes with the given PRP fields,
  and the pages of a buffer.\<close>

definition prp_pages :: "mem \<Rightarrow> u64 \<Rightarrow> u64 \<Rightarrow> nat \<Rightarrow> u64 list" where
  "prp_pages M p1 p2 len =
     (let first = 4096 - unat p1 mod 4096 in
      if len \<le> first then [p1] else if len \<le> first + 4096 then [p1, p2]
      else p1 # prp_walk M p2 ((len - first + 4095) div 4096))"

definition buffer_pages :: "u64 \<Rightarrow> nat \<Rightarrow> u64 list" where
  "buffer_pages buf len =
     (let first = 4096 - unat buf mod 4096
      in buf # map (\<lambda>j. buf + of_nat first + of_nat j * 4096) [0..<(len - first + 4095) div 4096])"

definition prp1_of :: "history \<Rightarrow> u64 \<Rightarrow> u64" where "prp1_of h sqe = read64 (ram_of h) (sqe + 0x18)"
definition prp2_of :: "history \<Rightarrow> u64 \<Rightarrow> u64" where "prp2_of h sqe = read64 (ram_of h) (sqe + 0x20)"

lemma list_far: "unat (x - prp_list n) < 65536 \<Longrightarrow> 16384 \<le> unat (x - n_at n)"
proof -
  assume x: "unat (x - prp_list n) < 65536"
  have "unat (x - n_at n) = unat ((x - prp_list n) + 16384)" by (simp add: prp_list_def)
  also have "\<dots> = unat (x - prp_list n) + 16384"
    using x by (subst unat_add_no_wrap) simp_all
  finally show ?thesis by simp
qed

lemma list_apart:
  assumes "unat (sqe - n_at n) \<le> 16320" "k = 0x18 \<or> k = 0x20" "in_list n 0 0 as"
  shows "touched (store64 (sqe + of_nat k) v) \<inter> touched as = {}"
proof (rule ccontr)
  assume "touched (store64 (sqe + of_nat k) v) \<inter> touched as \<noteq> {}"
  then obtain x where x: "unat (x - (sqe + of_nat k)) < 8" "unat (x - prp_list n) < 65536"
    using assms(3) touched_store64_iff unfolding in_list_def by blast
  have k: "unat (of_nat k :: u64) = k" "k \<le> 32" using assms(2) by auto
  note far = list_far [OF x(2)]
  have sk: "unat ((sqe - n_at n) + of_nat k) = unat (sqe - n_at n) + k"
    using assms(1) k by (subst unat_add_no_wrap) simp_all
  have "unat (x - n_at n) = unat ((x - (sqe + of_nat k)) + ((sqe - n_at n) + of_nat k))"
    by (simp add: algebra_simps)
  also have "\<dots> = unat (x - (sqe + of_nat k)) + (unat (sqe - n_at n) + k)"
    unfolding sk [symmetric] by (rule unat_add_no_wrap) (use x(1) assms(1) k sk in simp)
  finally show False using far x(1) assms(1) k by linarith
qed

lemma prps_apart: "touched (store64 (sqe + 0x18) v) \<inter> touched (store64 (sqe + 0x20) w) = {}"
  by (auto simp: touched_store64)

lemma prp_fields:
  assumes "touched (store64 (sqe + 0x18) v) \<inter> touched as = {}" "touched (store64 (sqe + 0x20) w) \<inter> touched as = {}"
    and h: "holds_stores M (store64 (sqe + 0x18) v @ as @ store64 (sqe + 0x20) w)"
  shows "read64 M (sqe + 0x18) = v" "read64 M (sqe + 0x20) = w" "holds_stores M as"
proof -
  have "touched (store64 (sqe + 0x18) v) \<inter> touched (as @ store64 (sqe + 0x20) w) = {}"
    using assms(1) prps_apart [of sqe v w] by auto
  note h1 = holds_stores_append [OF h this]
  have "touched as \<inter> touched (store64 (sqe + 0x20) w) = {}" using assms(2) by auto
  note h2 = holds_stores_append [OF h1(2) this]
  show "read64 M (sqe + 0x18) = v" by (rule read64_store64) (use h1(1) in \<open>simp add: holds_stores_def\<close>)
  show "read64 M (sqe + 0x20) = w" by (rule read64_store64) (use h2(2) in \<open>simp add: holds_stores_def\<close>)
  show "holds_stores M as" by (rule h2(1))
qed

text \<open>The arithmetic of the first page.\<close>

lemma first_page:
  fixes buf :: u64
  defines "f \<equiv> NVME_PAGE_SIZE - ucast (buf AND (ucast NVME_PAGE_SIZE - 1))"
  shows "unat f = 4096 - unat buf mod 4096" "ucast f = (of_nat (4096 - unat buf mod 4096) :: u64)"
    "(buf + ucast f) AND NOT (ucast NVME_PAGE_SIZE - 1) = buf + ucast f"
proof -
  have m: "(ucast NVME_PAGE_SIZE - 1 :: u64) = mask 12"
    by (simp add: NVME_PAGE_SIZE_def mask_eq_exp_minus_1)
  have o: "unat (buf AND mask 12) = unat buf mod 4096" unfolding unat_and_mask by simp
  have "(ucast (buf AND mask 12) :: u32) = of_nat (unat buf mod 4096)"
    unfolding ucast_eq_of_nat o ..
  then have "unat (ucast (buf AND mask 12) :: u32) = unat buf mod 4096"
    by (simp add: unat_of_nat_small order.strict_trans [OF mod_less_divisor])
  then show uf: "unat f = 4096 - unat buf mod 4096" unfolding f_def m
    by (subst unat_sub_no_wrap) (simp_all add: NVME_PAGE_SIZE_def word_le_nat_alt less_imp_le)
  show cf: "ucast f = (of_nat (4096 - unat buf mod 4096) :: u64)" unfolding ucast_eq_of_nat uf ..
  have ufc: "unat (ucast f :: u64) = 4096 - unat buf mod 4096"
    using uf by (simp add: unat_ucast_up)
  have "unat buf + (4096 - unat buf mod 4096) = 4096 * (unat buf div 4096 + 1)"
    using mult_div_mod_eq [of 4096 "unat buf"] mod_less_divisor [of 4096 "unat buf"]
    unfolding distrib_left by linarith
  then have al: "(unat buf + (4096 - unat buf mod 4096)) mod 4096 = 0" by simp
  have "unat ((buf + ucast f) AND mask 12) = (unat buf + (4096 - unat buf mod 4096)) mod 2 ^ 64 mod 4096"
    unfolding unat_and_mask by (simp add: unat_word_ariths ufc)
  also have "\<dots> = (unat buf + (4096 - unat buf mod 4096)) mod 4096"
    by (rule mod_mod_cancel) (rule dvdI [of _ _ "2 ^ 52"], simp)
  finally have "(buf + ucast f) AND mask 12 = 0" using al by (simp add: word_unat_eq_iff)
  then show "(buf + ucast f) AND NOT (ucast NVME_PAGE_SIZE - 1) = buf + ucast f"
    unfolding m using or_and_low(1) [of "buf + ucast f" "mask 12" 0] by simp
qed

lemma word_of_unat: "unat w = k \<Longrightarrow> w = of_nat k"
  by (drule sym) simp

lemma setup_prp_list:
  fixes buf :: u64 and sz :: u32
  defines "first \<equiv> 4096 - unat buf mod 4096"
  assumes "first + 4096 < unat sz" "unat sz < 2 ^ 31"
  shows "setup_prp n sqe buf sz m = do {
    m \<leftarrow> prp_loop n (buf + of_nat first) (of_nat ((unat sz - first + 4095) div 4096)) 0 0 0
      (emits (store64 (sqe + 0x18) buf) m);
    Some (emits (store64 (sqe + 0x20) (prp_list n)) m) }"
proof -
  let ?f = "NVME_PAGE_SIZE - ucast (buf AND (ucast NVME_PAGE_SIZE - 1)) :: u32"
  note f = first_page [of buf, folded first_def]
  have P: "unat NVME_PAGE_SIZE = 4096" by (simp add: NVME_PAGE_SIZE_def)
  have fl: "first \<le> 4096" by (simp add: first_def)
  have uf1: "unat (?f + NVME_PAGE_SIZE) = first + 4096"
    using f(1) fl by (subst unat_add_no_wrap) (simp_all add: P)
  have br: "\<not> sz \<le> ?f" "\<not> sz \<le> ?f + NVME_PAGE_SIZE"
    using assms(2) unfolding word_le_nat_alt uf1 f(1) by simp_all
  have r: "unat (sz - ?f) = unat sz - first"
    using br(1) f(1) by (subst unat_sub_no_wrap) simp_all
  have "unat (sz - ?f + NVME_PAGE_SIZE) = unat sz - first + 4096"
    using assms(3) by (subst unat_add_no_wrap) (simp_all add: r P)
  then have "unat (sz - ?f + NVME_PAGE_SIZE - 1) = unat sz - first + 4095"
    by (subst unat_sub_no_wrap) (simp_all add: word_le_nat_alt)
  then have "unat ((sz - ?f + NVME_PAGE_SIZE - 1) div NVME_PAGE_SIZE) = (unat sz - first + 4095) div 4096"
    by (simp add: unat_div P)
  note eq = word_of_unat [OF this]
  show ?thesis using br f eq
    by (simp add: setup_prp_def Let_def sqe_w64_store)
qed

text \<open>The transfer is described: the stores of \<open>setup_prp\<close> go to the two PRP fields and the list
  pages, and in every memory that holds them they lead a controller to the buffer's pages.\<close>

definition prp_area :: "nvme \<Rightarrow> u64 \<Rightarrow> u64 set" where
  "prp_area n sqe = {x. 16384 \<le> unat (x - n_at n)} \<union> {x. unat (x - (sqe + 0x18)) < 8} \<union> {x. unat (x - (sqe + 0x20)) < 8}"

definition prp_described :: "nvme \<Rightarrow> u64 \<Rightarrow> u64 \<Rightarrow> u32 \<Rightarrow> mach \<Rightarrow> bool" where
  "prp_described n sqe buf sz m \<longleftrightarrow> (\<exists>as. setup_prp n sqe buf sz m = Some (emits as m) \<and>
     touched as \<subseteq> prp_area n sqe \<and>
     (\<forall>M. holds_stores M as \<longrightarrow>
       prp_pages M (read64 M (sqe + 0x18)) (read64 M (sqe + 0x20)) (unat sz) = buffer_pages buf (unat sz)))"

lemma prp_describedI:
  assumes "setup_prp n sqe buf sz m = Some (emits (store64 (sqe + 0x18) buf @ as @ store64 (sqe + 0x20) w) m)"
    and "touched (store64 (sqe + 0x18) buf) \<inter> touched as = {}" "touched (store64 (sqe + 0x20) w) \<inter> touched as = {}"
    and "\<And>x. x \<in> touched as \<Longrightarrow> 16384 \<le> unat (x - n_at n)"
    and "\<And>M. holds_stores M as \<Longrightarrow> prp_pages M buf w (unat sz) = buffer_pages buf (unat sz)"
  shows "prp_described n sqe buf sz m"
proof -
  let ?as = "store64 (sqe + 0x18) buf @ as @ store64 (sqe + 0x20) w"
  have "touched ?as \<subseteq> prp_area n sqe"
    using assms(4) by (auto simp: prp_area_def touched_store64_iff)
  moreover have "prp_pages M (read64 M (sqe + 0x18)) (read64 M (sqe + 0x20)) (unat sz) = buffer_pages buf (unat sz)"
    if "holds_stores M ?as" for M
    using prp_fields [OF assms(2,3) that] assms(5) by simp
  ultimately show ?thesis using assms(1) unfolding prp_described_def by blast
qed

lemma prp_described_trace:
  assumes "prp_described n sqe buf sz m"
  shows "\<exists>as. setup_prp n sqe buf sz m = Some (emits as m) \<and>
     prp_pages (ram_of (trace m @ as)) (prp1_of (trace m @ as) sqe) (prp2_of (trace m @ as) sqe) (unat sz) =
       buffer_pages buf (unat sz)"
proof -
  have "holds_stores (ram_of (trace m @ as)) as" for as
    by (simp add: holds_stores_def ram_of_append)
  then show ?thesis using assms unfolding prp_described_def prp1_of_def prp2_of_def by blast
qed

lemma first_page_le:
  fixes buf :: u64 and sz :: u32
  defines "f \<equiv> NVME_PAGE_SIZE - ucast (buf AND (ucast NVME_PAGE_SIZE - 1)) :: u32"
  shows "(sz \<le> f) = (unat sz \<le> 4096 - unat buf mod 4096)"
    and "(sz \<le> f + NVME_PAGE_SIZE) = (unat sz \<le> 4096 - unat buf mod 4096 + 4096)"
proof -
  note f1 = first_page(1) [of buf, folded f_def]
  show "(sz \<le> f) = (unat sz \<le> 4096 - unat buf mod 4096)" by (simp add: word_le_nat_alt f1)
  have "unat (f + NVME_PAGE_SIZE) = 4096 - unat buf mod 4096 + 4096"
    using f1 by (subst unat_add_no_wrap) (simp_all add: NVME_PAGE_SIZE_def)
  then show "(sz \<le> f + NVME_PAGE_SIZE) = (unat sz \<le> 4096 - unat buf mod 4096 + 4096)" by (simp only: word_le_nat_alt)
qed

lemma setup_prp_one_page:
  assumes "unat sz \<le> 4096 - unat buf mod 4096"
  shows "prp_described n sqe buf sz m"
proof -
  have "setup_prp n sqe buf sz m = Some (emits (store64 (sqe + 0x18) buf @ store64 (sqe + 0x20) 0) m)"
    using assms first_page_le(1) [of sz buf] by (simp add: setup_prp_def Let_def sqe_w64_store)
  moreover have "(0 + 4095) div 4096 = (0 :: nat)" by simp
  then have "prp_pages M buf 0 (unat sz) = buffer_pages buf (unat sz)" for M
    using assms by (simp add: prp_pages_def buffer_pages_def Let_def)
  ultimately show ?thesis by (intro prp_describedI [where as = "[]" and w = 0]) simp_all
qed

lemma setup_prp_two_pages:
  assumes "\<not> unat sz \<le> 4096 - unat buf mod 4096" "unat sz \<le> 4096 - unat buf mod 4096 + 4096"
  shows "prp_described n sqe buf sz m"
proof -
  let ?first = "4096 - unat buf mod 4096"
  have e: "(unat sz - ?first + 4095) div 4096 = 1" using assms by (intro div_nat_eqI) simp_all
  have "setup_prp n sqe buf sz m = Some (emits (store64 (sqe + 0x18) buf @ store64 (sqe + 0x20) (buf + of_nat ?first)) m)"
    using assms first_page_le [of sz buf] first_page [of buf] by (simp add: setup_prp_def Let_def sqe_w64_store)
  moreover have "prp_pages M buf (buf + of_nat ?first) (unat sz) = buffer_pages buf (unat sz)" for M
    using assms unfolding prp_pages_def buffer_pages_def Let_def e by simp
  ultimately show ?thesis by (intro prp_describedI [where as = "[]" and w = "buf + of_nat ?first"]) simp_all
qed

lemma setup_prp_chained:
  assumes "n_at n AND 0xFFF = 0" "unat (sqe - n_at n) \<le> 16320" "unat sz < 2 ^ 31" "4096 - unat buf mod 4096 + 4096 < unat sz"
  shows "if unat buf mod 4096 + unat sz \<le> 8178 * 4096 then prp_described n sqe buf sz m else setup_prp n sqe buf sz m = None"
proof -
  let ?first = "4096 - unat buf mod 4096"
  let ?N = "(unat sz - ?first + 4095) div 4096"
  have mb: "unat buf mod 4096 < 4096" by simp
  have N: "(?N \<le> 8177) = (unat buf mod 4096 + unat sz \<le> 8178 * 4096)" "?N \<le> 2 ^ 20" "0 < ?N"
    using assms(3,4) mb by (auto simp: less_eq_div_iff_mult_less_eq div_le_mono)
  note st = setup_prp_list [OF assms(4,3), of n sqe m]
  show ?thesis
  proof (cases "?N \<le> 8177")
    case False
    then have "prp_loop n (buf + of_nat ?first) (of_nat ?N) (of_nat 0) (of_nat 0) (of_nat 0) m' = None" for m'
      using N by (intro prp_loop_overrun) simp_all
    then show ?thesis using False N st by simp
  next
    case True
    have al: "prp_list n AND 0xFFF = 0"
      using page_offset [OF assms(1), of 0 4] by (simp add: prp_list_def)
    obtain as where as: "prp_loop n (buf + of_nat ?first) (of_nat ?N) (of_nat 0) (of_nat 0) (of_nat 0)
        (emits (store64 (sqe + 0x18) buf) m) = Some (emits as (emits (store64 (sqe + 0x18) buf) m))"
      "in_list n 0 0 as" "\<forall>M. holds_stores M as \<longrightarrow>
        prp_walk M (slot_at n 0 0) (?N - 0) = map (\<lambda>j. buf + of_nat ?first + of_nat j * 4096) [0..<?N]"
      using prp_loop_walk [of 0 0 0 ?N n "buf + of_nat ?first" "emits (store64 (sqe + 0x18) buf) m"] True al
      by auto
    have "setup_prp n sqe buf sz m =
        Some (emits (store64 (sqe + 0x18) buf @ as @ store64 (sqe + 0x20) (prp_list n)) m)"
      using st as(1) by simp
    moreover note list_apart [OF assms(2) _ as(2), of 24, simplified] list_apart [OF assms(2) _ as(2), of 32, simplified]
    moreover have "16384 \<le> unat (x - n_at n)" if "x \<in> touched as" for x
      by (rule list_far) (use as(2) that in \<open>simp add: in_list_def\<close>)
    moreover have "prp_pages M buf (prp_list n) (unat sz) = buffer_pages buf (unat sz)" if "holds_stores M as" for M
      using as(3) that assms(4) by (simp add: prp_pages_def buffer_pages_def Let_def slot_at_def)
    ultimately have "prp_described n sqe buf sz m"
      by (intro prp_describedI [where as = as and w = "prp_list n"]) auto
    then show ?thesis using True N by simp
  qed
qed

lemma setup_prp_bound:
  assumes "n_at n AND 0xFFF = 0" "unat (sqe - n_at n) \<le> 16320" "unat sz < 2 ^ 31"
  shows "if unat buf mod 4096 + unat sz \<le> 8178 * 4096 then prp_described n sqe buf sz m else setup_prp n sqe buf sz m = None"
proof -
  have mb: "unat buf mod 4096 < 4096" by simp
  consider (one) "unat sz \<le> 4096 - unat buf mod 4096"
    | (two) "\<not> unat sz \<le> 4096 - unat buf mod 4096" "unat sz \<le> 4096 - unat buf mod 4096 + 4096"
    | (many) "4096 - unat buf mod 4096 + 4096 < unat sz" by linarith
  then show ?thesis
  proof cases
    case one
    with mb show ?thesis using setup_prp_one_page [OF one, of n sqe m] by auto
  next
    case two
    with mb show ?thesis using setup_prp_two_pages [OF two, of n sqe m] by auto
  next
    case many
    show ?thesis by (rule setup_prp_chained [OF assms many])
  qed
qed

text \<open>C5: for a submission entry in the queue pages of a page-aligned object and a transfer of
  less than 2 GiB, \<open>setup_prp\<close> stays inside the PRP list exactly when the transfer and its
  offset in the first page are at most 8178 pages; then a controller that follows the
  specification from the two PRP fields, through chained list pages, finds exactly the pages
  of the buffer in order.\<close>

theorem setup_prp_correct:
  assumes "n_at n AND 0xFFF = 0" "unat (sqe - n_at n) \<le> 16320" "unat sz < 2 ^ 31"
  shows "if unat buf mod 4096 + unat sz \<le> 8178 * 4096
    then \<exists>as. setup_prp n sqe buf sz m = Some (emits as m) \<and>
      prp_pages (ram_of (trace m @ as)) (prp1_of (trace m @ as) sqe) (prp2_of (trace m @ as) sqe) (unat sz) =
        buffer_pages buf (unat sz)
    else setup_prp n sqe buf sz m = None"
  using setup_prp_bound [OF assms, of buf m] prp_described_trace [of n sqe buf sz m] by (simp split: if_splits)

lemma setup_prp_correct_witness:
  "(\<exists>as. setup_prp (nvme_zero 0x80000000) 0x80000000 0x90000010 0x3000 mach0 = Some (emits as mach0) \<and>
      prp_pages (ram_of as) (prp1_of as 0x80000000) (prp2_of as 0x80000000) 0x3000 =
        [0x90000010, 0x90001000, 0x90002000, 0x90003000]) \<and>
    setup_prp (nvme_zero 0x80000000) 0x80000000 0x90000010 NVME_MAX_SINGLE_TRANSFER mach0 = None"
proof
  have b: "buffer_pages 0x90000010 0x3000 = [0x90000010, 0x90001000, 0x90002000, 0x90003000]"
    by (simp add: buffer_pages_def Let_def upt_rec)
  show "\<exists>as. setup_prp (nvme_zero 0x80000000) 0x80000000 0x90000010 0x3000 mach0 = Some (emits as mach0) \<and>
      prp_pages (ram_of as) (prp1_of as 0x80000000) (prp2_of as 0x80000000) 0x3000 =
        [0x90000010, 0x90001000, 0x90002000, 0x90003000]"
    using setup_prp_correct [of "nvme_zero 0x80000000" "0x80000000" "0x3000" "0x90000010" mach0]
    by (simp add: nvme_zero_def b)
  show "setup_prp (nvme_zero 0x80000000) 0x80000000 0x90000010 NVME_MAX_SINGLE_TRANSFER mach0 = None"
    using setup_prp_correct [of "nvme_zero 0x80000000" "0x80000000" NVME_MAX_SINGLE_TRANSFER "0x90000010" mach0]
    by (simp add: nvme_zero_def NVME_MAX_SINGLE_TRANSFER_def NVME_PAGE_SIZE_def)
qed

section \<open>Batched transfers\<close>

text \<open>The commands a transfer is made of: how many blocks each moves.\<close>

definition batches :: "nat \<Rightarrow> nat list" where
  "batches k = replicate (k div 65424) 65424 @ (if k mod 65424 = 0 then [] else [k mod 65424])"

lemma sum_batches: "sum_list (batches k) = k"
  using div_mult_mod_eq [of k 65424]
  by (cases "k mod 65424 = 0") (simp_all add: batches_def sum_list_replicate del: div_mult_mod_eq)

lemma batches_0 [simp]: "batches 0 = []"
  by (simp add: batches_def)

lemma batches_step: "0 < k \<Longrightarrow> batches k = (if k \<le> 65424 then [k] else 65424 # batches (k - 65424))"
proof -
  assume k: "0 < k"
  consider "k < 65424" | "k = 65424" | "65424 < k" by linarith
  then show ?thesis
  proof cases
    case 3
    then have "k div 65424 = Suc ((k - 65424) div 65424)" "k mod 65424 = (k - 65424) mod 65424"
      by (simp_all add: le_div_geq le_mod_geq)
    with 3 show ?thesis by (simp add: batches_def)
  qed (use k in \<open>simp_all add: batches_def\<close>)
qed

text \<open>Commands for consecutive block ranges, in order, until one fails; the result is the number
  of blocks of the commands that succeeded and the status of the one that did not.\<close>

fun run_batches ::
  "env \<Rightarrow> u8 \<Rightarrow> u64 \<Rightarrow> u64 \<Rightarrow> nat \<Rightarrow> nat list \<Rightarrow> nvme \<times> mach \<Rightarrow> (nat \<times> u32 \<times> nvme \<times> mach) option" where
  "run_batches E opc lba buf k [] (n, m) = Some (k, 0, n, m)"
| "run_batches E opc lba buf k (b # bs) (n, m) = do {
     (st, n, m) \<leftarrow> io_cmd E n opc (lba + of_nat k) (buf + of_nat (512 * k)) (of_nat (512 * b)) (of_nat b) m;
     if st \<noteq> 0 then Some (k, st, n, m) else run_batches E opc lba buf (k + b) bs (n, m) }"

lemma next_batch_eq:
  assumes "k < unat nlb"
  shows "unat (next_batch nlb (of_nat k)) = (if unat nlb - k \<le> 65424 then unat nlb - k else 65424)"
proof -
  have k: "unat (of_nat k :: u32) = k" using assms unat_u32_less [of nlb] by (simp add: unat_of_nat_small)
  then have "unat (nlb - of_nat k) = unat nlb - k"
    using assms by (subst unat_sub_no_wrap) (simp_all add: word_le_nat_alt)
  then show ?thesis
    by (simp add: next_batch_def Let_def word_less_nat_alt NVME_MAX_LBAS_PER_CMD_def
        NVME_MAX_SINGLE_TRANSFER_def NVME_PAGE_SIZE_def NVME_LBA_SIZE_def)
qed

text \<open>One round of either loop: the size of its command, and the arguments as naturals.\<close>

lemma round_facts:
  assumes "k < unat nlb"
  obtains b where "0 < b" "k + b \<le> unat nlb" "next_batch nlb (of_nat k) = of_nat b"
    "batches (unat nlb - k) = b # batches (unat nlb - (k + b))"
    "(of_nat k :: u32) < nlb" "(ucast (of_nat k :: u32) :: u64) = of_nat k"
    "of_nat k * ucast NVME_LBA_SIZE = (of_nat (512 * k) :: u64)"
    "of_nat b * NVME_LBA_SIZE = (of_nat (512 * b) :: u32)" "of_nat k + of_nat b = (of_nat (k + b) :: u32)"
proof -
  have k: "unat (of_nat k :: u32) = k" using assms unat_u32_less [of nlb] by (simp add: unat_of_nat_small)
  define b where "b = (if unat nlb - k \<le> 65424 then unat nlb - k else 65424)"
  show ?thesis
  proof (rule that [of b])
    show "next_batch nlb (of_nat k) = of_nat b"
      using next_batch_eq [OF assms] by (intro word_of_unat) (simp add: b_def)
    show "batches (unat nlb - k) = b # batches (unat nlb - (k + b))"
      using batches_step [of "unat nlb - k"] assms by (auto simp: b_def)
  qed (use assms k in \<open>auto simp: b_def word_less_nat_alt ucast_eq_of_nat NVME_LBA_SIZE_def mult.commute\<close>)
qed

lemma nvme_write_loop_batches:
  assumes "k \<le> unat nlb"
  shows "nvme_write_loop E lba buf nlb (of_nat k, n, m) = do {
    (k, st, n, m) \<leftarrow> run_batches E IO_WRITE lba buf k (batches (unat nlb - k)) (n, m);
    Some (of_nat k, n, m) }"
  using assms
proof (induction "unat nlb - k" arbitrary: k n m rule: less_induct)
  case less
  show ?case
  proof (cases "k = unat nlb")
    case True
    then show ?thesis by (subst nvme_write_loop.simps) simp
  next
    case False
    then have "k < unat nlb" using less.prems by simp
    then obtain b where r: "0 < b" "k + b \<le> unat nlb" "next_batch nlb (of_nat k) = of_nat b"
      "batches (unat nlb - k) = b # batches (unat nlb - (k + b))"
      "(of_nat k :: u32) < nlb" "(ucast (of_nat k :: u32) :: u64) = of_nat k"
      "of_nat k * ucast NVME_LBA_SIZE = (of_nat (512 * k) :: u64)"
      "of_nat b * NVME_LBA_SIZE = (of_nat (512 * b) :: u32)" "of_nat k + of_nat b = (of_nat (k + b) :: u32)"
      by (rule round_facts)
    have ih: "nvme_write_loop E lba buf nlb (of_nat (k + b), n', m') = do {
        (k, st, n, m) \<leftarrow> run_batches E IO_WRITE lba buf (k + b) (batches (unat nlb - (k + b))) (n', m');
        Some (of_nat k, n, m) }" for n' m'
      by (rule less.hyps) (use r in simp_all)
    show ?thesis
      by (subst nvme_write_loop.simps)
         (auto simp: r ih Let_def intro!: Option.bind_cong split: prod.splits simp del: of_nat_add of_nat_mult)
  qed
qed

lemma nvme_read_loop_batches:
  assumes "k \<le> unat nlb"
  shows "nvme_read_loop E ub lba buf nlb (of_nat k, n, m) = do {
    (k, st, n, m) \<leftarrow> run_batches E IO_READ lba buf k (batches (unat nlb - k)) (n, m);
    m \<leftarrow> (if st = 0 then Some m
         else uart_printf E ub (''nvme: read failed at lba=%u nlb=%u status=%x (%u of %u LBAs done)'' @ [CHR 0x0A])
           [VWord (lba + of_nat k), VWord (ucast (next_batch nlb (of_nat k))), VWord (ucast st), VWord (of_nat k),
            VWord (ucast nlb)] m);
    Some (of_nat k, n, m) }"
  using assms
proof (induction "unat nlb - k" arbitrary: k n m rule: less_induct)
  case less
  show ?case
  proof (cases "k = unat nlb")
    case True
    then show ?thesis by (subst nvme_read_loop.simps) simp
  next
    case False
    then have "k < unat nlb" using less.prems by simp
    then obtain b where r: "0 < b" "k + b \<le> unat nlb" "next_batch nlb (of_nat k) = of_nat b"
      "batches (unat nlb - k) = b # batches (unat nlb - (k + b))"
      "(of_nat k :: u32) < nlb" "(ucast (of_nat k :: u32) :: u64) = of_nat k"
      "of_nat k * ucast NVME_LBA_SIZE = (of_nat (512 * k) :: u64)"
      "of_nat b * NVME_LBA_SIZE = (of_nat (512 * b) :: u32)" "of_nat k + of_nat b = (of_nat (k + b) :: u32)"
      by (rule round_facts)
    have "unat nlb - (k + b) < unat nlb - k" using r(1,2) by simp
    note ih = less.hyps [OF this r(2)]
    show ?thesis
      by (subst nvme_read_loop.simps)
         (auto simp: r ih Let_def intro!: Option.bind_cong split: prod.splits simp del: of_nat_add of_nat_mult)
  qed
qed

section \<open>Commands as the controller reads them\<close>

text \<open>A read or write command, from the submission entry at \<open>sqe\<close> in memory.\<close>

record nvme_rw =
  r_opcode :: u8
  r_flags :: u8
  r_nsid :: u32
  r_lba :: u64
  r_blocks :: nat
  r_control :: u32
  r_pages :: "u64 list"

definition fetched :: "mem \<Rightarrow> u64 \<Rightarrow> nvme_rw" where
  "fetched M sqe =
     (let w12 = read32 M (sqe + 0x30); blocks = unat (w12 AND 0xFFFF) + 1 in
      \<lparr>r_opcode = M sqe, r_flags = M (sqe + 1), r_nsid = read32 M (sqe + 4), r_lba = read64 M (sqe + 0x28),
       r_blocks = blocks, r_control = drop_bit 16 w12,
       r_pages = prp_pages M (read64 M (sqe + 0x18)) (read64 M (sqe + 0x20)) (512 * blocks)\<rparr>)"

text \<open>The writes of a doorbell, each with the history the controller then finds.\<close>

fun rings :: "u64 \<Rightarrow> history \<Rightarrow> history \<Rightarrow> (history \<times> u32) list" where
  "rings d h [] = []"
| "rings d h (x # xs) =
     (case x of Wr32 a v \<Rightarrow> if a = d then [(h, v)] else [] | _ \<Rightarrow> []) @ rings d (h @ [x]) xs"

text \<open>On each doorbell the controller fetches the entries from its own position \<open>t\<close> up to the
  new tail.\<close>

fun fetches :: "u64 \<Rightarrow> nat \<Rightarrow> nat \<Rightarrow> (history \<times> u32) list \<Rightarrow> nvme_rw list" where
  "fetches q depth t [] = []"
| "fetches q depth t ((h, v) # rs) =
     map (\<lambda>i. fetched (ram_of h) (q + of_nat ((t + i) mod depth) * 64)) [0..<(unat v + depth - t) mod depth] @
     fetches q depth (unat v) rs"

definition issued :: "nvme \<Rightarrow> mach \<Rightarrow> mach \<Rightarrow> nvme_rw list" where
  "issued n m m' = fetches (iosq_buf n) (unat (ioq_entries n)) (unat (iosq_tail n))
     (rings (bar0 n + 0x1008) (trace m) (drop (length (trace m)) (trace m')))"

text \<open>The commands of a transfer in batches: consecutive blocks from \<open>lba\<close> on namespace 1, to the
  pages of consecutive parts of the buffer.\<close>

fun transfer_cmds :: "u8 \<Rightarrow> u64 \<Rightarrow> u64 \<Rightarrow> nat \<Rightarrow> nat list \<Rightarrow> nvme_rw list" where
  "transfer_cmds opc lba buf k [] = []"
| "transfer_cmds opc lba buf k (b # bs) =
     \<lparr>r_opcode = opc, r_flags = 0, r_nsid = 1, r_lba = lba + of_nat k, r_blocks = b, r_control = 0,
      r_pages = buffer_pages (buf + of_nat (512 * k)) (512 * b)\<rparr> # transfer_cmds opc lba buf (k + b) bs"

lemma rings_append: "rings d h (xs @ ys) = rings d h xs @ rings d (h @ xs) ys"
  by (induction xs arbitrary: h) auto

lemma rings_no_w32: "(\<And>a v. Wr32 a v \<in> set xs \<Longrightarrow> a \<noteq> d) \<Longrightarrow> rings d h xs = []"
  by (induction xs arbitrary: h) (auto split: access.splits)

definition store32 :: "u64 \<Rightarrow> u32 \<Rightarrow> history" where
  "store32 a v = [Wr8 a (ucast v), Wr8 (a + 1) (ucast (drop_bit 8 v)), Wr8 (a + 2) (ucast (drop_bit 16 v)),
     Wr8 (a + 3) (ucast (drop_bit 24 v))]"

lemma touched_store32: "touched (store32 a v) = {a, a + 1, a + 2, a + 3}"
  by (simp add: store32_def)

lemma store32_at:
  "ram_of (store32 a v) a = ucast v" "ram_of (store32 a v) (a + 1) = ucast (drop_bit 8 v)"
  "ram_of (store32 a v) (a + 2) = ucast (drop_bit 16 v)" "ram_of (store32 a v) (a + 3) = ucast (drop_bit 24 v)"
  by (simp_all add: store32_def ram_of_def)

lemma read32_store32:
  assumes "\<And>x. x \<in> touched (store32 a v) \<Longrightarrow> M x = ram_of (store32 a v) x"
  shows "read32 M a = v"
  using be32_roundtrip [of v] by (simp add: read32_def assms touched_store32 store32_at)

lemma read32_after:
  assumes "touched (store32 a v) \<inter> touched k = {}"
  shows "read32 (ram_of (h @ store32 a v @ k)) a = v" "read32 (ram_of ((h @ store32 a v) @ k)) a = v"
  by (rule read32_store32; use assms in \<open>auto simp: ram_of_append\<close>)+

lemma sqe_w32_store: "sqe_w32 sqe off v m = emits (store32 (sqe + ucast off) v) m" if "unat off < 64"
proof -
  have "(ucast (off + c) :: u64) = ucast off + ucast c" if "unat c < 4" for c :: u32
  proof -
    have "unat (off + c) = unat off + unat c"
      by (rule unat_add_no_wrap) (use that \<open>unat off < 64\<close> in simp)
    then show ?thesis by (simp only: ucast_eq_of_nat of_nat_add)
  qed
  from this [of 1] this [of 2] this [of 3] show ?thesis
    by (simp add: sqe_w32_def store32_def add.assoc)
qed

text \<open>The fields that \<open>setup_prp\<close> leaves alone.\<close>

lemma outside_prp_area:
  assumes "unat (sqe - n_at n) \<le> 16320" "c < 0x18 \<or> 0x28 \<le> c \<and> c < 64"
  shows "sqe + of_nat c \<notin> prp_area n sqe"
proof -
  have u: "unat (of_nat c :: u64) = c" using assms(2) by (intro unat_of_nat_small) auto
  have "unat (sqe + of_nat c - n_at n) = unat ((sqe - n_at n) + of_nat c)" by (simp add: algebra_simps)
  also have "\<dots> = unat (sqe - n_at n) + c"
    using assms u by (subst unat_add_no_wrap) auto
  finally have near: "unat (sqe + of_nat c - n_at n) < 16384" using assms by auto
  have far: "\<not> unat (sqe + of_nat c - (sqe + of_nat k)) < 8" if "k = 0x18 \<or> k = 0x20" for k :: nat
  proof
    assume l: "unat (sqe + of_nat c - (sqe + of_nat k)) < 8"
    define d where "d = (of_nat c - of_nat k :: u64)"
    have d: "unat d < 8" using l by (simp add: d_def)
    have "of_nat c = d + of_nat k" by (simp add: d_def)
    then have "c = unat (d + of_nat k)" using u by metis
    also have "\<dots> = unat d + k" using d that by (subst unat_add_no_wrap) auto
    finally show False using d assms(2) that by auto
  qed
  show ?thesis using near far [of 24] far [of 32] by (simp add: prp_area_def)
qed

text \<open>What an entry with the stores of \<open>io_cmd\<close> behind it reads as.\<close>

lemma fetched_io_cmd:
  fixes as h0 :: history and sqe lba :: u64 and opc c0 c1 :: u8
  assumes z: "ram_of h0 (sqe + 1) = 0" and b: "1 \<le> b" "b \<le> 65424"
    and area: "touched as \<subseteq> prp_area n sqe" and near: "unat (sqe - n_at n) \<le> 16320"
    and pages: "\<And>M. holds_stores M as \<Longrightarrow>
       prp_pages M (read64 M (sqe + 0x18)) (read64 M (sqe + 0x20)) (512 * b) = pgs"
    and h: "h = h0 @ [Wr8 sqe opc, Wr8 (sqe + 2) c0, Wr8 (sqe + 3) c1] @ store32 (sqe + 4) 1 @ as @
      store32 (sqe + 0x28) (ucast lba) @ store32 (sqe + 0x2C) (ucast (drop_bit 32 lba)) @
      store32 (sqe + 0x30) (of_nat b - 1) @ [Fence]"
  shows "fetched (ram_of h) sqe = \<lparr>r_opcode = opc, r_flags = 0, r_nsid = 1, r_lba = lba, r_blocks = b,
    r_control = 0, r_pages = pgs\<rparr>"
proof -
  have off: "sqe + of_nat c \<notin> touched as" if "c < 0x18 \<or> 0x28 \<le> c \<and> c < 64" for c
    using outside_prp_area [OF near that] area by blast
  have off': "sqe \<notin> touched as" "sqe + 1 \<notin> touched as" "sqe + 4 \<notin> touched as" "sqe + 5 \<notin> touched as"
    "sqe + 6 \<notin> touched as" "sqe + 7 \<notin> touched as"
    using off [of 0] off [of 1] off [of 4] off [of 5] off [of 6] off [of 7] by simp_all
  define cs where "cs = [Wr8 sqe opc, Wr8 (sqe + 2) c0, Wr8 (sqe + 3) c1]"
  have cs: "ram_of cs sqe = opc" "touched cs = {sqe, sqe + 2, sqe + 3}"
    by (simp_all add: cs_def ram_of_def)
  note h = h [folded cs_def]
  have opc: "ram_of h sqe = opc" "ram_of h (sqe + 1) = 0"
    using off' z cs by (simp_all add: h ram_of_append touched_store32)
  let ?lo = "store32 (sqe + 0x28) (ucast lba)" and ?hi = "store32 (sqe + 0x2C) (ucast (drop_bit 32 lba))"
    and ?cnt = "store32 (sqe + 0x30) (of_nat b - 1)"
  have split: "h = (h0 @ cs) @ store32 (sqe + 4) 1 @ (as @ ?lo @ ?hi @ ?cnt @ [Fence])"
    "h = (h0 @ cs @ store32 (sqe + 4) 1 @ as) @ ?lo @ (?hi @ ?cnt @ [Fence])"
    "h = (h0 @ cs @ store32 (sqe + 4) 1 @ as @ ?lo) @ ?hi @ (?cnt @ [Fence])"
    "h = (h0 @ cs @ store32 (sqe + 4) 1 @ as @ ?lo @ ?hi) @ ?cnt @ [Fence]"
    by (simp_all add: h)
  have nsid: "read32 (ram_of h) (sqe + 4) = 1"
    by (subst split(1), rule read32_after(1)) (use off' in \<open>simp add: touched_store32 add.assoc\<close>)
  have lo: "read32 (ram_of h) (sqe + 0x28) = ucast lba"
    by (subst split(2), rule read32_after(1)) (simp add: touched_store32)
  have hi: "read32 (ram_of h) (sqe + 0x2C) = ucast (drop_bit 32 lba)"
    by (subst split(3), rule read32_after(1)) (simp add: touched_store32)
  have w12: "read32 (ram_of h) (sqe + 0x30) = of_nat b - 1"
    by (subst split(4), rule read32_after(1)) simp
  have lba: "read64 (ram_of h) (sqe + 0x28) = lba"
    using lo hi join_halves [of _ lba] by (simp add: read64_def add.assoc)
  have ub: "unat (of_nat b - 1 :: u32) = b - 1"
    using b by (subst unat_sub_no_wrap) (simp_all add: unat_of_nat_small word_le_nat_alt)
  have "unat ((of_nat b - 1 :: u32) AND mask 16) = (b - 1) mod 65536" unfolding unat_and_mask ub by simp
  then have blocks: "unat ((of_nat b - 1 :: u32) AND 0xFFFF) + 1 = b"
    using b by (simp add: mask_eq_exp_minus_1)
  have "unat (drop_bit 16 (of_nat b - 1 :: u32)) = 0"
    unfolding unat_drop_bit_eq ub using b by (simp add: drop_bit_eq_div)
  then have ctl: "drop_bit 16 (of_nat b - 1 :: u32) = 0" by (simp add: unat_eq_0)
  have "holds_stores (ram_of h) as" unfolding holds_stores_def
  proof
    fix x assume x: "x \<in> touched as"
    have "x \<noteq> sqe + of_nat c" if "0x28 \<le> c \<and> c < 64" for c
      using off [of c] that x by blast
    from this [of 40] this [of 41] this [of 42] this [of 43] this [of 44] this [of 45] this [of 46]
      this [of 47] this [of 48] this [of 49] this [of 50] this [of 51]
    show "ram_of h x = ram_of as x" using x by (simp add: h ram_of_append touched_store32 add.assoc)
  qed
  from pages [OF this] show ?thesis
    unfolding fetched_def Let_def opc nsid lba w12 blocks ctl by simp
qed

text \<open>Waiting for the completion rings the submission doorbell once.\<close>

lemma poll_cqe_emits:
  "\<exists>as. snd (poll_cqe E cqe ph k m) = emits as m \<and> (\<forall>a v. Wr32 a v \<notin> set as)"
proof (induction k arbitrary: m)
  case (Suc k)
  define as0 where "as0 = [Rd8 (cqe + 0xC), Rd8 (cqe + 0xC + 1), Rd8 (cqe + 0xC + 2), Rd8 (cqe + 0xC + 3)]"
  obtain v where r: "cqe_r32 E cqe CQE_CID_PB_SF m = (v, emits as0 m)"
    by (simp add: cqe_r32_def CQE_CID_PB_SF_def as0_def emit_emits Let_def)
  obtain as where "snd (poll_cqe E cqe ph k (emits as0 m)) = emits as (emits as0 m)" "\<forall>a v. Wr32 a v \<notin> set as"
    using Suc.IH by blast
  moreover have "\<forall>a v. Wr32 a v \<notin> set as0" by (simp add: as0_def)
  ultimately show ?case
    by (cases "(v AND CQE_PB_MASK \<noteq> 0) = ph") (auto simp: r Let_def)
qed (auto intro!: exI [of _ "[]"])

lemma submit_rings:
  assumes "submit_and_wait E n IO_QID cq t hp ph depth m = (st, t', hp', ph', m')"
  shows "t' = next_slot t depth \<and> (\<exists>as. m' = emits as m \<and>
    rings (bar0 n + 0x1008) h as = [(h @ [Fence], ucast t')])"
proof -
  let ?d = "bar0 n + 0x1008"
  let ?m1 = "emits [Fence, Wr32 ?d (ucast (next_slot t depth))] m"
  have w: "nvme_w32 n (db_sq_tail IO_QID) (ucast (next_slot t depth)) (mmio_barrier m) = ?m1"
    by (simp add: nvme_w32_def db_sq_tail_def NVME_REG_DOORBELL_BASE_def IO_QID_def emit_emits)
  obtain r m2 where p: "poll_cqe E (cq + ucast hp * 16) ph CQE_POLLS ?m1 = (r, m2)" by fastforce
  obtain bs where bs: "m2 = emits bs ?m1" "\<forall>a v. Wr32 a v \<notin> set bs"
    using poll_cqe_emits [of E "cq + ucast hp * 16" ph CQE_POLLS ?m1] p by auto
  have r0: "rings ?d h' bs = []" for h' by (rule rings_no_w32) (use bs(2) in blast)
  note a = assms [unfolded submit_and_wait_def Let_def w p prod.case]
  show ?thesis
  proof (cases r)
    case None
    then have "t' = next_slot t depth" "m' = emits ([Fence, Wr32 ?d (ucast (next_slot t depth))] @ bs) m"
      using a bs(1) by auto
    then show ?thesis using r0 by (auto intro!: exI [of _ "[Fence, Wr32 ?d (ucast (next_slot t depth))] @ bs"])
  next
    case (Some v)
    obtain hv where "t' = next_slot t depth"
      "m' = emits ([Fence, Wr32 ?d (ucast (next_slot t depth))] @ bs @ [Fence, Wr32 (bar0 n + 0x100C) hv]) m"
      using a bs(1) Some
      by (auto simp: nvme_w32_def db_cq_head_def NVME_REG_DOORBELL_BASE_def IO_QID_def emit_emits)
    then show ?thesis using r0
      by (auto simp: rings_append
        intro!: exI [of _ "[Fence, Wr32 ?d (ucast (next_slot t depth))] @ bs @ [Fence, Wr32 (bar0 n + 0x100C) hv]"])
  qed
qed

text \<open>The PRP entries are written byte by byte.\<close>

definition bytes_only :: "history \<Rightarrow> bool" where
  "bytes_only as \<longleftrightarrow> list_all (\<lambda>x. case x of Wr8 a v \<Rightarrow> True | _ \<Rightarrow> False) as"

lemma bytes_only_simps [simp]:
  "bytes_only []" "bytes_only (xs @ ys) \<longleftrightarrow> bytes_only xs \<and> bytes_only ys" "bytes_only (Wr8 a v # xs) = bytes_only xs"
  "bytes_only (store64 b w)" "bytes_only (store32 b w32)" "bytes_only (map (\<lambda>i. Wr8 (f i) (g i)) ks)"
  by (auto simp: bytes_only_def store64_def store32_def list_all_iff)

lemma rings_bytes_only: "bytes_only as \<Longrightarrow> rings d h as = []"
  by (rule rings_no_w32) (auto simp: bytes_only_def list_all_iff)

lemma prp_loop_bytes:
  "prp_loop n lb needed p s i m = Some m' \<Longrightarrow> \<exists>as. m' = emits as m \<and> bytes_only as"
proof (induction n lb needed p s i m arbitrary: m' rule: prp_loop.induct)
  case (1 n lb needed p s i m)
  define off where "off = p * NVME_PAGE_SIZE + s * 8"
  have step: "\<exists>as. m' = emits as m \<and> bytes_only as"
    if st: "prp_list_w64 n off v m \<bind> f = Some m'"
      and rest: "\<And>m1. prp_list_w64 n off v m = Some m1 \<Longrightarrow> f m1 = Some m' \<Longrightarrow> \<exists>as. m' = emits as m1 \<and> bytes_only as" for v f
  proof -
    obtain m1 where m1: "prp_list_w64 n off v m = Some m1" "f m1 = Some m'"
      using st by (auto simp: bind_eq_Some_conv)
    then have e: "m1 = emits (store64 (prp_list n + ucast off) v) m" by (auto simp: prp_list_w64_store split: if_splits)
    obtain as where "m' = emits as m1" "bytes_only as" using rest [OF m1] by blast
    then show ?thesis unfolding e by (intro exI [of _ "store64 (prp_list n + ucast off) v @ as"]) simp
  qed
  show ?case
  proof (cases "i < needed")
    case False
    then show ?thesis using "1.prems" by (subst (asm) prp_loop.simps) (auto intro!: exI [of _ "[]"])
  next
    case lt: True
    show ?thesis
    proof (cases "s = ENTRIES_PER_LIST_PAGE - 1 \<and> i + 1 < needed")
      case True
      have "prp_loop n lb needed p s i m = prp_list_w64 n off (prp_list n + ucast ((p + 1) * NVME_PAGE_SIZE)) m
          \<bind> (\<lambda>m1. prp_loop n lb needed (p + 1) 0 i m1)"
        using lt True by (subst prp_loop.simps) (simp add: off_def Let_def)
      then show ?thesis
        using step [of "prp_list n + ucast ((p + 1) * NVME_PAGE_SIZE)"
            "\<lambda>m1. prp_loop n lb needed (p + 1) 0 i m1"] "1.prems"
          "1.IH"(1) [OF lt off_def refl refl True]
        by simp
    next
      case False
      have "prp_loop n lb needed p s i m = prp_list_w64 n off (lb + ucast i * ucast NVME_PAGE_SIZE) m
          \<bind> (\<lambda>m1. prp_loop n lb needed p (s + 1) (i + 1) m1)"
        by (subst prp_loop.simps) (simp only: off_def Let_def lt if_True if_not_P [OF False])
      then show ?thesis
        using step [of "lb + ucast i * ucast NVME_PAGE_SIZE" "\<lambda>m1. prp_loop n lb needed p (s + 1) (i + 1) m1"]
          "1.prems" "1.IH"(2) [OF lt off_def refl refl False]
        by simp
    qed
  qed
qed

lemma setup_prp_bytes: "setup_prp n sqe buf sz m = Some (emits as m) \<Longrightarrow> bytes_only as"
proof -
  assume s: "setup_prp n sqe buf sz m = Some (emits as m)"
  have ends: "\<exists>cs. emits as m = emits cs m \<and> bytes_only cs"
    if "emits as m = emits (store64 b v) (emits ds (emits (store64 c w) m))" "bytes_only ds" for b v c w ds
    using that by (intro exI [of _ "store64 c w @ ds @ store64 b v"]) simp
  have "(\<exists>v. emits (store64 (sqe + 0x18) buf @ store64 (sqe + 0x20) v) m = emits as m) \<or>
    (\<exists>lb needed m1 v. prp_loop n lb needed 0 0 0 (emits (store64 (sqe + 0x18) buf) m) = Some m1 \<and>
      emits (store64 (sqe + 0x20) v) m1 = emits as m)"
    using s unfolding setup_prp_def Let_def sqe_w64_store
    by (simp only: bind_eq_Some_conv option.inject emits_simps(6) split: if_splits) blast+
  then consider (one) v where "emits as m = emits (store64 (sqe + 0x18) buf @ store64 (sqe + 0x20) v) m"
    | (loop) lb needed m1 v where "prp_loop n lb needed 0 0 0 (emits (store64 (sqe + 0x18) buf) m) = Some m1"
      "emits as m = emits (store64 (sqe + 0x20) v) m1"
    by metis
  then have "\<exists>cs. emits as m = emits cs m \<and> bytes_only cs"
  proof cases
    case (one v)
    then show ?thesis by (intro exI [of _ "store64 (sqe + 0x18) buf @ store64 (sqe + 0x20) v"]) simp
  next
    case (loop lb needed m1 v)
    then show ?thesis using prp_loop_bytes ends by metis
  qed
  then show ?thesis by (metis emits_simps(1) same_append_eq)
qed

definition io_ready :: "nvme \<Rightarrow> bool" where
  "io_ready n \<longleftrightarrow> n_at n AND 0xFFF = 0 \<and> ioq_entries n = 64 \<and> iosq_tail n < 64"

definition in_one_list :: "u64 \<Rightarrow> nat \<Rightarrow> bool" where
  "in_one_list buf b \<longleftrightarrow> unat buf mod 4096 + 512 * b \<le> 8178 * 4096"

lemma io_cmd_issued:
  assumes n: "io_ready n" and b: "1 \<le> b" "b \<le> 65424" and fit: "in_one_list buf b"
  obtains st n' m' where "io_cmd E n opc lba buf (of_nat (512 * b)) (of_nat b) m = Some (st, n', m')"
    "io_ready n'" "n_at n' = n_at n" "bar0 n' = bar0 n"
    "unat (iosq_tail n') = (unat (iosq_tail n) + 1) mod 64"
    "\<exists>as h. trace m' = trace m @ as \<and> rings (bar0 n + 0x1008) (trace m) as = [(h, ucast (iosq_tail n'))] \<and>
       fetched (ram_of h) (iosq_buf n + ucast (iosq_tail n) * 64) =
         \<lparr>r_opcode = opc, r_flags = 0, r_nsid = 1, r_lba = lba, r_blocks = b, r_control = 0,
          r_pages = buffer_pages buf (512 * b)\<rparr>"
proof -
  define sqe where "sqe = iosq_buf n + ucast (iosq_tail n) * 64"
  have t: "unat (iosq_tail n) < 64" using n by (simp add: io_ready_def word_less_nat_alt)
  have u: "unat (ucast (iosq_tail n) * 64 :: u64) = unat (iosq_tail n) * 64"
    using t by (subst unat_mult_no_wrap) (simp_all add: unat_ucast_up)
  have "unat (sqe - n_at n) = unat (8192 + ucast (iosq_tail n) * 64 :: u64)"
    by (simp add: iosq_buf_def sqe_def)
  also have "\<dots> = 8192 + unat (iosq_tail n) * 64"
    using t by (subst unat_add_no_wrap) (simp_all add: u)
  finally have near: "unat (sqe - n_at n) \<le> 16320" using t by simp
  have sz: "unat (of_nat (512 * b) :: u32) = 512 * b" by (rule unat_of_nat_small) (use b in simp)
  have sz0: "(of_nat (512 * b) :: u32) \<noteq> 0" using sz b by (metis mult_eq_0_iff not_one_le_zero unat_0 zero_neq_numeral)
  have ub: "unat (of_nat b :: u32) = b" by (rule unat_of_nat_small) (use b in simp)
  have b0: "(of_nat b :: u32) \<noteq> 0" using ub b by (metis not_one_le_zero unat_0)
  define n1 where "n1 = n\<lparr>cmd_id := cmd_id n + 1\<rparr>"
  define c0 c1 :: u8 where "c0 = ucast (cmd_id n)" and "c1 = ucast (drop_bit 8 (cmd_id n))"
  define z where "z = map (\<lambda>i. Wr8 (sqe + of_nat i) 0) [0..<64]"
  define m1 where "m1 = emits (z @ [Wr8 sqe opc, Wr8 (sqe + 2) c0, Wr8 (sqe + 3) c1] @ store32 (sqe + 4) 1) m"
  have head: "sqe_w32 sqe SQE_NSID NVME_NSID (sqe_w16 sqe SQE_CID (cmd_id n) (sqe_w8 sqe SQE_CDW0 opc (sqe_zero sqe m))) = m1"
    by (simp add: sqe_w32_store sqe_fields sqe_w16_def sqe_w8_def sqe_zero_def NVME_NSID_def m1_def z_def c0_def c1_def emit_emits)
  have "prp_described n1 sqe buf (of_nat (512 * b)) m1"
    using setup_prp_bound [of n1 sqe "of_nat (512 * b)" buf m1] n near b fit
    by (simp add: io_ready_def n1_def sz in_one_list_def del: of_nat_mult)
  then obtain as where as: "setup_prp n1 sqe buf (of_nat (512 * b)) m1 = Some (emits as m1)"
    "touched as \<subseteq> prp_area n1 sqe" "\<And>M. holds_stores M as \<Longrightarrow>
       prp_pages M (read64 M (sqe + 0x18)) (read64 M (sqe + 0x20)) (512 * b) = buffer_pages buf (512 * b)"
    unfolding prp_described_def sz by blast
  define tl where "tl = store32 (sqe + 0x28) (ucast lba) @ store32 (sqe + 0x2C) (ucast (drop_bit 32 lba)) @
      store32 (sqe + 0x30) (of_nat b - 1)"
  have tail: "sqe_w32 sqe SQE_CDW12 (if (of_nat b :: u32) \<noteq> 0 then of_nat b - 1 else 0)
      (sqe_w32 sqe SQE_CDW11 (ucast (drop_bit 32 lba)) (sqe_w32 sqe SQE_CDW10 (ucast lba) (emits as m1))) = emits (as @ tl) m1"
    using b0 by (simp add: sqe_w32_store sqe_fields tl_def)
  obtain st t' hp' ph' m' where sub: "submit_and_wait E n1 IO_QID (iocq_buf n1) (iosq_tail n1) (iocq_head n1)
      (iocq_phase n1) (ioq_entries n1) (emits (as @ tl) m1) = (st, t', hp', ph', m')"
    by (metis prod_cases5)
  let ?pre = "z @ [Wr8 sqe opc, Wr8 (sqe + 2) c0, Wr8 (sqe + 3) c1] @ store32 (sqe + 4) 1 @ as @ tl"
  obtain rs where rs: "t' = next_slot (iosq_tail n) 64" "m' = emits rs (emits (as @ tl) m1)"
    "rings (bar0 n + 0x1008) (trace m @ ?pre) rs = [((trace m @ ?pre) @ [Fence], ucast t')]"
    using submit_rings [OF sub, of "trace m @ ?pre"] n by (auto simp: n1_def io_ready_def)
  have "io_cmd E n opc lba buf (of_nat (512 * b)) (of_nat b) m =
      Some (st, n1\<lparr>iosq_tail := t', iocq_head := hp', iocq_phase := ph'\<rparr>, m')"
    using head as(1) tail sub sz0
    by (simp add: io_cmd_def Let_def sqe_def [symmetric] n1_def [symmetric] del: of_nat_mult)
  moreover have t'v: "unat t' = (unat (iosq_tail n) + 1) mod 64"
    unfolding rs(1) next_slot_def using t by (subst unat_of_nat_small) simp_all
  moreover have "t' < 64" unfolding word_less_nat_alt t'v by simp
  moreover have "trace m' = trace m @ (?pre @ rs)" using rs(2) by (simp add: m1_def)
  moreover have nw: "rings (bar0 n + 0x1008) (trace m) ?pre = []"
    using setup_prp_bytes [OF as(1)] by (intro rings_bytes_only) (simp add: z_def tl_def)
  moreover have "fetched (ram_of ((trace m @ ?pre) @ [Fence])) sqe =
      \<lparr>r_opcode = opc, r_flags = 0, r_nsid = 1, r_lba = lba, r_blocks = b, r_control = 0,
          r_pages = buffer_pages buf (512 * b)\<rparr>"
  proof (rule fetched_io_cmd [OF _ b as(2) _ as(3)])
    have "sqe + 1 \<in> touched z" unfolding z_def touched_copy by (rule image_eqI [of _ _ 1]) simp_all
    then show "ram_of (trace m @ z) (sqe + 1) = 0"
      using ram_of_copy [of 1 64 sqe "\<lambda>_. 0"] by (simp add: ram_of_append z_def)
  qed (use near in \<open>simp_all add: n1_def tl_def\<close>)
  moreover have "rings (bar0 n + 0x1008) (trace m) (?pre @ rs) = [((trace m @ ?pre) @ [Fence], ucast t')]"
    using nw rs(3) by (simp only: rings_append append_Nil)
  ultimately show ?thesis using n
    by (intro that [of st "n1\<lparr>iosq_tail := t', iocq_head := hp', iocq_phase := ph'\<rparr>" m'])
      (auto simp: io_ready_def n1_def sqe_def intro!: exI [of _ "?pre @ rs"])
qed

fun fits :: "u64 \<Rightarrow> nat \<Rightarrow> nat list \<Rightarrow> bool" where
  "fits buf k [] = True"
| "fits buf k (b # bs) = (in_one_list (buf + of_nat (512 * k)) b \<and> fits buf (k + b) bs)"

lemma fits_aligned:
  assumes "unat buf mod 4096 = 0" "8 dvd k"
  shows "fits buf k (batches N)"
  using assms(2)
proof (induction N arbitrary: k rule: less_induct)
  case (less N)
  have m: "(0xFFF :: u64) = mask 12" by (simp add: mask_eq_exp_minus_1)
  have a: "buf AND 0xFFF = 0" unfolding m using assms(1) by (simp add: word_unat_eq_iff unat_and_mask)
  obtain j where "k = 8 * j" using less.prems by (auto elim: dvdE)
  then have "(buf + of_nat (512 * k)) AND 0xFFF = 0" using page_offset [OF a, of 0 j] by simp
  then have z: "unat (buf + of_nat (512 * k)) mod 4096 = 0"
    unfolding m using unat_and_mask [of "buf + of_nat (512 * k)" 12] by simp
  show ?case
  proof (cases "N = 0")
    case False
    then have "batches N = (if N \<le> 65424 then [N] else 65424 # batches (N - 65424))" by (simp add: batches_step)
    moreover have "8 dvd k + 65424" using less.prems by simp
    then have "65424 < N \<Longrightarrow> fits buf (k + 65424) (batches (N - 65424))" by (intro less.IH) simp_all
    ultimately show ?thesis using z by (simp add: in_one_list_def del: of_nat_mult)
  qed simp
qed

lemma fits_batches:
  assumes "unat buf mod 4096 = 0 \<or> in_one_list buf N"
  shows "fits buf 0 (batches N)"
proof (cases "unat buf mod 4096 = 0")
  case True
  then show ?thesis by (rule fits_aligned) simp
next
  case False
  then have "N \<le> 65424" "in_one_list buf N" using assms by (auto simp: in_one_list_def)
  then show ?thesis using batches_step [of N] by (cases "N = 0") simp_all
qed

lemma fetches_one:
  assumes "unat t' = (unat t + 1) mod 64" "unat (t :: u16) < 64"
  shows "fetches q 64 (unat t) ((h, ucast (t' :: u16)) # rs) =
    fetched (ram_of h) (q + ucast t * 64) # fetches q 64 (unat t') rs"
proof -
  have "unat (ucast t' :: u32) = unat t'" by (simp add: unat_ucast_up)
  moreover have "((unat t + 1) mod 64 + 64 - unat t) mod 64 = 1"
    using assms(2) by (cases "unat t = 63") simp_all
  moreover have "(of_nat (unat t) :: u64) = ucast t" by (simp only: ucast_eq_of_nat)
  ultimately show ?thesis using assms by simp
qed

lemma fetches_append:
  "fetches q d t (xs @ ys) = fetches q d t xs @ fetches q d (if xs = [] then t else unat (snd (last xs))) ys"
  by (induction q d t xs rule: fetches.induct) auto

lemma run_batches_issued:
  assumes "io_ready n" "fits buf k bs" "list_all (\<lambda>b. 1 \<le> b \<and> b \<le> 65424) bs"
  shows "\<exists>j st n' m' as. run_batches E opc lba buf k bs (n, m) = Some (k + sum_list (take j bs), st, n', m') \<and>
    j \<le> length bs \<and> (st = 0 \<longleftrightarrow> j = length bs) \<and> trace m' = trace m @ as \<and>
    fetches (iosq_buf n) 64 (unat (iosq_tail n)) (rings (bar0 n + 0x1008) (trace m) as) =
      take (Suc j) (transfer_cmds opc lba buf k bs)"
  using assms
proof (induction bs arbitrary: k n m)
  case Nil
  then show ?case by (auto intro!: exI [of _ 0])
next
  case (Cons b bs)
  have b: "1 \<le> b" "b \<le> 65424" and f: "in_one_list (buf + of_nat (512 * k)) b" "fits buf (k + b) bs"
    and bs: "list_all (\<lambda>b. 1 \<le> b \<and> b \<le> 65424) bs" using Cons.prems by (simp_all del: of_nat_mult)
  have t: "unat (iosq_tail n) < 64" using Cons.prems(1) by (simp add: io_ready_def word_less_nat_alt)
  obtain st n1 m1 as1 h where io: "io_cmd E n opc (lba + of_nat k) (buf + of_nat (512 * k)) (of_nat (512 * b)) (of_nat b) m
      = Some (st, n1, m1)"
    and n1: "io_ready n1" "n_at n1 = n_at n" "bar0 n1 = bar0 n" "unat (iosq_tail n1) = (unat (iosq_tail n) + 1) mod 64"
    and tr: "trace m1 = trace m @ as1" "rings (bar0 n + 0x1008) (trace m) as1 = [(h, ucast (iosq_tail n1))]"
      "fetched (ram_of h) (iosq_buf n + ucast (iosq_tail n) * 64) = hd (transfer_cmds opc lba buf k (b # bs))"
    using io_cmd_issued [OF Cons.prems(1) b f(1), of E opc "lba + of_nat k" m] by (simp del: of_nat_mult) metis
  note one = fetches_one [OF n1(4) t, of "iosq_buf n"]
  show ?case
  proof (cases "st = 0")
    case False
    have "fetches (iosq_buf n) 64 (unat (iosq_tail n)) (rings (bar0 n + 0x1008) (trace m) as1) =
        take (Suc 0) (transfer_cmds opc lba buf k (b # bs))"
      unfolding tr(2) one using tr(3) by simp
    then show ?thesis using False io tr(1)
      by (intro exI [of _ 0] exI [of _ st] exI [of _ n1] exI [of _ m1] exI [of _ as1]) (simp del: of_nat_mult)
  next
    case True
    obtain j st' n' m' as where ih: "run_batches E opc lba buf (k + b) bs (n1, m1) = Some (k + b + sum_list (take j bs), st', n', m')"
      "j \<le> length bs" "st' = 0 \<longleftrightarrow> j = length bs" "trace m' = trace m1 @ as"
      "fetches (iosq_buf n1) 64 (unat (iosq_tail n1)) (rings (bar0 n1 + 0x1008) (trace m1) as) =
        take (Suc j) (transfer_cmds opc lba buf (k + b) bs)"
      using Cons.IH [OF n1(1) f(2) bs, of m1] by blast
    have q: "iosq_buf n1 = iosq_buf n" using n1(2) by (simp add: iosq_buf_def)
    have "fetches (iosq_buf n) 64 (unat (iosq_tail n)) (rings (bar0 n + 0x1008) (trace m) (as1 @ as)) =
        take (Suc (Suc j)) (transfer_cmds opc lba buf k (b # bs))"
      using ih(5) tr one n1(3) q by (simp add: rings_append)
    then show ?thesis using ih tr io True
      by (intro exI [of _ "Suc j"] exI [of _ st'] exI [of _ n'] exI [of _ m'] exI [of _ "as1 @ as"])
        (simp del: of_nat_mult)
  qed
qed

lemma sum_positive: "\<forall>b\<in>set bs. (1 :: nat) \<le> b \<Longrightarrow> sum_list bs = 0 \<longleftrightarrow> bs = []"
  by (cases bs) auto

lemma sum_take_positive:
  assumes "\<forall>b\<in>set bs. (1 :: nat) \<le> b" "j \<le> length bs"
  shows "sum_list (take j bs) \<le> sum_list bs" "sum_list (take j bs) = sum_list bs \<longleftrightarrow> j = length bs"
    "sum_list (take j bs) = 0 \<longleftrightarrow> j = 0"
proof -
  have s: "sum_list bs = sum_list (take j bs) + sum_list (drop j bs)"
    by (metis append_take_drop_id sum_list_append)
  have "sum_list (drop j bs) = 0 \<longleftrightarrow> drop j bs = []" "sum_list (take j bs) = 0 \<longleftrightarrow> take j bs = []"
    using sum_positive [of "drop j bs"] sum_positive [of "take j bs"] assms(1)
    by (meson in_set_dropD, meson in_set_takeD)
  then show "sum_list (take j bs) \<le> sum_list bs" "sum_list (take j bs) = sum_list bs \<longleftrightarrow> j = length bs"
    "sum_list (take j bs) = 0 \<longleftrightarrow> j = 0" using s assms(2) by auto
qed


text \<open>A controller whose first completion entry is ready with status 0.\<close>

definition demo_nvme :: nvme where
  "demo_nvme = (nvme_zero 0x80000000)\<lparr>bar0 := 0x40000000, ioq_entries := 64, iocq_phase := True, present := True\<rparr>"

definition demo_ctrl :: env where
  "demo_ctrl h a = (if a = Rd8 0x8000300E then 1 else 0)"

lemma poll_first:
  "poll_cqe E cqe ph CQE_POLLS m =
     (let (v, m) = cqe_r32 E cqe CQE_CID_PB_SF m; phase = (v AND CQE_PB_MASK \<noteq> 0)
      in if phase = ph then (Some v, m) else poll_cqe E cqe ph (CQE_POLLS - 1) m)"
proof -
  have "CQE_POLLS = Suc (CQE_POLLS - 1)" by (simp add: CQE_POLLS_def)
  then show ?thesis by (metis poll_cqe.simps(2))
qed

lemma demo_poll: "\<exists>m'. poll_cqe demo_ctrl 0x80003000 True CQE_POLLS m = (Some 0x10000, m')"
  unfolding poll_first
  by (simp add: cqe_r32_def demo_ctrl_def CQE_CID_PB_SF_def CQE_PB_MASK_def be32_of_def Let_def)

lemma demo_submit:
  "\<exists>m'. submit_and_wait demo_ctrl n IO_QID 0x80003000 0 0 True 64 m = (0, 1, 1, True, m')"
proof -
  obtain m' where "poll_cqe demo_ctrl 0x80003000 True CQE_POLLS
      (nvme_w32 n (db_sq_tail IO_QID) 1 (mmio_barrier m)) = (Some 0x10000, m')"
    using demo_poll by blast
  then show ?thesis by (simp add: submit_and_wait_def next_slot_def Let_def)
qed


text \<open>A transfer of more than 65424 blocks is several commands.  When a later one fails, the
  result is the number of blocks of the commands before it, neither 0 nor the whole request.\<close>

lemma nvme_write_partial:
  assumes "present n" "unat nlb = 65424 + b" "0 < b" "b \<le> 65424"
    and "io_cmd E n IO_WRITE lba buf (of_nat (512 * 65424)) (of_nat 65424) m = Some (0, n1, m1)"
    and "io_cmd E n1 IO_WRITE (lba + of_nat 65424) (buf + of_nat (512 * 65424)) (of_nat (512 * b)) (of_nat b) m1
      = Some (st, n2, m2)" "st \<noteq> 0"
  shows "nvme_write E n lba buf nlb m = Some (65424, n2, m2)"
proof -
  have "batches (unat nlb) = [65424, b]" using assms(2-4) by (simp add: batches_step)
  then have "run_batches E IO_WRITE lba buf 0 (batches (unat nlb)) (n, m) = Some (65424, st, n2, m2)"
    using assms(5-7) by simp
  moreover have "nlb \<noteq> 0" using assms(2) by auto
  ultimately show ?thesis
    using nvme_write_loop_batches [of 0 nlb E lba buf n m] assms(1) by (simp add: nvme_write_def)
qed

text \<open>C33: a transfer of at least 65424 blocks whose buffer is not page-aligned makes the first
  command store past the end of the PRP list, over the fields of the object behind it: the
  largest batch the driver forms covers 8178 pages plus the offset of its first page, one
  entry more than the list and its chain pointers hold.\<close>

theorem nvme_read_misaligned:
  assumes "present n" "n_at n AND 0xFFF = 0" "iosq_tail n < 64" "unat buf mod 4096 \<noteq> 0" "65424 \<le> unat nlb"
  shows "nvme_read E ub n lba buf nlb m = None"
proof -
  let ?sqe = "iosq_buf n + ucast (iosq_tail n) * 64"
  have t: "unat (iosq_tail n) < 64" using assms(3) by (simp add: word_less_nat_alt)
  have u: "unat (ucast (iosq_tail n) * 64 :: u64) = unat (iosq_tail n) * 64"
    using t by (subst unat_mult_no_wrap) (simp_all add: unat_ucast_up)
  have "unat (?sqe - n_at n) = unat (8192 + ucast (iosq_tail n) * 64 :: u64)"
    by (simp add: iosq_buf_def)
  also have "\<dots> = 8192 + unat (iosq_tail n) * 64"
    using t by (subst unat_add_no_wrap) (simp_all add: u)
  finally have s: "unat (?sqe - n_at n) \<le> 16320" using t by simp
  have prp: "setup_prp n' ?sqe buf 33497088 m' = None" if "n_at n' = n_at n" for n' m'
  proof -
    have c: "\<not> unat buf mod 4096 + unat (33497088 :: u32) \<le> 8178 * 4096" using assms(4) by simp
    have "unat (?sqe - n_at n') \<le> 16320" "n_at n' AND 0xFFF = 0" using s assms(2) that by simp_all
    from setup_prp_bound [OF this(2,1), of 33497088 buf m'] show ?thesis unfolding if_not_P [OF c] by simp
  qed
  have "io_cmd E n IO_READ (lba + of_nat 0) (buf + of_nat (512 * 0)) (of_nat (512 * 65424)) (of_nat 65424) m = None"
    using prp by (simp add: io_cmd_def Let_def)
  moreover have "\<exists>bs. batches (unat nlb) = 65424 # bs" using assms(5) batches_step [of "unat nlb"] by auto
  moreover have "nlb \<noteq> 0" using assms(5) by auto
  ultimately show ?thesis using nvme_read_loop_batches [of 0 nlb E ub lba buf n m] assms(1)
    by (auto simp: nvme_read_def)
qed

lemma nvme_read_misaligned_witness:
  "nvme_read demo_ctrl 0x10000000 demo_nvme 0 0x90000200 65424 mach0 = None"
  by (rule nvme_read_misaligned) (simp_all add: demo_nvme_def nvme_zero_def)

end
