(* ===== verification/Eth.thy ===== *)
theory Eth
  imports Pci Irq Dma
begin

text \<open>
  The RTL8169 driver, \<open>src/eth_rtl8169.c\<close>.  The object is given by its address and the
  fields the driver reads back; its rings and buffers are memory shared with the device, so
  every store to them is an access of the trace and every load is answered by the
  environment.  A frame is a list of bytes: what a transfer copies out of or into memory.
\<close>

section \<open>Registers and layout\<close>

definition REG_IDR0 :: u32 where "REG_IDR0 = 0x00"
definition REG_IDR4 :: u32 where "REG_IDR4 = 0x04"
definition REG_TXDA1 :: u32 where "REG_TXDA1 = 0x20"
definition REG_TXDA2 :: u32 where "REG_TXDA2 = 0x24"
definition REG_CR :: u32 where "REG_CR = 0x37"
definition REG_TPOLL :: u32 where "REG_TPOLL = 0x38"
definition REG_IMR :: u32 where "REG_IMR = 0x3C"
definition REG_ISR :: u32 where "REG_ISR = 0x3E"
definition REG_TCR :: u32 where "REG_TCR = 0x40"
definition REG_RCR :: u32 where "REG_RCR = 0x44"
definition REG_9346 :: u32 where "REG_9346 = 0x50"
definition REG_PHYS :: u32 where "REG_PHYS = 0x6C"
definition REG_RMS :: u32 where "REG_RMS = 0xDA"
definition REG_CPCR :: u32 where "REG_CPCR = 0xE0"
definition REG_RXDA1 :: u32 where "REG_RXDA1 = 0xE4"
definition REG_RXDA2 :: u32 where "REG_RXDA2 = 0xE8"
definition CR_TE :: u8 where "CR_TE = 0x04"
definition CR_RE :: u8 where "CR_RE = 0x08"
definition CR_RST :: u8 where "CR_RST = 0x10"
definition LOCK_UNLOCK :: u8 where "LOCK_UNLOCK = 0xC0"
definition LOCK_LOCK :: u8 where "LOCK_LOCK = 0x00"
definition TPOLL_NPQ :: u8 where "TPOLL_NPQ = 0x40"
definition TCR_IFG :: u32 where "TCR_IFG = 0x03000000"
definition TCR_MXDMA :: u32 where "TCR_MXDMA = 0x00000700"
definition TCR_DEFAULT :: u32 where "TCR_DEFAULT = TCR_IFG OR TCR_MXDMA"
definition RCR_APM :: u32 where "RCR_APM = 0x0002"
definition RCR_AM :: u32 where "RCR_AM = 0x0004"
definition RCR_AB :: u32 where "RCR_AB = 0x0008"
definition RCR_DEFAULT :: u32 where "RCR_DEFAULT = RCR_APM OR RCR_AB OR RCR_AM"
definition RCR_MXDMA :: u32 where "RCR_MXDMA = 0x00000700"
definition RCR_RXFTH :: u32 where "RCR_RXFTH = 0x00007000"
definition CPCR_TXENB :: u16 where "CPCR_TXENB = 0x0001"
definition CPCR_RXENB :: u16 where "CPCR_RXENB = 0x0002"
definition IRQ_ROK :: u16 where "IRQ_ROK = 0x0001"
definition IRQ_RER :: u16 where "IRQ_RER = 0x0002"
definition IRQ_RDU :: u16 where "IRQ_RDU = 0x0010"
definition IMR_RX_SET :: u16 where "IMR_RX_SET = IRQ_ROK OR IRQ_RER OR IRQ_RDU"
definition PHYS_LINKSTS :: u8 where "PHYS_LINKSTS = 0x02"
definition DESC_OWN :: u32 where "DESC_OWN = 0x80000000"
definition DESC_EOR :: u32 where "DESC_EOR = 0x40000000"
definition DESC_FS :: u32 where "DESC_FS = 0x20000000"
definition DESC_LS :: u32 where "DESC_LS = 0x10000000"
definition DESC_LEN_MASK :: u32 where "DESC_LEN_MASK = 0x00003FFF"
definition ETH_RING_DEPTH :: u32 where "ETH_RING_DEPTH = 16"
definition ETH_BUFFER_SIZE :: u32 where "ETH_BUFFER_SIZE = 2048"
definition RVVM_PCI_ID_RTL8168 :: u32 where "RVVM_PCI_ID_RTL8168 = 0x816810EC"

lemmas eth_regs = REG_IDR0_def REG_IDR4_def REG_TXDA1_def REG_TXDA2_def REG_CR_def REG_TPOLL_def
  REG_IMR_def REG_ISR_def REG_TCR_def REG_RCR_def REG_9346_def REG_PHYS_def REG_RMS_def
  REG_CPCR_def REG_RXDA1_def REG_RXDA2_def

lemmas desc_bits = DESC_OWN_def DESC_EOR_def DESC_FS_def DESC_LS_def DESC_LEN_MASK_def

record eth =
  e_at :: u64
  pf :: pci_func
  e_bar :: u64
  mac :: "u8 list"
  rx_head :: u32
  tx_head :: u32
  up :: bool

text \<open>Where the rings and buffers are in the object, and its size (64-bit layout).\<close>

definition rx_ring :: "eth \<Rightarrow> u64" where "rx_ring e = e_at e + 256"
definition rx_buf :: "eth \<Rightarrow> u32 \<Rightarrow> u64" where "rx_buf e i = e_at e + 512 + 2048 * ucast i"
definition tx_ring :: "eth \<Rightarrow> u64" where "tx_ring e = e_at e + 33536"
definition tx_buf :: "eth \<Rightarrow> u32 \<Rightarrow> u64" where "tx_buf e i = e_at e + 33792 + 2048 * ucast i"
definition ETH_T_SIZE :: nat where "ETH_T_SIZE = 66816"

definition eth_R8 :: "env \<Rightarrow> eth \<Rightarrow> u32 \<Rightarrow> mach \<Rightarrow> u8 \<times> mach" where
  "eth_R8 E e off m = mmio_r8 E (e_bar e + ucast off) m"
definition eth_R16 :: "env \<Rightarrow> eth \<Rightarrow> u32 \<Rightarrow> mach \<Rightarrow> u16 \<times> mach" where
  "eth_R16 E e off m = mmio_r16 E (e_bar e + ucast off) m"
definition eth_R32 :: "env \<Rightarrow> eth \<Rightarrow> u32 \<Rightarrow> mach \<Rightarrow> u32 \<times> mach" where
  "eth_R32 E e off m = mmio_r32 E (e_bar e + ucast off) m"
definition eth_W8 :: "eth \<Rightarrow> u32 \<Rightarrow> u8 \<Rightarrow> mach \<Rightarrow> mach" where
  "eth_W8 e off v m = mmio_w8 (e_bar e + ucast off) v m"
definition eth_W16 :: "eth \<Rightarrow> u32 \<Rightarrow> u16 \<Rightarrow> mach \<Rightarrow> mach" where
  "eth_W16 e off v m = mmio_w16 (e_bar e + ucast off) v m"
definition eth_W32 :: "eth \<Rightarrow> u32 \<Rightarrow> u32 \<Rightarrow> mach \<Rightarrow> mach" where
  "eth_W32 e off v m = mmio_w32 (e_bar e + ucast off) v m"

section \<open>Bring-up\<close>

text \<open>The wait for the reset bit: up to \<open>n\<close> reads.\<close>

fun eth_reset_wait :: "env \<Rightarrow> eth \<Rightarrow> nat \<Rightarrow> mach \<Rightarrow> mach" where
  "eth_reset_wait E e 0 m = m"
| "eth_reset_wait E e (Suc n) m =
     (let (v, m) = eth_R8 E e REG_CR m
      in if v AND CR_RST = 0 then m else eth_reset_wait E e n m)"

text \<open>The stores of one descriptor.\<close>

definition desc_init :: "u64 \<Rightarrow> u32 \<Rightarrow> u64 \<Rightarrow> history" where
  "desc_init d flags buf = [Wr32 d flags, Wr32 (d + 4) 0, Wr64 (d + 8) buf]"

definition rx_ring_init :: "eth \<Rightarrow> history" where
  "rx_ring_init e = concat (map (\<lambda>i.
     let flags = DESC_OWN OR ETH_BUFFER_SIZE;
         flags = (if of_nat i = ETH_RING_DEPTH - 1 then flags OR DESC_EOR else flags)
     in desc_init (rx_ring e + 16 * of_nat i) flags (rx_buf e (of_nat i))) [0..<unat ETH_RING_DEPTH])"

definition tx_ring_init :: "eth \<Rightarrow> history" where
  "tx_ring_init e = concat (map (\<lambda>i.
     desc_init (tx_ring e + 16 * of_nat i) (if of_nat i = ETH_RING_DEPTH - 1 then DESC_EOR else 0)
       (tx_buf e (of_nat i))) [0..<unat ETH_RING_DEPTH])"

text \<open>From the register window to the running engines.\<close>

definition eth_start :: "env \<Rightarrow> u64 \<Rightarrow> eth \<Rightarrow> mach \<Rightarrow> (bool \<times> eth \<times> mach) option" where
  "eth_start E ub e m =
     (let m = eth_W8 e REG_CR CR_RST m;
          m = eth_reset_wait E e 1000 m;
          (v, m) = eth_R8 E e REG_CR m in
      if v AND CR_RST \<noteq> 0
      then do { m \<leftarrow> uart_puts E ub (bytes_of (''eth: RTL8169 reset did not complete'' @ [CHR 0x0A])) m;
                Some (False, e, m) }
      else
        (let (idr0, m) = eth_R32 E e REG_IDR0 m;
             (idr4, m) = eth_R32 E e REG_IDR4 m;
             e = e\<lparr>mac := [ucast idr0, ucast (drop_bit 8 idr0), ucast (drop_bit 16 idr0), ucast (drop_bit 24 idr0),
                           ucast idr4, ucast (drop_bit 8 idr4)]\<rparr>;
             m = emits (rx_ring_init e) m;
             m = emits (tx_ring_init e) m;
             m = mmio_barrier m;
             m = eth_W8 e REG_9346 LOCK_UNLOCK m;
             m = eth_W32 e REG_RXDA1 (ucast (rx_ring e AND 0xFFFFFFFF)) m;
             m = eth_W32 e REG_RXDA2 (ucast (drop_bit 32 (rx_ring e))) m;
             m = eth_W32 e REG_TXDA1 (ucast (tx_ring e AND 0xFFFFFFFF)) m;
             m = eth_W32 e REG_TXDA2 (ucast (drop_bit 32 (tx_ring e))) m;
             m = eth_W16 e REG_RMS (ucast ETH_BUFFER_SIZE) m;
             m = eth_W32 e REG_TCR TCR_DEFAULT m;
             m = eth_W32 e REG_RCR (RCR_DEFAULT OR RCR_MXDMA OR RCR_RXFTH) m;
             m = eth_W16 e REG_CPCR (CPCR_TXENB OR CPCR_RXENB) m;
             m = eth_W16 e REG_IMR 0 m;
             m = eth_W16 e REG_ISR 0xFFFF m;
             m = eth_W8 e REG_9346 LOCK_LOCK m;
             m = eth_W8 e REG_CR (CR_RE OR CR_TE) m
         in Some (True, e\<lparr>up := True\<rparr>, m)))"

definition eth_zero :: "u64 \<Rightarrow> eth" where
  "eth_zero a = \<lparr>e_at = a, pf = fill_func 0 0 0 0, e_bar = 0, mac = replicate 6 0, rx_head = 0, tx_head = 0, up = False\<rparr>"

fun first_bar :: "u64 list \<Rightarrow> u64" where
  "first_bar [] = 0"
| "first_bar (b # bs) = (if b \<noteq> 0 then b else first_bar bs)"

text \<open>The message of the code has a dash outside ASCII, sent as its three bytes.\<close>

definition eth_none_msg :: "u8 list" where
  "eth_none_msg = bytes_of ''eth: no RTL8169 found '' @ [0xE2, 0x80, 0x94] @
     bytes_of ('' RVVM started with -nonet?'' @ [CHR 0x0A])"

definition eth_init :: "env \<Rightarrow> u64 \<Rightarrow> u64 \<Rightarrow> eth \<Rightarrow> mach \<Rightarrow> (bool \<times> eth \<times> mach) option" where
  "eth_init E ub ecam e m =
     (let m = emits (map (\<lambda>i. Wr8 (e_at e + of_nat i) 0) [0..<ETH_T_SIZE]) m; e = eth_zero (e_at e)
      in do {
        (f, m) \<leftarrow> pci_find_device E ecam RVVM_PCI_ID_RTL8168 m;
        case f of
          None \<Rightarrow> do { m \<leftarrow> uart_puts E ub eth_none_msg m; Some (False, e, m) }
        | Some f \<Rightarrow>
            (let (f, m) = pci_setup_bars E f m; e = e\<lparr>pf := f, e_bar := first_bar (pci_func.bar f)\<rparr> in
             if e_bar e = 0
             then do { m \<leftarrow> uart_puts E ub (bytes_of (''eth: no usable BAR on RTL8169'' @ [CHR 0x0A])) m;
                       Some (False, e, m) }
             else eth_start E ub e m) })"

definition eth_mac :: "eth \<Rightarrow> u8 list" where
  "eth_mac e = map (\<lambda>i. mac e ! i) [0..<6]"

definition eth_link_up :: "env \<Rightarrow> eth \<Rightarrow> mach \<Rightarrow> bool \<times> mach" where
  "eth_link_up E e m =
     (if \<not> up e then (False, m)
      else (let (v, m) = mmio_r8 E (e_bar e + ucast REG_PHYS) m in (v AND PHYS_LINKSTS \<noteq> 0, m)))"

section \<open>Frames\<close>

text \<open>\<open>frame\<close> is the caller's memory from the frame's first byte on.\<close>

definition eth_send :: "env \<Rightarrow> eth \<Rightarrow> u8 list \<Rightarrow> u32 \<Rightarrow> mach \<Rightarrow> bool \<times> eth \<times> mach" where
  "eth_send E e frame len m =
     (if \<not> up e \<or> len = 0 \<or> len > ETH_BUFFER_SIZE then (False, e, m)
      else
        (let idx = tx_head e; d = tx_ring e + 16 * ucast idx; (flags, m) = mmio_r32 E d m in
         if flags AND DESC_OWN \<noteq> 0 then (False, e, m)
         else
           (let m = copy_out (tx_buf e idx) (take (unat len) frame) m;
                new_flags = DESC_OWN OR DESC_FS OR DESC_LS OR (len AND DESC_LEN_MASK);
                new_flags = (if idx = ETH_RING_DEPTH - 1 then new_flags OR DESC_EOR else new_flags);
                m = mmio_w32 d new_flags m;
                m = mmio_barrier m;
                m = eth_W8 e REG_TPOLL TPOLL_NPQ m
            in (True, e\<lparr>tx_head := (idx + 1) mod ETH_RING_DEPTH\<rparr>, m))))"

text \<open>The result is the length with the bytes stored at the caller's buffer.\<close>

definition eth_recv :: "env \<Rightarrow> eth \<Rightarrow> u64 \<Rightarrow> u32 \<Rightarrow> mach \<Rightarrow> u8 list \<times> eth \<times> mach" where
  "eth_recv E e out maxlen m =
     (if \<not> up e then ([], e, m)
      else
        (let idx = rx_head e; d = rx_ring e + 16 * ucast idx; (flags, m) = mmio_r32 E d m in
         if flags AND DESC_OWN \<noteq> 0 then ([], e, m)
         else
           (let len = flags AND DESC_LEN_MASK;
                len = (if len < 4 then 0 else len - 4);
                len = (if len > maxlen then maxlen else len);
                (bs, m) = (if len > 0
                  then (let (bs, m) = copy_in E (rx_buf e idx) (unat len) m in (bs, copy_out out bs m))
                  else ([], m));
                new_flags = DESC_OWN OR ETH_BUFFER_SIZE;
                new_flags = (if idx = ETH_RING_DEPTH - 1 then new_flags OR DESC_EOR else new_flags);
                m = mmio_w32 d new_flags m;
                m = mmio_barrier m
            in (bs, e\<lparr>rx_head := (idx + 1) mod ETH_RING_DEPTH\<rparr>, m))))"

section \<open>Interrupt-driven receive\<close>

text \<open>The static binding: the driver object, when bound, and the callback, when set, as a
  function on the caller's context.  \<open>frame_at\<close> is the address of the scratch frame.\<close>

partial_function (option) eth_drain ::
  "env \<Rightarrow> u64 \<Rightarrow> (u8 list \<Rightarrow> 'c \<Rightarrow> 'c) \<Rightarrow> 'c \<times> eth \<times> mach \<Rightarrow> ('c \<times> eth \<times> mach) option" where
  "eth_drain E frame_at cb s = (case s of (c, e, m) \<Rightarrow>
     (let (bs, e, m) = eth_recv E e frame_at ETH_BUFFER_SIZE m
      in if 0 < length bs then eth_drain E frame_at cb (cb bs c, e, m) else Some (c, e, m)))"

definition eth_irq_handler ::
  "env \<Rightarrow> u64 \<Rightarrow> (u8 list \<Rightarrow> 'c \<Rightarrow> 'c) option \<Rightarrow> 'c \<Rightarrow> eth option \<Rightarrow> mach \<Rightarrow> ('c \<times> eth option \<times> mach) option" where
  "eth_irq_handler E frame_at cb c bound m =
     (case bound of None \<Rightarrow> Some (c, None, m)
      | Some e \<Rightarrow>
          (let (isr, m) = eth_R16 E e REG_ISR m;
               m = eth_W16 e REG_ISR isr m in
           case cb of None \<Rightarrow> Some (c, Some e, m)
           | Some cb \<Rightarrow> do { (c, e, m) \<leftarrow> eth_drain E frame_at cb (c, e, m); Some (c, Some e, m) }))"

text \<open>\<open>handler_at\<close> is the address of \<open>eth_irq_handler\<close>; the result is the source, and whether
  the binding was set.\<close>

definition eth_irq_attach ::
  "priv \<Rightarrow> env \<Rightarrow> plat \<Rightarrow> u64 \<Rightarrow> eth option \<Rightarrow> irq \<Rightarrow> mach \<Rightarrow> u32 \<times> bool \<times> irq \<times> mach" where
  "eth_irq_attach B E P handler_at e I m =
     (case e of None \<Rightarrow> (0, False, I, m)
      | Some e \<Rightarrow>
          if \<not> up e then (0, False, I, m)
          else
            (let (source, m) = pci_func_irq_line E (pf e) m in
             if source = 0 then (0, False, I, m)
             else
               (let m = eth_W16 e REG_ISR 0xFFFF m;
                    m = eth_W16 e REG_IMR IMR_RX_SET m;
                    I = irq_register source handler_at 0 I;
                    m = irq_set_priority B E P source 2 m;
                    m = irq_enable B E P source m
                in (source, True, I, m))))"

section \<open>Sending\<close>

text \<open>C9: on an interface that is up, a frame of 1 to 2048 bytes is refused without any store
  exactly when the device still owns the descriptor at the head.  Otherwise the frame's bytes
  are stored in that descriptor's buffer first, then its flag word (owned by the device, first
  and last segment, the length, and the ring's end mark on the last descriptor), then a fence
  and the doorbell, and the head moves to the next descriptor of the ring.\<close>

theorem eth_send_correct:
  fixes E :: env and m :: mach
  assumes "up e" "0 < len" "len \<le> 2048" "length frame = unat len" "tx_head e < 16"
  defines "d \<equiv> tx_ring e + 16 * ucast (tx_head e)"
  defines "fl \<equiv> ucast (E (trace m) (Rd32 d)) :: u32"
  shows "if fl AND DESC_OWN \<noteq> 0
    then eth_send E e frame len m = (False, e, emits [Rd32 d] m)
    else \<exists>ws. eth_send E e frame len m =
        (True, e\<lparr>tx_head := (if tx_head e = 15 then 0 else tx_head e + 1)\<rparr>,
         emits ([Rd32 d] @ ws @ [Wr32 d (0xB0000000 OR len OR (if tx_head e = 15 then DESC_EOR else 0)),
                 Fence, Wr8 (e_bar e + 0x38) 0x40]) m) \<and>
      length ws = unat len \<and> touched ws = (\<lambda>i. tx_buf e (tx_head e) + of_nat i) ` {..<unat len} \<and>
      (\<forall>i<unat len. ram_of ws (tx_buf e (tx_head e) + of_nat i) = frame ! i)"
proof (cases "fl AND DESC_OWN = 0")
  case False
  then show ?thesis using assms(1-3)
    by (simp add: eth_send_def Let_def d_def fl_def ETH_BUFFER_SIZE_def emit_emits linorder_not_less)
next
  case True
  define ws where "ws = map (\<lambda>i. Wr8 (tx_buf e (tx_head e) + of_nat i) (frame ! i)) [0..<unat len]"
  have lm: "len AND DESC_LEN_MASK = len"
  proof -
    have m: "DESC_LEN_MASK = mask 14" by (simp add: DESC_LEN_MASK_def mask_eq_exp_minus_1)
    have "unat len < 2 ^ 14" using assms(3) by (simp add: word_le_nat_alt)
    then show ?thesis unfolding m by (simp add: word_unat_eq_iff unat_and_mask)
  qed
  have nx: "(tx_head e + 1) mod ETH_RING_DEPTH = (if tx_head e = 15 then 0 else tx_head e + 1)"
  proof (cases "tx_head e = 15")
    case False
    have "unat (tx_head e + 1) = unat (tx_head e) + 1"
      using assms(5) by (subst unat_add_no_wrap) (simp_all add: word_less_nat_alt)
    moreover have "unat (tx_head e) \<noteq> 15" using False by (simp add: word_unat_eq_iff)
    ultimately have "(tx_head e + 1) mod 16 = tx_head e + 1"
      using assms(5) by (simp add: word_unat_eq_iff unat_mod word_less_nat_alt)
    with False show ?thesis by (simp add: ETH_RING_DEPTH_def)
  qed (simp add: ETH_RING_DEPTH_def)
  have fs: "DESC_OWN OR DESC_FS OR DESC_LS OR x = 0xB0000000 OR x" for x
    by (simp add: desc_bits or.assoc [symmetric])
  have z: "len \<noteq> 0" "\<not> ETH_BUFFER_SIZE < len" using assms(2,3) by (auto simp: ETH_BUFFER_SIZE_def)
  have eor: "(tx_head e = ETH_RING_DEPTH - 1) = (tx_head e = 15)" by (simp add: ETH_RING_DEPTH_def)
  have "eth_send E e frame len m =
        (True, e\<lparr>tx_head := (if tx_head e = 15 then 0 else tx_head e + 1)\<rparr>,
         emits ([Rd32 d] @ ws @ [Wr32 d (0xB0000000 OR len OR (if tx_head e = 15 then DESC_EOR else 0)),
                 Fence, Wr8 (e_bar e + 0x38) 0x40]) m)"
    using assms(1,4) True z
    by (simp add: eth_send_def Let_def d_def fl_def nx lm fs eor emit_emits
        copy_out_def ws_def eth_W8_def REG_TPOLL_def TPOLL_NPQ_def or.assoc)
  moreover have "unat len \<le> 2 ^ 32" using assms(3) by (simp add: word_le_nat_alt)
  ultimately show ?thesis using True
    by (intro if_not_P [THEN iffD2]) (auto simp: ws_def touched_copy ram_of_copy atLeast0LessThan)
qed

definition demo_eth :: eth where
  "demo_eth = (eth_zero 0x80000000)\<lparr>e_bar := 0x40000000, tx_head := 15, rx_head := 15, up := True\<rparr>"

lemma eth_send_correct_witness:
  "\<exists>m'. eth_send (\<lambda>h a. 0x40000000) demo_eth (replicate 60 7) 60 mach0 =
     (True, demo_eth\<lparr>tx_head := 0\<rparr>, m')"
  using eth_send_correct [of demo_eth 60 "replicate 60 7" "\<lambda>h a. 0x40000000" mach0]
  by (auto simp: demo_eth_def eth_zero_def desc_bits)

section \<open>Receiving\<close>

text \<open>A device that has filled descriptors and then leaves the memory alone: a load of a word
  answers what the driver stored there last, or what the device left in \<open>W\<close>; bytes are those
  of \<open>B\<close>.\<close>

definition word_after :: "history \<Rightarrow> (u64 \<Rightarrow> u32) \<Rightarrow> u64 \<Rightarrow> u32" where
  "word_after h W = fold (\<lambda>a M. case a of Wr32 x v \<Rightarrow> M(x := v) | _ \<Rightarrow> M) h W"

definition idle_device :: "(u64 \<Rightarrow> u32) \<Rightarrow> (u64 \<Rightarrow> u8) \<Rightarrow> env" where
  "idle_device W B h a = (case a of Rd32 x \<Rightarrow> ucast (word_after h W x) | Rd8 x \<Rightarrow> ucast (B x) | _ \<Rightarrow> 0)"

lemma word_after_simps [simp]:
  "word_after [] W = W"
  "word_after (h @ [a]) W x = (case a of Wr32 y v \<Rightarrow> if x = y then v else word_after h W x | _ \<Rightarrow> word_after h W x)"
  by (simp_all add: word_after_def split: access.splits)

lemma word_after_keeps:
  "\<forall>a\<in>set k. \<forall>x v. a \<noteq> Wr32 x v \<Longrightarrow> word_after (h @ k) W = word_after h W"
proof (induction k rule: rev_induct)
  case (snoc a k)
  then show ?case unfolding append_assoc [symmetric]
    by (intro ext) (auto split: access.splits simp del: append_assoc)
qed simp

lemma idle_reads [simp]:
  "ucast (idle_device W B h (Rd32 x)) = word_after h W x" "ucast (idle_device W B h (Rd8 x)) = B x"
  by (simp_all add: idle_device_def ucast_ucast_up)

lemma copy_in_idle:
  "copy_in (idle_device W B) a n m =
     (map (\<lambda>i. B (a + of_nat i)) [0..<n], emits (map (\<lambda>i. Rd8 (a + of_nat i)) [0..<n]) m)"
proof (induction n arbitrary: a m)
  case (Suc n)
  then show ?case by (simp add: Let_def emit_emits map_upt_Suc add.assoc del: upt_Suc)
qed simp

text \<open>The descriptor after \<open>i\<close> steps around the ring, and the payload a flag word announces.\<close>

definition rx_desc :: "eth \<Rightarrow> nat \<Rightarrow> u64" where
  "rx_desc e i = rx_ring e + 16 * of_nat (i mod 16)"

definition payload_len :: "u32 \<Rightarrow> nat" where
  "payload_len fl = min (unat (fl AND DESC_LEN_MASK) - 4) 2048"

definition payload :: "(u64 \<Rightarrow> u8) \<Rightarrow> eth \<Rightarrow> nat \<Rightarrow> u32 \<Rightarrow> u8 list" where
  "payload B e i fl = map (\<lambda>k. B (rx_buf e (of_nat (i mod 16)) + of_nat k)) [0..<payload_len fl]"

definition next_rx :: "eth \<Rightarrow> eth" where
  "next_rx e = e\<lparr>rx_head := (rx_head e + 1) mod ETH_RING_DEPTH\<rparr>"

lemma rx_len:
  "(let len = fl AND DESC_LEN_MASK; len = (if len < 4 then 0 else len - 4)
    in unat (if len > ETH_BUFFER_SIZE then ETH_BUFFER_SIZE else len)) = payload_len fl"
proof -
  have "\<not> x < 4 \<Longrightarrow> unat (x - 4) = unat x - 4" for x :: u32
    by (subst unat_sub_no_wrap) (simp_all add: word_le_nat_alt word_less_nat_alt)
  then show ?thesis
    by (auto simp: payload_len_def Let_def ETH_BUFFER_SIZE_def word_less_nat_alt min_def)
qed

lemma eth_recv_idle:
  fixes m :: mach and W :: "u64 \<Rightarrow> u32"
  assumes "up e" "unat (rx_head e) < 16"
  defines "fl \<equiv> word_after (trace m) W (rx_desc e (unat (rx_head e)))"
  shows "fl AND DESC_OWN \<noteq> 0 \<Longrightarrow> eth_recv (idle_device W B) e out ETH_BUFFER_SIZE m =
      ([], e, emits [Rd32 (rx_desc e (unat (rx_head e)))] m)"
    and "fl AND DESC_OWN = 0 \<Longrightarrow> \<exists>m'. eth_recv (idle_device W B) e out ETH_BUFFER_SIZE m =
      (payload B e (unat (rx_head e)) fl, next_rx e, m') \<and>
      word_after (trace m') W = (word_after (trace m) W)
        (rx_desc e (unat (rx_head e)) := 0x80000800 OR (if rx_head e = 15 then DESC_EOR else 0))"
proof -
  let ?i = "unat (rx_head e)"
  have i: "of_nat (?i mod 16) = rx_head e" "(of_nat (?i mod 16) :: u64) = ucast (rx_head e)"
    using assms(2) by (simp_all add: ucast_eq_of_nat [symmetric])
  have d: "rx_ring e + 16 * ucast (rx_head e) = rx_desc e ?i" by (simp add: rx_desc_def i)
  show "eth_recv (idle_device W B) e out ETH_BUFFER_SIZE m = ([], e, emits [Rd32 (rx_desc e ?i)] m)"
    if "fl AND DESC_OWN \<noteq> 0"
    using that assms(1) by (simp add: eth_recv_def Let_def d fl_def emit_emits)
  define len where "len = (let len = fl AND DESC_LEN_MASK; len = (if len < 4 then 0 else len - 4)
    in if len > ETH_BUFFER_SIZE then ETH_BUFFER_SIZE else len)"
  have len: "unat len = payload_len fl" unfolding len_def Let_def using rx_len [of fl, unfolded Let_def] .
  have fl: "word_after (trace m) W (rx_desc e ?i) = fl" by (simp add: fl_def)
  have fs: "DESC_OWN OR ETH_BUFFER_SIZE = 0x80000800" by (simp add: desc_bits ETH_BUFFER_SIZE_def)
  have eor: "(rx_head e = ETH_RING_DEPTH - 1) = (rx_head e = 15)" by (simp add: ETH_RING_DEPTH_def)
  define m1 where "m1 = emits [Rd32 (rx_desc e ?i)] m"
  define m2 where "m2 = (if len > 0 then copy_out out (payload B e ?i fl)
    (emits (map (\<lambda>k. Rd8 (rx_buf e (rx_head e) + of_nat k)) [0..<payload_len fl]) m1) else m1)"
  have w: "word_after (trace m2) W = word_after (trace m) W"
    by (auto simp: m2_def m1_def copy_out_def intro!: word_after_keeps)
  have nil: "len = 0 \<Longrightarrow> payload B e ?i fl = []" using len by (simp add: payload_def)
  show "\<exists>m'. eth_recv (idle_device W B) e out ETH_BUFFER_SIZE m = (payload B e ?i fl, next_rx e, m') \<and>
      word_after (trace m') W = (word_after (trace m) W)
        (rx_desc e ?i := 0x80000800 OR (if rx_head e = 15 then DESC_EOR else 0))"
    if own: "fl AND DESC_OWN = 0"
  proof (intro exI conjI)
    let ?fl = "0x80000800 OR (if rx_head e = 15 then DESC_EOR else 0)"
    show "eth_recv (idle_device W B) e out ETH_BUFFER_SIZE m =
        (payload B e ?i fl, next_rx e, emits [Wr32 (rx_desc e ?i) ?fl, Fence] m2)"
      using assms(1) own nil
      by (auto simp: eth_recv_def d fl len_def [symmetric, unfolded Let_def] Let_def fs eor emit_emits
          m2_def m1_def copy_in_idle len payload_def i next_rx_def word_gt_0)
    show "word_after (trace (emits [Wr32 (rx_desc e ?i) ?fl, Fence] m2)) W = (word_after (trace m) W)(rx_desc e ?i := ?fl)"
      using w by (auto simp: word_after_def)
  qed
qed


section \<open>Draining the ring\<close>

lemma rx_desc_mod: "rx_desc e (i mod 16 + k) = rx_desc e (i + k)"
  by (simp add: rx_desc_def mod_add_left_eq)

lemma rx_desc_head [simp]: "rx_desc (e\<lparr>rx_head := h\<rparr>) i = rx_desc e i" "rx_desc (next_rx e) i = rx_desc e i"
  by (simp_all add: rx_desc_def rx_ring_def next_rx_def)

lemma rx_desc_inj: "rx_desc e i = rx_desc e j \<longleftrightarrow> i mod 16 = j mod 16"
proof
  assume "rx_desc e i = rx_desc e j"
  then have "16 * of_nat (i mod 16) = (16 * of_nat (j mod 16) :: u64)" by (simp add: rx_desc_def)
  then have "(of_nat (16 * (i mod 16)) :: u64) = of_nat (16 * (j mod 16))" by simp
  then have "unat (of_nat (16 * (i mod 16)) :: u64) = unat (of_nat (16 * (j mod 16)) :: u64)" by simp
  then show "i mod 16 = j mod 16" by (subst (asm) (1 2) unat_of_nat_small) auto
qed (simp add: rx_desc_def)

lemma payload_head [simp]:
  "payload B (next_rx e) i fl = payload B e i fl" "payload B e (i mod 16 + k) fl = payload B e (i + k) fl"
  by (simp_all add: payload_def rx_buf_def next_rx_def mod_add_left_eq)

lemma next_rx_head:
  assumes "unat (rx_head e) < 16"
  shows "unat (rx_head (next_rx e)) = (unat (rx_head e) + 1) mod 16"
proof -
  have "unat (rx_head e + 1) = unat (rx_head e) + 1"
    using assms by (subst unat_add_no_wrap) simp_all
  then show ?thesis by (simp add: next_rx_def ETH_RING_DEPTH_def unat_mod)
qed

lemma next_rx_simps [simp]: "up (next_rx e) = up e" "(next_rx e)\<lparr>rx_head := h\<rparr> = e\<lparr>rx_head := h\<rparr>"
  by (simp_all add: next_rx_def)

lemma ring_step_ne: "(h + Suc i) mod 16 \<noteq> h mod 16" if "h < 16" "i < 15" for h i :: nat
proof (cases "h + Suc i < 16")
  case False
  then have "(h + Suc i) mod 16 = h + Suc i - 16" using that by (subst mod_if) simp
  with that False show ?thesis by simp
qed (use that in simp)

lemma head_is: "unat (rx_head e) = k \<Longrightarrow> e = e\<lparr>rx_head := of_nat k\<rparr>"
  by auto

lemma eth_drain_step:
  "eth_drain E a cb (c, e, m) = (case eth_recv E e a ETH_BUFFER_SIZE m of (bs, e, m) \<Rightarrow>
     if bs = [] then Some (c, e, m) else eth_drain E a cb (cb bs c, e, m))"
  by (subst eth_drain.simps) (simp add: Let_def split: prod.split)

text \<open>Every frame up to the first descriptor that holds none.\<close>

lemma eth_drain_frames:
  fixes W :: "u64 \<Rightarrow> u32" and fl :: "nat \<Rightarrow> u32"
  assumes "up e" "unat (rx_head e) < 16" "n < 16"
    and "\<And>i. i \<le> n \<Longrightarrow> fl i = word_after (trace m) W (rx_desc e (unat (rx_head e) + i))"
    and "\<And>i. i < n \<Longrightarrow> fl i AND DESC_OWN = 0 \<and> 0 < payload_len (fl i)"
    and "fl n AND DESC_OWN \<noteq> 0 \<or> payload_len (fl n) = 0"
  shows "\<exists>m'. eth_drain (idle_device W B) a cb (c, e, m) =
    Some (fold cb (map (\<lambda>i. payload B e (unat (rx_head e) + i) (fl i)) [0..<n]) c,
      e\<lparr>rx_head := of_nat ((unat (rx_head e) + n + (if fl n AND DESC_OWN = 0 then 1 else 0)) mod 16)\<rparr>, m')"
  using assms
proof (induction n arbitrary: e m c fl)
  case 0
  show ?case
  proof (cases "fl 0 AND DESC_OWN = 0")
    case False
    then show ?thesis using 0 eth_recv_idle(1) [of e m W B a]
      by (subst eth_drain_step) simp
  next
    case True
    then have "payload B e (unat (rx_head e)) (fl 0) = []" using 0(6) by (simp add: payload_def)
    moreover have "next_rx e = e\<lparr>rx_head := of_nat ((unat (rx_head e) + 1) mod 16)\<rparr>"
      using head_is [OF next_rx_head [OF 0(2)]] by simp
    ultimately show ?thesis using 0 True eth_recv_idle(2) [of e m W B a]
      by (subst eth_drain_step) auto
  qed
next
  case (Suc n)
  let ?h = "unat (rx_head e)"
  have f0: "fl 0 = word_after (trace m) W (rx_desc e ?h)" using Suc.prems(4) [of 0] by simp
  have "fl 0 AND DESC_OWN = 0" "0 < payload_len (fl 0)" using Suc.prems(5) [of 0] by auto
  then have ne: "payload B e ?h (fl 0) \<noteq> []" by (simp add: payload_def)
  from eth_recv_idle(2) [OF Suc.prems(1,2), of m W B a] \<open>fl 0 AND DESC_OWN = 0\<close> f0
  obtain m1 where m1: "eth_recv (idle_device W B) e a ETH_BUFFER_SIZE m = (payload B e ?h (fl 0), next_rx e, m1)"
    "word_after (trace m1) W = (word_after (trace m) W)
        (rx_desc e ?h := 0x80000800 OR (if rx_head e = 15 then DESC_EOR else 0))" by auto
  have h1: "unat (rx_head (next_rx e)) = (?h + 1) mod 16" by (rule next_rx_head) fact
  have same: "word_after (trace m1) W (rx_desc e (?h + Suc i)) = fl (Suc i)" if "i \<le> n" for i
  proof -
    have "(?h + Suc i) mod 16 \<noteq> ?h mod 16" using that Suc.prems(2,3) by (intro ring_step_ne) simp_all
    then show ?thesis using m1(2) that Suc.prems(4) [of "Suc i"] by (simp add: rx_desc_inj)
  qed
  obtain m' where "eth_drain (idle_device W B) a cb (cb (payload B e ?h (fl 0)) c, next_rx e, m1) =
      Some (fold cb (map (\<lambda>i. payload B (next_rx e) (unat (rx_head (next_rx e)) + i) (fl (Suc i))) [0..<n])
          (cb (payload B e ?h (fl 0)) c),
        (next_rx e)\<lparr>rx_head := of_nat ((unat (rx_head (next_rx e)) + n +
          (if fl (Suc n) AND DESC_OWN = 0 then 1 else 0)) mod 16)\<rparr>, m')"
  proof -
    have "fl (Suc i) = word_after (trace m1) W (rx_desc (next_rx e) (unat (rx_head (next_rx e)) + i))" if "i \<le> n" for i
      unfolding h1 using same [OF that] by (simp add: rx_desc_mod)
    then show ?thesis
      using Suc.IH [of "next_rx e" "\<lambda>i. fl (Suc i)" m1 "cb (payload B e ?h (fl 0)) c"] Suc.prems(1,3,5,6) h1 that
      by fastforce
  qed
  moreover have "fold cb (map (\<lambda>i. payload B e (?h + i) (fl i)) [0..<Suc n]) c =
      fold cb (map (\<lambda>i. payload B e (?h + Suc i) (fl (Suc i))) [0..<n]) (cb (payload B e ?h (fl 0)) c)"
    by (simp add: map_upt_Suc del: upt_Suc)
  moreover have "(unat (rx_head (next_rx e)) + n + k) mod 16 = (?h + Suc n + k) mod 16" for k
    unfolding h1 by (simp only: add.assoc mod_add_left_eq) (simp add: add.assoc)
  moreover have "payload B (next_rx e) (unat (rx_head (next_rx e)) + i) x = payload B e (?h + Suc i) x" for i x
    unfolding h1 by simp
  ultimately have "eth_drain (idle_device W B) a cb (cb (payload B e ?h (fl 0)) c, next_rx e, m1) =
      Some (fold cb (map (\<lambda>i. payload B e (?h + i) (fl i)) [0..<Suc n]) c,
        e\<lparr>rx_head := of_nat ((?h + Suc n + (if fl (Suc n) AND DESC_OWN = 0 then 1 else 0)) mod 16)\<rparr>, m')"
    by (simp only: next_rx_simps)
  then show ?case unfolding eth_drain_step [of _ _ _ c e m] m1(1) using ne by simp
qed


lemma payload_len_pos: "0 < payload_len x \<longleftrightarrow> 4 < unat (x AND DESC_LEN_MASK)" "payload_len x = 0 \<longleftrightarrow> unat (x AND DESC_LEN_MASK) \<le> 4"
  by (auto simp: payload_len_def min_def)

text \<open>A ring full of frames is drained once round: the first frame's descriptor is handed back and
  stops the drain when the head comes to it again.\<close>

lemma eth_drain_full_ring:
  fixes W :: "u64 \<Rightarrow> u32" and m :: mach and e :: eth
  assumes "up e" "unat (rx_head e) < 16"
  defines "h \<equiv> unat (rx_head e)"
  defines "fl \<equiv> \<lambda>i. word_after (trace m) W (rx_desc e (h + i))"
  assumes ready: "\<And>i. i < 16 \<Longrightarrow> fl i AND DESC_OWN = 0 \<and> 4 < unat (fl i AND DESC_LEN_MASK)"
  shows "\<exists>m'. eth_drain (idle_device W B) a cb (c, e, m) =
    Some (fold cb (map (\<lambda>i. payload B e (h + i) (fl i)) [0..<16]) c, e\<lparr>rx_head := of_nat ((h + 16) mod 16)\<rparr>, m')"
proof -
  let ?E = "idle_device W B" and ?e = "next_rx e" and ?b = "payload B e h (fl 0)"
  have "fl 0 AND DESC_OWN = 0" and ne: "?b \<noteq> []" using ready [of 0] payload_len_pos [of "fl 0"] by (auto simp: payload_def)
  with eth_recv_idle(2) [OF assms(1,2), of m W B a]
  obtain m1 where m1: "eth_recv ?E e a ETH_BUFFER_SIZE m = (?b, ?e, m1)"
    "word_after (trace m1) W = (word_after (trace m) W)
      (rx_desc e h := 0x80000800 OR (if rx_head e = 15 then DESC_EOR else 0))"
    by (auto simp: fl_def h_def)
  have h1: "unat (rx_head ?e) = (h + 1) mod 16" unfolding h_def by (rule next_rx_head) fact
  let ?fl = "\<lambda>i. word_after (trace m1) W (rx_desc e (h + Suc i))"
  have same: "?fl i = fl (Suc i)" if "i < 15" for i
    using m1(2) ring_step_ne [of h i] that assms(2) by (simp add: rx_desc_inj fl_def h_def)
  have own: "?fl 15 AND DESC_OWN \<noteq> 0"
    using m1(2) rx_desc_inj [of e "h + 16" h] by (simp add: desc_bits bit.conj_disj_distrib2)
  have step: "rx_desc ?e (unat (rx_head ?e) + i) = rx_desc e (h + Suc i)"
    "payload B ?e (unat (rx_head ?e) + i) x = payload B e (h + Suc i) x" for i x
    unfolding h1 by (simp_all add: rx_desc_mod)
  obtain m' where "eth_drain ?E a cb (cb ?b c, ?e, m1) =
      Some (fold cb (map (\<lambda>i. payload B e (h + Suc i) (?fl i)) [0..<15]) (cb ?b c),
        ?e\<lparr>rx_head := of_nat ((unat (rx_head ?e) + 15) mod 16)\<rparr>, m')"
    using eth_drain_frames [of ?e 15 ?fl m1 W B a cb "cb ?b c"] assms(1) h1 own same ready payload_len_pos
    unfolding step by auto
  moreover have "(unat (rx_head ?e) + 15) mod 16 = (h + 16) mod 16" unfolding h1 by presburger
  moreover have "map (\<lambda>i. payload B e (h + i) (fl i)) [0..<16] =
      ?b # map (\<lambda>i. payload B e (h + Suc i) (?fl i)) [0..<15]"
    using same by (simp add: map_upt_Suc [of _ 15, simplified] cong: map_cong)
  ultimately show ?thesis using ne by (simp add: eth_drain_step m1(1))
qed


definition demo_ring :: "u64 \<Rightarrow> u32" where
  "demo_ring x = (if x = 0x800001F0 then 0x40000040 else if x = 0x80000100 then 2 else DESC_OWN)"


end
