(* ===== verification/Gpu.thy ===== *)
theory Gpu
  imports Virtio Dma
begin

text \<open>
  The virtio display, \<open>src/virtio_gpu.c\<close>: every command is a request the driver copies to a
  buffer and posts as a chain of two descriptors, followed by a wait for its response.
  Commands are the byte lists of their packed little-endian structs.  The response storage of
  the caller is a byte list too: a device that answers with fewer bytes leaves the rest of it
  as it was, and the storage the driver passes for most commands is not initialised, so its
  first contents are an argument.
\<close>

section \<open>Commands\<close>

definition VIRTIO_GPU_CMD_GET_DISPLAY_INFO :: u32 where "VIRTIO_GPU_CMD_GET_DISPLAY_INFO = 0x0100"
definition VIRTIO_GPU_CMD_RESOURCE_CREATE_2D :: u32 where "VIRTIO_GPU_CMD_RESOURCE_CREATE_2D = 0x0101"
definition VIRTIO_GPU_CMD_SET_SCANOUT :: u32 where "VIRTIO_GPU_CMD_SET_SCANOUT = 0x0103"
definition VIRTIO_GPU_CMD_RESOURCE_FLUSH :: u32 where "VIRTIO_GPU_CMD_RESOURCE_FLUSH = 0x0104"
definition VIRTIO_GPU_CMD_TRANSFER_TO_HOST_2D :: u32 where "VIRTIO_GPU_CMD_TRANSFER_TO_HOST_2D = 0x0105"
definition VIRTIO_GPU_CMD_RESOURCE_ATTACH_BACKING :: u32 where "VIRTIO_GPU_CMD_RESOURCE_ATTACH_BACKING = 0x0106"
definition VIRTIO_GPU_RESP_OK_NODATA :: u32 where "VIRTIO_GPU_RESP_OK_NODATA = 0x1100"
definition VIRTIO_GPU_RESP_OK_DISPLAY_INFO :: u32 where "VIRTIO_GPU_RESP_OK_DISPLAY_INFO = 0x1101"
definition VIRTIO_GPU_FORMAT_B8G8R8X8_UNORM :: u32 where "VIRTIO_GPU_FORMAT_B8G8R8X8_UNORM = 1"
definition VIRTIO_GPU_MAX_SCANOUTS :: nat where "VIRTIO_GPU_MAX_SCANOUTS = 16"
definition VIRTIO_GPU_VRAM_BYTES :: u64 where "VIRTIO_GPU_VRAM_BYTES = 4 * 1024 * 1024"
definition VIRTIO_GPU_QSIZE :: u16 where "VIRTIO_GPU_QSIZE = 16"
definition VIRTIO_ID_GPU :: u32 where "VIRTIO_ID_GPU = 16"

lemmas gpu_codes = VIRTIO_GPU_CMD_GET_DISPLAY_INFO_def VIRTIO_GPU_CMD_RESOURCE_CREATE_2D_def
  VIRTIO_GPU_CMD_SET_SCANOUT_def VIRTIO_GPU_CMD_RESOURCE_FLUSH_def
  VIRTIO_GPU_CMD_TRANSFER_TO_HOST_2D_def VIRTIO_GPU_CMD_RESOURCE_ATTACH_BACKING_def

record virtio_gpu =
  vg_dev :: virtio_dev
  controlq :: virtq
  vg_width :: u32
  vg_height :: u32
  resource_id :: u32
  vg_desc :: u64
  vg_avail_buf :: u64
  vg_used_buf :: u64
  vg_vram :: u64
  req_buf :: u64
  rsp_buf :: u64

definition le64_bytes :: "u64 \<Rightarrow> u8 list" where
  "le64_bytes v = le32_bytes (ucast v) @ le32_bytes (ucast (drop_bit 32 v))"

definition le32_at :: "u8 list \<Rightarrow> nat \<Rightarrow> u32" where
  "le32_at bs i = be32_of (bs ! (i + 3)) (bs ! (i + 2)) (bs ! (i + 1)) (bs ! i)"

definition virtio_gpu_ctrl_hdr :: "u32 \<Rightarrow> u8 list" where
  "virtio_gpu_ctrl_hdr type = le32_bytes type @ le32_bytes 0 @ le64_bytes 0 @ le32_bytes 0 @ [0] @ [0, 0, 0]"

definition virtio_gpu_rect :: "u32 \<Rightarrow> u32 \<Rightarrow> u32 \<Rightarrow> u32 \<Rightarrow> u8 list" where
  "virtio_gpu_rect x y w h = le32_bytes x @ le32_bytes y @ le32_bytes w @ le32_bytes h"

definition resource_create_2d :: "u32 \<Rightarrow> u32 \<Rightarrow> u32 \<Rightarrow> u32 \<Rightarrow> u8 list" where
  "resource_create_2d rid fmt w h = virtio_gpu_ctrl_hdr VIRTIO_GPU_CMD_RESOURCE_CREATE_2D @
     le32_bytes rid @ le32_bytes fmt @ le32_bytes w @ le32_bytes h"

definition resource_attach_backing :: "u32 \<Rightarrow> u32 \<Rightarrow> u64 \<Rightarrow> u32 \<Rightarrow> u8 list" where
  "resource_attach_backing rid nr addr len = virtio_gpu_ctrl_hdr VIRTIO_GPU_CMD_RESOURCE_ATTACH_BACKING @
     le32_bytes rid @ le32_bytes nr @ le64_bytes addr @ le32_bytes len @ le32_bytes 0"

definition set_scanout :: "u32 \<Rightarrow> u32 \<Rightarrow> u32 \<Rightarrow> u32 \<Rightarrow> u8 list" where
  "set_scanout w h scanout rid = virtio_gpu_ctrl_hdr VIRTIO_GPU_CMD_SET_SCANOUT @
     virtio_gpu_rect 0 0 w h @ le32_bytes scanout @ le32_bytes rid"

definition transfer_to_host_2d :: "u32 \<Rightarrow> u32 \<Rightarrow> u32 \<Rightarrow> u32 \<Rightarrow> u64 \<Rightarrow> u32 \<Rightarrow> u8 list" where
  "transfer_to_host_2d x y w h off rid = virtio_gpu_ctrl_hdr VIRTIO_GPU_CMD_TRANSFER_TO_HOST_2D @
     virtio_gpu_rect x y w h @ le64_bytes off @ le32_bytes rid @ le32_bytes 0"

definition resource_flush :: "u32 \<Rightarrow> u32 \<Rightarrow> u32 \<Rightarrow> u32 \<Rightarrow> u32 \<Rightarrow> u8 list" where
  "resource_flush x y w h rid = virtio_gpu_ctrl_hdr VIRTIO_GPU_CMD_RESOURCE_FLUSH @
     virtio_gpu_rect x y w h @ le32_bytes rid @ le32_bytes 0"

section \<open>One command\<close>

text \<open>Storing a whole descriptor; outside the table it is undefined.\<close>

definition set_desc :: "u16 \<Rightarrow> virtq_desc \<Rightarrow> virtq \<times> mach \<Rightarrow> (virtq \<times> mach) option" where
  "set_desc i d = (\<lambda>(q, m).
     if unat i < length (desc q)
     then Some (q\<lparr>desc := (desc q)[unat i := d]\<rparr>,
       emits [Wr64 (desc_slot q i) (d_addr d), Wr32 (desc_slot q i + 8) (d_len d),
              Wr16 (desc_slot q i + 12) (d_flags d), Wr16 (desc_slot q i + 14) (d_next d)] m)
     else None)"

partial_function (option) gpu_wait :: "env \<Rightarrow> virtq \<times> mach \<Rightarrow> (u32 \<times> virtq \<times> mach) option" where
  "gpu_wait E s = (case virtq_used_pop E s of
     (None, s) \<Rightarrow> gpu_wait E s | (Some (cid, clen), s) \<Rightarrow> Some (clen, s))"

definition gpu_cmd_sync ::
  "env \<Rightarrow> u8 list \<Rightarrow> u8 list \<Rightarrow> virtio_gpu \<times> mach \<Rightarrow> (bool \<times> u8 list \<times> virtio_gpu \<times> mach) option" where
  "gpu_cmd_sync E req rsp = (\<lambda>(vg, m).
     let (head, q) = virtq_alloc_desc (controlq vg);
         (rid, q) = virtq_alloc_desc q in
     if head = 0xFFFF \<or> rid = 0xFFFF
     then do {
       (q, m) \<leftarrow> (if rid \<noteq> 0xFFFF then virtq_free_desc rid (q, m) else Some (q, m));
       (q, m) \<leftarrow> (if head \<noteq> 0xFFFF then virtq_free_desc head (q, m) else Some (q, m));
       Some (False, rsp, vg\<lparr>controlq := q\<rparr>, m) }
     else do {
       let m = copy_out (req_buf vg) req m;
       (q, m) \<leftarrow> set_desc head \<lparr>d_addr = req_buf vg, d_len = of_nat (length req),
         d_flags = VIRTQ_DESC_F_NEXT, d_next = rid\<rparr> (q, m);
       (q, m) \<leftarrow> set_desc rid \<lparr>d_addr = rsp_buf vg, d_len = of_nat (length rsp),
         d_flags = VIRTQ_DESC_F_WRITE, d_next = 0\<rparr> (q, m);
       let (q, m) = virtq_avail_push head (q, m);
       let m = virtio_notify (vg_dev vg) 0 m;
       (clen, q, m) \<leftarrow> gpu_wait E (q, m);
       let n = min (unat clen) (length rsp);
       let (bs, m) = copy_in E (rsp_buf vg) n m;
       let rsp = bs @ drop n rsp;
       (q, m) \<leftarrow> virtq_free_desc rid (q, m);
       (q, m) \<leftarrow> virtq_free_desc head (q, m);
       let vg = vg\<lparr>controlq := q\<rparr>;
       Some (if length rsp \<ge> 24 \<and> le32_at rsp 0 \<noteq> VIRTIO_GPU_RESP_OK_NODATA
                \<and> le32_at rsp 0 \<noteq> VIRTIO_GPU_RESP_OK_DISPLAY_INFO then False else True, rsp, vg, m) })"

section \<open>Mode set and presentation\<close>

definition first_gpu :: "u64 \<Rightarrow> u32 \<Rightarrow> bool" where
  "first_gpu b uid = (uid = VIRTIO_ID_GPU)"

definition virtio_gpu_resp_display_info :: nat where
  "virtio_gpu_resp_display_info = 24 + VIRTIO_GPU_MAX_SCANOUTS * 24"

text \<open>The mode the driver asks for, from the host's answer.\<close>

definition gpu_mode :: "u8 list \<Rightarrow> u32 \<Rightarrow> u32 \<Rightarrow> u32 \<times> u32" where
  "gpu_mode di w h =
     (if le32_at di 40 \<noteq> 0 \<and> le32_at di 32 \<noteq> 0
      then (if w > le32_at di 32 then le32_at di 32 else w, if h > le32_at di 36 then le32_at di 36 else h)
      else (w, h))"

text \<open>The four commands after the queue is up; \<open>ok\<close> is the uninitialised response header.\<close>

definition gpu_mode_set ::
  "env \<Rightarrow> u32 \<Rightarrow> u32 \<Rightarrow> u8 list \<Rightarrow> virtio_gpu \<times> mach \<Rightarrow> (bool \<times> virtio_gpu \<times> mach) option" where
  "gpu_mode_set E want_w want_h ok = (\<lambda>(vg, m). do {
     (r, di, vg, m) \<leftarrow> gpu_cmd_sync E (virtio_gpu_ctrl_hdr VIRTIO_GPU_CMD_GET_DISPLAY_INFO)
       (replicate virtio_gpu_resp_display_info 0) (vg, m);
     if \<not> r then Some (False, vg, m)
     else do {
       let (w, h) = gpu_mode di want_w want_h;
       if ucast (w * h * 4) > VIRTIO_GPU_VRAM_BYTES then Some (False, vg, m)
       else do {
         let vg = vg\<lparr>vg_width := w, vg_height := h, resource_id := 1\<rparr>;
         (r, ok, vg, m) \<leftarrow> gpu_cmd_sync E
           (resource_create_2d (resource_id vg) VIRTIO_GPU_FORMAT_B8G8R8X8_UNORM w h) ok (vg, m);
         if \<not> r then Some (False, vg, m)
         else do {
           (r, ok, vg, m) \<leftarrow> gpu_cmd_sync E
             (resource_attach_backing (resource_id vg) 1 (vg_vram vg) (w * h * 4)) ok (vg, m);
           if \<not> r then Some (False, vg, m)
           else do {
             (r, ok, vg, m) \<leftarrow> gpu_cmd_sync E (set_scanout w h 0 (resource_id vg)) ok (vg, m);
             Some (r, vg, m) } } } } })"

definition virtio_gpu_init_fdt ::
  "env \<Rightarrow> mem \<Rightarrow> fdt \<Rightarrow> u32 \<Rightarrow> u32 \<Rightarrow> u8 list \<Rightarrow> virtio_gpu \<times> mach \<Rightarrow> (bool \<times> virtio_gpu \<times> mach) option" where
  "virtio_gpu_init_fdt E M fdt want_w want_h ok = (\<lambda>(vg, m). do {
     (b, m) \<leftarrow> virtio_find_fdt E M fdt first_gpu m;
     if b = 0 then Some (False, vg, m)
     else do {
       (r, dev, m) \<leftarrow> virtio_init E b 0 0 m;
       let vg = vg\<lparr>vg_dev := dev\<rparr>;
       if \<not> r then Some (False, vg, m)
       else do {
         let (r, q, m) = virtio_queue_setup E dev 0 (controlq vg) VIRTIO_GPU_QSIZE
           (vg_desc vg) (vg_avail_buf vg) (vg_used_buf vg) m;
         if \<not> r then Some (False, vg\<lparr>controlq := q\<rparr>, m)
         else do {
           (q, m) \<leftarrow> virtq_free_init (q, m);
           let m = virtio_finalize dev m;
           gpu_mode_set E want_w want_h ok (vg\<lparr>controlq := q\<rparr>, m) } } } })"

definition virtio_gpu_present ::
  "env \<Rightarrow> u32 \<Rightarrow> u32 \<Rightarrow> u32 \<Rightarrow> u32 \<Rightarrow> u8 list \<Rightarrow> virtio_gpu \<times> mach \<Rightarrow> (bool \<times> virtio_gpu \<times> mach) option" where
  "virtio_gpu_present E x y w h ok = (\<lambda>(vg, m).
     if resource_id vg = 0 then Some (False, vg, m)
     else if x \<ge> vg_width vg \<or> y \<ge> vg_height vg then Some (True, vg, m)
     else
       (let w = (if x + w > vg_width vg then vg_width vg - x else w);
            h = (if y + h > vg_height vg then vg_height vg - y else h) in
        if w = 0 \<or> h = 0 then Some (True, vg, m)
        else do {
          (r, ok, vg, m) \<leftarrow> gpu_cmd_sync E
            (transfer_to_host_2d x y w h (ucast (y * vg_width vg + x) * 4) (resource_id vg)) ok (vg, m);
          if \<not> r then Some (False, vg, m)
          else do {
            (r, ok, vg, m) \<leftarrow> gpu_cmd_sync E (resource_flush x y w h (resource_id vg)) ok (vg, m);
            Some (r, vg, m) } }))"

end
