(* ===== verification/Gfx.thy ===== *)
theory Gfx
  imports StringC Pci Gpu
begin

text \<open>
  The display drivers: the Bochs display \<open>src/bochs.c\<close> and the unified surface \<open>src/gfx.c\<close>
  with its three backends.  Pixels are 32-bit words of byte-addressed memory, so the fast
  paths of the row fill (\<open>memset\<close> of the library, pairs of pixels, single pixels) are the
  stores of the code at their real addresses.  Register accesses and the commands of the
  virtio backend go to the trace of the hart.
\<close>

section \<open>Pixels\<close>

definition store32 :: "mem \<Rightarrow> u64 \<Rightarrow> u32 \<Rightarrow> mem" where
  "store32 M a v = M(a := ucast v, a + 1 := ucast (drop_bit 8 v), a + 2 := ucast (drop_bit 16 v),
     a + 3 := ucast (drop_bit 24 v))"

text \<open>\<open>for\<close> loops that store the same pixel \<open>n\<close> times from \<open>p\<close> on, with 32-bit and with
  64-bit stores.\<close>

fun fill_px :: "u64 \<Rightarrow> u32 \<Rightarrow> nat \<Rightarrow> mem \<Rightarrow> mem" where
  "fill_px p c 0 M = M"
| "fill_px p c (Suc n) M = fill_px (p + 4) c n (store32 M p c)"

fun fill_pairs :: "u64 \<Rightarrow> u64 \<Rightarrow> nat \<Rightarrow> mem \<Rightarrow> mem" where
  "fill_pairs p c 0 M = M"
| "fill_pairs p c (Suc n) M = fill_pairs (p + 8) c n (StringC.store64 M p c)"

text \<open>A C string in memory; it has no value when memory holds no terminator.\<close>

partial_function (option) cstr :: "mem \<Rightarrow> u64 \<Rightarrow> u8 list option" where
  "cstr M a = (if M a = 0 then Some [] else do { s \<leftarrow> cstr M (a + 1); Some (M a # s) })"

section \<open>The Bochs display\<close>

definition RVVM_PCI_ID_BOCHS_DISPLAY :: u32 where "RVVM_PCI_ID_BOCHS_DISPLAY = 0x11111234"
definition BOCHS_REG_ID :: u32 where "BOCHS_REG_ID = 0x0500"
definition BOCHS_REG_XRES :: u32 where "BOCHS_REG_XRES = 0x0502"
definition BOCHS_REG_YRES :: u32 where "BOCHS_REG_YRES = 0x0504"
definition BOCHS_REG_BPP :: u32 where "BOCHS_REG_BPP = 0x0506"
definition BOCHS_REG_ENABLE :: u32 where "BOCHS_REG_ENABLE = 0x0508"
definition BOCHS_REG_VIRT_WIDTH :: u32 where "BOCHS_REG_VIRT_WIDTH = 0x050C"
definition BOCHS_REG_VIRT_HEIGHT :: u32 where "BOCHS_REG_VIRT_HEIGHT = 0x050E"
definition BOCHS_REG_X_OFFSET :: u32 where "BOCHS_REG_X_OFFSET = 0x0510"
definition BOCHS_REG_Y_OFFSET :: u32 where "BOCHS_REG_Y_OFFSET = 0x0512"
definition BOCHS_ENABLE :: u16 where "BOCHS_ENABLE = 0x01"
definition RVVM_BOCHS_VRAM_SIZE :: u32 where "RVVM_BOCHS_VRAM_SIZE = 0x01000000"

record bochs =
  bd_vram :: u64
  bd_vram_base :: u64
  bd_regs :: u64
  bd_width :: u32
  bd_height :: u32
  bd_stride_px :: u32
  back_off_rows :: u32
  double_buffered :: bool

definition bochs_r16 :: "env \<Rightarrow> u64 \<Rightarrow> u32 \<Rightarrow> mach \<Rightarrow> u16 \<times> mach" where
  "bochs_r16 E b off m = mmio_r16 E (b + ucast off) m"
definition bochs_w16 :: "u64 \<Rightarrow> u32 \<Rightarrow> u16 \<Rightarrow> mach \<Rightarrow> mach" where
  "bochs_w16 b off v m = mmio_w16 (b + ucast off) v m"

definition bochs_none_msg :: "u8 list" where
  "bochs_none_msg = bytes_of ''bochs: device not found '' @ [0xE2, 0x80, 0x94] @
     bytes_of ('' was RVVM started with -bochs_display?'' @ [CHR 0x0A])"

definition bochs_mode_set :: "bochs \<Rightarrow> mach \<Rightarrow> mach" where
  "bochs_mode_set bd m =
     (let b = bd_regs bd; w = bd_width bd; h = bd_height bd;
          m = bochs_w16 b BOCHS_REG_ENABLE 0 m;
          m = bochs_w16 b BOCHS_REG_XRES (ucast w) m;
          m = bochs_w16 b BOCHS_REG_YRES (ucast h) m;
          m = bochs_w16 b BOCHS_REG_BPP 32 m;
          m = bochs_w16 b BOCHS_REG_VIRT_WIDTH (ucast w) m;
          m = bochs_w16 b BOCHS_REG_VIRT_HEIGHT (ucast h) m;
          m = bochs_w16 b BOCHS_REG_X_OFFSET 0 m;
          m = bochs_w16 b BOCHS_REG_Y_OFFSET 0 m
      in bochs_w16 b BOCHS_REG_ENABLE BOCHS_ENABLE m)"

definition bochs_init ::
  "env \<Rightarrow> u64 \<Rightarrow> u64 \<Rightarrow> u32 \<Rightarrow> u32 \<Rightarrow> bochs \<times> mach \<Rightarrow> (bool \<times> bochs \<times> mach) option" where
  "bochs_init E ub ecam w h = (\<lambda>(bd, m). do {
     (f, m) \<leftarrow> pci_find_device E ecam RVVM_PCI_ID_BOCHS_DISPLAY m;
     case f of None \<Rightarrow> do { m \<leftarrow> uart_puts E ub bochs_none_msg m; Some (False, bd, m) }
     | Some f \<Rightarrow>
         (let (f, m) = pci_setup_bars E f m in
          if pci_func.bar f ! 0 = 0 \<or> pci_func.bar f ! 2 = 0
          then do {
            m \<leftarrow> uart_printf E ub (''bochs: BAR layout wrong: bar0=%p bar2=%p'' @ [CHR 0x0A])
              [VWord (pci_func.bar f ! 0), VWord (pci_func.bar f ! 2)] m;
            Some (False, bd, m) }
          else
            (let bd = bd\<lparr>bd_vram := pci_func.bar f ! 0, bd_vram_base := pci_func.bar f ! 0, bd_regs := pci_func.bar f ! 2,
                   bd_width := w, bd_height := h, bd_stride_px := w, back_off_rows := 0, double_buffered := False\<rparr>
             in do {
               m \<leftarrow> uart_printf E ub (''bochs: %u:%u.%u  vram=%p (%u KiB)  regs=%p'' @ [CHR 0x0A])
                 [VWord (ucast (p_bus f)), VWord (ucast (p_dev f)), VWord (ucast (p_func f)),
                  VWord (pci_func.bar f ! 0), VWord (drop_bit 10 (bar_size f ! 0)), VWord (pci_func.bar f ! 2)] m;
               let (uid, m) = bochs_r16 E (bd_regs bd) BOCHS_REG_ID m;
               if uid AND 0xFFF0 \<noteq> 0xB0C0
               then do {
                 m \<leftarrow> uart_printf E ub (''bochs: bad ID 0x%x at regs+0x500, refusing init'' @ [CHR 0x0A])
                   [VWord (ucast uid)] m;
                 Some (False, bd, m) }
               else Some (True, bd, bochs_mode_set bd m) })) })"

definition bochs_enable_double_buffer ::
  "env \<Rightarrow> u64 \<Rightarrow> bochs \<times> mach \<Rightarrow> (bool \<times> bochs \<times> mach) option" where
  "bochs_enable_double_buffer E ub = (\<lambda>(bd, m).
     if double_buffered bd then Some (True, bd, m)
     else
       (let per_frame_bytes = ucast (bd_stride_px bd) * ucast (bd_height bd) * 4 :: u64 in
        if per_frame_bytes * 2 > ucast RVVM_BOCHS_VRAM_SIZE
        then do {
          m \<leftarrow> uart_printf E ub (''bochs: VRAM too small for double-buffer at %ux%u '' @
              ''(needs %u KiB, have %u KiB)'' @ [CHR 0x0A])
            [VWord (ucast (bd_width bd)), VWord (ucast (bd_height bd)), VWord (drop_bit 10 (per_frame_bytes * 2)),
             VWord (drop_bit 10 (ucast RVVM_BOCHS_VRAM_SIZE))] m;
          Some (False, bd, m) }
        else
          (let m = bochs_w16 (bd_regs bd) BOCHS_REG_VIRT_HEIGHT (ucast (bd_height bd * 2)) m;
               m = bochs_w16 (bd_regs bd) BOCHS_REG_Y_OFFSET 0 m
           in Some (True, bd\<lparr>back_off_rows := bd_height bd,
                bd_vram := bd_vram_base bd + 4 * (ucast (bd_stride_px bd) * ucast (bd_height bd)),
                double_buffered := True\<rparr>, m))))"

definition bochs_flip :: "bochs \<times> mach \<Rightarrow> bochs \<times> mach" where
  "bochs_flip = (\<lambda>(bd, m).
     if \<not> double_buffered bd then (bd, m)
     else
       (let m = bochs_w16 (bd_regs bd) BOCHS_REG_Y_OFFSET (ucast (back_off_rows bd)) m;
            bd = bd\<lparr>back_off_rows := (if back_off_rows bd \<noteq> 0 then 0 else bd_height bd)\<rparr>
        in (bd\<lparr>bd_vram := bd_vram_base bd + 4 * (ucast (bd_stride_px bd) * ucast (back_off_rows bd))\<rparr>, m)))"

definition bochs_fill :: "bochs \<Rightarrow> u32 \<Rightarrow> mem \<Rightarrow> mem" where
  "bochs_fill bd color M = fill_px (bd_vram bd) color (unat (bd_width bd * bd_height bd)) M"

definition bochs_pixel :: "bochs \<Rightarrow> u32 \<Rightarrow> u32 \<Rightarrow> u32 \<Rightarrow> mem \<Rightarrow> mem" where
  "bochs_pixel bd x y c M = store32 M (bd_vram bd + 4 * ucast (y * bd_stride_px bd + x)) c"

definition bochs_rect :: "bochs \<Rightarrow> u32 \<Rightarrow> u32 \<Rightarrow> u32 \<Rightarrow> u32 \<Rightarrow> u32 \<Rightarrow> mem \<Rightarrow> mem" where
  "bochs_rect bd x y w h color M =
     (if x \<ge> bd_width bd \<or> y \<ge> bd_height bd then M
      else
        (let w = (if x + w > bd_width bd then bd_width bd - x else w);
             h = (if y + h > bd_height bd then bd_height bd - y else h)
         in fold (\<lambda>row. fill_px (bd_vram bd + 4 * ucast ((y + of_nat row) * bd_stride_px bd + x)) color (unat w))
              [0..<unat h] M))"

section \<open>The unified surface\<close>

datatype gfx_backend = GFX_BACKEND_NONE | GFX_BACKEND_BOCHS | GFX_BACKEND_SIMPLEFB | GFX_BACKEND_VIRTIO_GPU
datatype gfx_format = GFX_FMT_XRGB8888 | GFX_FMT_XBGR8888

record gfx =
  g_vram :: u64
  g_width :: u32
  g_height :: u32
  g_stride_px :: u32
  backend :: gfx_backend
  g_format :: gfx_format

text \<open>The driver singletons of the file.\<close>

record gfx_drv =
  gfx_vgpu :: virtio_gpu
  gfx_vgpu_active :: bool
  gfx_bd :: bochs
  gfx_bd_active :: bool

definition simplefb_format :: "mem \<Rightarrow> u64 \<Rightarrow> gfx_format option" where
  "simplefb_format M fmt =
     (if str_eq M fmt (bytes_of ''a8r8g8b8'') then Some GFX_FMT_XRGB8888
      else if str_eq M fmt (bytes_of ''a8b8g8r8'') then Some GFX_FMT_XBGR8888 else None)"

definition gfx_simplefb_from_fdt ::
  "env \<Rightarrow> u64 \<Rightarrow> mem \<Rightarrow> fdt \<Rightarrow> gfx \<times> mach \<Rightarrow> (bool \<times> gfx \<times> mach) option" where
  "gfx_simplefb_from_fdt E ub M fdt = (\<lambda>(g, m). do {
     off \<leftarrow> fdt_find_compatible M fdt (bytes_of ''simple-framebuffer'');
     if off = UINT32_MAX then Some (False, g, m)
     else do {
       reg \<leftarrow> fdt_node_reg64 M fdt off 0;
       case reg of None \<Rightarrow> Some (False, g, m)
       | Some (addr, sz) \<Rightarrow> do {
           w_p \<leftarrow> fdt_node_prop M fdt off (bytes_of ''width'');
           h_p \<leftarrow> fdt_node_prop M fdt off (bytes_of ''height'');
           s_p \<leftarrow> fdt_node_prop M fdt off (bytes_of ''stride'');
           fmt \<leftarrow> fdt_node_prop M fdt off (bytes_of ''format'');
           case (w_p, h_p, s_p, fmt) of (Some (w_p, _), Some (h_p, _), Some (s_p, _), Some (fmt, _)) \<Rightarrow>
             (let w = fdt_read_be32 M w_p 0; h = fdt_read_be32 M h_p 0; stride = fdt_read_be32 M s_p 0 in
              if stride < w * 4 \<or> stride AND 3 \<noteq> 0
              then do {
                m \<leftarrow> uart_printf E ub (''gfx: simplefb stride=%u not 32-bit-pixel-aligned (w=%u)'' @ [CHR 0x0A])
                  [VWord (ucast stride), VWord (ucast w)] m;
                Some (False, g, m) }
              else do {
                fs \<leftarrow> cstr M fmt;
                case simplefb_format M fmt of
                  None \<Rightarrow> do {
                    m \<leftarrow> uart_printf E ub (''gfx: simplefb format='' @ [CHR 0x27] @ ''%s'' @ [CHR 0x27] @
                      '' not 32-bit RGB; refusing'' @ [CHR 0x0A]) [VStr fs] m;
                    Some (False, g, m) }
                | Some format \<Rightarrow> do {
                    let g = g\<lparr>g_vram := addr, g_width := w, g_height := h, g_stride_px := stride div 4,
                              backend := GFX_BACKEND_SIMPLEFB, g_format := format\<rparr>;
                    m \<leftarrow> uart_printf E ub (''gfx: simple-framebuffer @ %p  %ux%u  stride=%u px  fmt=%s'' @ [CHR 0x0A])
                      [VWord addr, VWord (ucast w), VWord (ucast h), VWord (ucast (stride div 4)), VStr fs] m;
                    Some (True, g, m) } })
           | _ \<Rightarrow> do {
               m \<leftarrow> uart_puts E ub (bytes_of (''gfx: simple-framebuffer node missing required props'' @ [CHR 0x0A])) m;
               Some (False, g, m) } } } })"

definition gfx_bochs_init ::
  "env \<Rightarrow> u64 \<Rightarrow> u64 \<Rightarrow> u32 \<Rightarrow> u32 \<Rightarrow> gfx \<times> gfx_drv \<times> mach \<Rightarrow> (bool \<times> gfx \<times> gfx_drv \<times> mach) option" where
  "gfx_bochs_init E ub ecam w h = (\<lambda>(g, D, m). do {
     (f, m) \<leftarrow> pci_find_device E ecam RVVM_PCI_ID_BOCHS_DISPLAY m;
     case f of None \<Rightarrow> Some (False, g, D, m)
     | Some _ \<Rightarrow> do {
         (ok, bd, m) \<leftarrow> bochs_init E ub ecam w h (gfx_bd D, m);
         let D = D\<lparr>gfx_bd := bd\<rparr>;
         Some (if \<not> ok then (False, g, D, m)
           else (True, g\<lparr>g_vram := bd_vram bd, g_width := bd_width bd, g_height := bd_height bd,
                   g_stride_px := bd_stride_px bd, backend := GFX_BACKEND_BOCHS, g_format := GFX_FMT_XRGB8888\<rparr>,
                 D\<lparr>gfx_bd_active := True\<rparr>, m)) } })"

definition gfx_init ::
  "env \<Rightarrow> u64 \<Rightarrow> u64 \<Rightarrow> u32 \<Rightarrow> u32 \<Rightarrow> gfx \<times> gfx_drv \<times> mach \<Rightarrow> (bool \<times> gfx \<times> gfx_drv \<times> mach) option" where
  "gfx_init E ub ecam w h = (\<lambda>(g, D, m). do {
     let g = g\<lparr>backend := GFX_BACKEND_NONE\<rparr>;
     (ok, g, D, m) \<leftarrow> gfx_bochs_init E ub ecam w h (g, D, m);
     if ok then Some (True, g, D, m)
     else do {
       m \<leftarrow> uart_puts E ub
         (bytes_of (''gfx: no Bochs Display; pass FDT to gfx_init_fdt() to try simplefb'' @ [CHR 0x0A])) m;
       Some (False, g, D, m) } })"

definition gfx_virtio_gpu_init ::
  "env \<Rightarrow> mem \<Rightarrow> fdt \<Rightarrow> u32 \<Rightarrow> u32 \<Rightarrow> u8 list \<Rightarrow> gfx \<times> gfx_drv \<times> mach \<Rightarrow>
   (bool \<times> gfx \<times> gfx_drv \<times> mach) option" where
  "gfx_virtio_gpu_init E M fdt w h okb = (\<lambda>(g, D, m). do {
     (ok, vg, m) \<leftarrow> virtio_gpu_init_fdt E M fdt w h okb (gfx_vgpu D, m);
     let D = D\<lparr>gfx_vgpu := vg\<rparr>;
     Some (if \<not> ok then (False, g, D, m)
       else (True, g\<lparr>g_vram := vg_vram vg, g_width := vg_width vg, g_height := vg_height vg,
               g_stride_px := vg_width vg, backend := GFX_BACKEND_VIRTIO_GPU, g_format := GFX_FMT_XRGB8888\<rparr>,
             D\<lparr>gfx_vgpu_active := True\<rparr>, m)) })"

definition gfx_init_fdt ::
  "env \<Rightarrow> u64 \<Rightarrow> u64 \<Rightarrow> mem \<Rightarrow> fdt \<Rightarrow> u32 \<Rightarrow> u32 \<Rightarrow> u8 list \<Rightarrow> gfx \<times> gfx_drv \<times> mach \<Rightarrow>
   (bool \<times> gfx \<times> gfx_drv \<times> mach) option" where
  "gfx_init_fdt E ub ecam M fdt w h okb = (\<lambda>(g, D, m). do {
     let g = g\<lparr>backend := GFX_BACKEND_NONE\<rparr>;
     (ok, g, D, m) \<leftarrow> gfx_bochs_init E ub ecam w h (g, D, m);
     if ok then Some (True, g, D, m)
     else do {
       (ok, g, m) \<leftarrow> gfx_simplefb_from_fdt E ub M fdt (g, m);
       if ok then Some (True, g, D, m)
       else do {
         (ok, g, D, m) \<leftarrow> gfx_virtio_gpu_init E M fdt w h okb (g, D, m);
         if ok then Some (True, g, D, m)
         else do {
           m \<leftarrow> uart_puts E ub (bytes_of (''gfx: no graphics surface found '' @
             ''(try -bochs_display, -res WxH, or QEMU -device virtio-gpu-device)'' @ [CHR 0x0A])) m;
           Some (False, g, D, m) } } } })"

section \<open>Drawing\<close>

definition gfx_fill_row :: "u64 \<Rightarrow> u32 \<Rightarrow> u32 \<Rightarrow> mem \<Rightarrow> mem" where
  "gfx_fill_row p w pix M =
     (let b0 = ucast pix :: u8 in
      if drop_bit 8 pix AND 0xFF = ucast b0 \<and> drop_bit 16 pix AND 0xFF = ucast b0
         \<and> drop_bit 24 pix AND 0xFF = ucast b0
      then snd (memset p (ucast b0) (ucast w * 4) M)
      else
        (let (p, w, M) = (if p AND 7 \<noteq> 0 \<and> w \<noteq> 0 then (p + 4, w - 1, store32 M p pix) else (p, w, M));
             pix64 = push_bit 32 (ucast pix) OR ucast pix :: u64;
             pairs = drop_bit 1 w;
             M = fill_pairs p pix64 (unat pairs) M
         in if w AND 1 \<noteq> 0 then store32 M (p + 8 * ucast pairs) pix else M))"

text \<open>The colour as the surface stores it.\<close>

definition gfx_swizzle :: "gfx_format \<Rightarrow> u32 \<Rightarrow> u32" where
  "gfx_swizzle f color =
     (case f of GFX_FMT_XBGR8888 \<Rightarrow>
        (let r = drop_bit 16 color AND 0xFF; b = color AND 0xFF
         in (color AND 0xFF00FF00) OR push_bit 16 b OR r)
      | GFX_FMT_XRGB8888 \<Rightarrow> color)"

definition gfx_present ::
  "env \<Rightarrow> u8 list \<Rightarrow> gfx \<Rightarrow> u32 \<Rightarrow> u32 \<Rightarrow> u32 \<Rightarrow> u32 \<Rightarrow> gfx_drv \<times> mach \<Rightarrow> (gfx_drv \<times> mach) option" where
  "gfx_present E okb g x y w h = (\<lambda>(D, m).
     if backend g \<noteq> GFX_BACKEND_VIRTIO_GPU \<or> \<not> gfx_vgpu_active D then Some (D, m)
     else do { (ok, vg, m) \<leftarrow> virtio_gpu_present E x y w h okb (gfx_vgpu D, m);
               Some (D\<lparr>gfx_vgpu := vg\<rparr>, m) })"

definition gfx_present_all ::
  "env \<Rightarrow> u8 list \<Rightarrow> gfx \<Rightarrow> gfx_drv \<times> mach \<Rightarrow> (gfx_drv \<times> mach) option" where
  "gfx_present_all E okb g s = gfx_present E okb g 0 0 (g_width g) (g_height g) s"

definition gfx_enable_double_buffer ::
  "env \<Rightarrow> u64 \<Rightarrow> gfx \<times> gfx_drv \<times> mach \<Rightarrow> (bool \<times> gfx \<times> gfx_drv \<times> mach) option" where
  "gfx_enable_double_buffer E ub = (\<lambda>(g, D, m).
     case backend g of
       GFX_BACKEND_BOCHS \<Rightarrow>
         if \<not> gfx_bd_active D then Some (False, g, D, m)
         else do {
           (ok, bd, m) \<leftarrow> bochs_enable_double_buffer E ub (gfx_bd D, m);
           let D = D\<lparr>gfx_bd := bd\<rparr>;
           Some (if \<not> ok then (False, g, D, m) else (True, g\<lparr>g_vram := bd_vram bd\<rparr>, D, m)) }
     | GFX_BACKEND_VIRTIO_GPU \<Rightarrow> Some (True, g, D, m)
     | GFX_BACKEND_SIMPLEFB \<Rightarrow> do {
         m \<leftarrow> uart_puts E ub (bytes_of (''gfx: double-buffer not supported on simple-framebuffer'' @ [CHR 0x0A])) m;
         Some (False, g, D, m) }
     | GFX_BACKEND_NONE \<Rightarrow> Some (False, g, D, m))"

definition gfx_flip ::
  "env \<Rightarrow> u8 list \<Rightarrow> gfx \<times> gfx_drv \<times> mach \<Rightarrow> (gfx \<times> gfx_drv \<times> mach) option" where
  "gfx_flip E okb = (\<lambda>(g, D, m).
     case backend g of
       GFX_BACKEND_BOCHS \<Rightarrow>
         if gfx_bd_active D \<and> double_buffered (gfx_bd D)
         then (let (bd, m) = bochs_flip (gfx_bd D, m) in Some (g\<lparr>g_vram := bd_vram bd\<rparr>, D\<lparr>gfx_bd := bd\<rparr>, m))
         else Some (g, D, m)
     | GFX_BACKEND_VIRTIO_GPU \<Rightarrow>
         if gfx_vgpu_active D
         then do { (ok, vg, m) \<leftarrow> virtio_gpu_present E 0 0 (g_width g) (g_height g) okb (gfx_vgpu D, m);
                   Some (g, D\<lparr>gfx_vgpu := vg\<rparr>, m) }
         else Some (g, D, m)
     | _ \<Rightarrow> Some (g, D, m))"

text \<open>\<open>n\<close> rows of \<open>w\<close> pixels, \<open>stride\<close> pixels apart.\<close>

fun fill_rows :: "u64 \<Rightarrow> u32 \<Rightarrow> u32 \<Rightarrow> u32 \<Rightarrow> nat \<Rightarrow> mem \<Rightarrow> mem" where
  "fill_rows p stride w pix 0 M = M"
| "fill_rows p stride w pix (Suc n) M = fill_rows (p + 4 * ucast stride) stride w pix n (gfx_fill_row p w pix M)"

definition gfx_fill ::
  "env \<Rightarrow> u8 list \<Rightarrow> gfx \<Rightarrow> u32 \<Rightarrow> mem \<times> gfx_drv \<times> mach \<Rightarrow> (mem \<times> gfx_drv \<times> mach) option" where
  "gfx_fill E okb g color = (\<lambda>(M, D, m).
     if backend g = GFX_BACKEND_NONE then Some (M, D, m)
     else
       (let pix = gfx_swizzle (g_format g) color;
            M = (if g_stride_px g = g_width g then gfx_fill_row (g_vram g) (g_width g * g_height g) pix M
                 else fill_rows (g_vram g) (g_stride_px g) (g_width g) pix (unat (g_height g)) M)
        in do { (D, m) \<leftarrow> gfx_present E okb g 0 0 (g_width g) (g_height g) (D, m); Some (M, D, m) }))"

definition gfx_pixel :: "gfx \<Rightarrow> u32 \<Rightarrow> u32 \<Rightarrow> u32 \<Rightarrow> mem \<Rightarrow> mem" where
  "gfx_pixel g x y color M =
     store32 M (g_vram g + 4 * ucast (y * g_stride_px g + x)) (gfx_swizzle (g_format g) color)"

definition gfx_rect ::
  "env \<Rightarrow> u8 list \<Rightarrow> gfx \<Rightarrow> u32 \<Rightarrow> u32 \<Rightarrow> u32 \<Rightarrow> u32 \<Rightarrow> u32 \<Rightarrow> mem \<times> gfx_drv \<times> mach \<Rightarrow>
   (mem \<times> gfx_drv \<times> mach) option" where
  "gfx_rect E okb g x y w h color = (\<lambda>(M, D, m).
     if backend g = GFX_BACKEND_NONE then Some (M, D, m)
     else if x \<ge> g_width g \<or> y \<ge> g_height g then Some (M, D, m)
     else
       (let w = (if x + w > g_width g then g_width g - x else w);
            h = (if y + h > g_height g then g_height g - y else h);
            M = fill_rows (g_vram g + 4 * ucast (y * g_stride_px g + x)) (g_stride_px g) w
                  (gfx_swizzle (g_format g) color) (unat h) M
        in do { (D, m) \<leftarrow> gfx_present E okb g x y w h (D, m); Some (M, D, m) }))"

section \<open>What the fills store\<close>

text \<open>The bytes at distances below \<open>4 * n\<close> from \<open>p\<close> become those of \<open>n\<close> pixels \<open>v\<close>.\<close>

definition pix_byte :: "u32 \<Rightarrow> nat \<Rightarrow> u8" where
  "pix_byte v k = ucast (drop_bit (8 * k) v)"

definition fill32 :: "u64 \<Rightarrow> nat \<Rightarrow> u32 \<Rightarrow> mem \<Rightarrow> mem" where
  "fill32 p n v M = (\<lambda>a. if unat (a - p) < 4 * n then pix_byte v (unat (a - p) mod 4) else M a)"

lemma fill32_0 [simp]: "fill32 p 0 v M = M"
  by (simp add: fill32_def)

lemma unat_sub_cases:
  fixes x k :: u64
  shows "unat (x - k) = (if unat k \<le> unat x then unat x - unat k else unat x + 2 ^ 64 - unat k)"
proof (cases "unat k \<le> unat x")
  case False
  have "unat (x - k) = unat (x - k + k) + 2 ^ 64 - unat k"
    using False unat_plus_if' [of "x - k" k] unat_u64_less [of k] unat_u64_less [of "x - k"]
    by (simp split: if_splits)
  with False show ?thesis by simp
qed (simp add: unat_sub word_le_nat_alt)

lemma mod4_shift: "unat (x - of_nat (4 * k) :: u64) mod 4 = unat x mod 4"
proof -
  define t where "t = unat (of_nat (4 * k) :: u64)"
  have "t mod 4 = 0" unfolding t_def by (simp only: unat_of_nat) (simp add: mod_mod_cancel)
  then obtain q where t: "t = 4 * q" by auto
  have m: "(y - 4 * q) mod 4 = y mod 4" if "4 * q \<le> y" for y
  proof -
    have "(y - 4 * q + 4 * q) mod 4 = (y - 4 * q) mod 4" by (rule mod_mult_self2)
    with that show ?thesis by simp
  qed
  have "unat (x - of_nat (4 * k)) = (if 4 * q \<le> unat x then unat x - 4 * q else unat x + 2 ^ 64 - 4 * q)"
    using unat_sub_cases [of x "of_nat (4 * k)"] unfolding t_def [symmetric] t .
  moreover have "4 * q \<le> 2 ^ 64" using unat_u64_less [of "of_nat (4 * k)"] unfolding t_def [symmetric] t by simp
  moreover have "(unat x + 2 ^ 64) mod 4 = unat x mod 4" using mod_mult_self2 [of "unat x" 4 "2 ^ 62"] by simp
  ultimately show ?thesis using m [of "unat x"] m [of "unat x + 2 ^ 64"] by (simp split: if_splits)
qed

lemma fill32_append:
  assumes "4 * (i + n) \<le> 2 ^ 64"
  shows "fill32 (p + of_nat (4 * i)) n v (fill32 p i v M) = fill32 p (i + n) v M"
proof
  fix a
  define x where "x = a - p"
  have a: "a - (p + of_nat (4 * i)) = x - of_nat (4 * i)" by (simp add: x_def)
  have "unat x < 2 ^ 64" using unat_u64_less [of x] by simp
  moreover have "n = 0 \<or> unat (of_nat (4 * i) :: u64) = 4 * i"
    using assms unat_of_nat_small [of "4 * i", where 'a = 64] by (cases "n = 0") simp_all
  ultimately show "fill32 (p + of_nat (4 * i)) n v (fill32 p i v M) a = fill32 p (i + n) v M a"
    using assms mod4_shift [of x i] unat_sub_cases [of x "of_nat (4 * i)"]
    unfolding fill32_def a x_def [symmetric] by (auto split: if_splits)
qed

lemma store32_fill: "store32 M p v = fill32 p 1 v M"
proof
  fix a
  obtain i where x: "a = p + i" by (metis diff_add_cancel add.commute)
  show "store32 M p v a = fill32 p 1 v M a"
  proof (cases "unat i < 4")
    case True
    then have "unat i \<in> {0, 1, 2, 3}" by auto
    then have "(of_nat (unat i) :: u64) \<in> of_nat ` {0, 1, 2, 3}" by (rule imageI)
    then have "i \<in> {0, 1, 2, 3}" by simp
    then show ?thesis by (auto simp: store32_def fill32_def x pix_byte_def)
  next
    case False
    then have "i \<noteq> 0" "i \<noteq> 1" "i \<noteq> 2" "i \<noteq> 3" by auto
    with False show ?thesis by (simp add: store32_def fill32_def x)
  qed
qed

lemma pair_byte:
  assumes "k < 8"
  shows "ucast (drop_bit (8 * k) (push_bit 32 (ucast v) OR ucast v :: u64)) = pix_byte v (k mod 4)"
proof (rule bit_word_eqI)
  fix n assume "n < LENGTH(8)"
  then have "n < 8" by simp
  moreover have "k \<in> {0, 1, 2, 3, 4, 5, 6, 7}" using assms by auto
  ultimately show "bit (ucast (drop_bit (8 * k) (push_bit 32 (ucast v) OR ucast v :: u64)) :: u8) n = bit (pix_byte v (k mod 4)) n"
    by (auto simp: pix_byte_def bit_ucast_iff bit_drop_bit_eq bit_or_iff bit_push_bit_iff dest: bit_imp_le_length)
qed

lemma store64_pair: "StringC.store64 M p (push_bit 32 (ucast v) OR ucast v) = fill32 p 2 v M"
proof
  fix a
  have "a - p < 8 \<longleftrightarrow> unat (a - p) < 8" by (simp add: word_less_nat_alt)
  then show "StringC.store64 M p (push_bit 32 (ucast v) OR ucast v) a = fill32 p 2 v M a"
    by (simp add: store64_region fill32_def pair_byte del: drop_bit_or)
qed

lemma fill_pairs_fill:
  "8 * n \<le> 2 ^ 64 \<Longrightarrow> fill_pairs p (push_bit 32 (ucast v) OR ucast v) n M = fill32 p (2 * n) v M"
proof (induction n arbitrary: p M)
  case (Suc n)
  then show ?case using fill32_append [of 2 "2 * n" p v M] by (simp add: store64_pair)
qed simp

lemma fill_px_fill: "4 * n \<le> 2 ^ 64 \<Longrightarrow> fill_px p v n M = fill32 p n v M"
proof (induction n arbitrary: p M)
  case (Suc n)
  then show ?case using fill32_append [of 1 n p v M] by (simp add: store32_fill)
qed simp


lemma memset_pix:
  assumes "drop_bit 8 pix AND 0xFF = ucast (ucast pix :: u8)" "drop_bit 16 pix AND 0xFF = ucast (ucast pix :: u8)"
    "drop_bit 24 pix AND 0xFF = ucast (ucast pix :: u8)"
  shows "snd (memset p (ucast (ucast pix :: u8)) (ucast (w :: u32) * 4) M) = fill32 p (unat w) pix M"
proof -
  have byte: "ucast v = (ucast pix :: u8)" if "v AND 0xFF = ucast (ucast pix :: u8)" for v :: u32
    using low_byte(2) [of v] unfolding that by (simp add: ucast_ucast_up)
  have "ucast (drop_bit (8 * k) pix) = (ucast pix :: u8)" if "k < 4" for k
  proof -
    have "k = 0 \<or> k = 1 \<or> k = 2 \<or> k = 3" using that by linarith
    then show ?thesis using assms [THEN byte] by (elim disjE) simp_all
  qed
  then have b: "pix_byte pix (k mod 4) = ucast pix" for k by (simp add: pix_byte_def)
  have "unat (ucast w * 4 :: u64) = 4 * unat w"
    using unat_u32_less [of w] by (subst unat_mult_no_wrap) (simp_all add: unat_ucast_up)
  then show ?thesis
    by (auto simp: memset_spec fill_mem_def fill32_def b word_less_nat_alt ucast_ucast_down)
qed

lemma gfx_fill_row_fill: "gfx_fill_row p w pix M = fill32 p (unat w) pix M"
proof (cases "drop_bit 8 pix AND 0xFF = ucast (ucast pix :: u8) \<and> drop_bit 16 pix AND 0xFF = ucast (ucast pix :: u8)
    \<and> drop_bit 24 pix AND 0xFF = ucast (ucast pix :: u8)")
  case True
  then show ?thesis using memset_pix [of pix p w M] by (simp add: gfx_fill_row_def Let_def)
next
  case False
  have tail: "(let pairs = drop_bit 1 v; N = fill_pairs q (push_bit 32 (ucast pix) OR ucast pix) (unat pairs) N
      in if v AND 1 \<noteq> 0 then store32 N (q + 8 * ucast pairs) pix else N) = fill32 q (unat v) pix N" for q N and v :: u32
  proof -
    have d: "unat (drop_bit 1 v) = unat v div 2" by (simp add: unat_drop_bit)
    have q: "8 * ucast (drop_bit 1 v) = (of_nat (4 * (2 * (unat v div 2))) :: u64)"
      unfolding ucast_eq_of_nat d by simp
    have odd: "v AND 1 \<noteq> 0 \<longleftrightarrow> unat v mod 2 = 1"
      using unat_and_mask [of v 1] by (simp add: word_unat_eq_iff mask_eq_exp_minus_1)
    have "2 * (unat v div 2) \<le> unat v" by (simp add: times_div_less_eq_dividend)
    then have n: "8 * (unat v div 2) \<le> 2 ^ 64" "4 * (2 * (unat v div 2) + 1) \<le> 2 ^ 64"
      using unat_u32_less [of v] by (simp_all add: order_trans [of _ "4 * unat v"])
    have e: "unat v mod 2 = 1 \<Longrightarrow> 2 * (unat v div 2) + 1 = unat v" "unat v mod 2 \<noteq> 1 \<Longrightarrow> 2 * (unat v div 2) = unat v"
      using not_mod_2_eq_1_eq_0 [of "unat v"] by (auto simp: minus_mod_eq_mult_div [symmetric])
    show ?thesis
    proof (cases "unat v mod 2 = 1")
      case True
      then show ?thesis using fill32_append [OF n(2), of q pix N] e(1)
        by (simp only: Let_def d q odd store32_fill fill_pairs_fill [OF n(1)]) simp
    next
      case False
      then show ?thesis using e(2) by (simp only: Let_def d q odd fill_pairs_fill [OF n(1)]) simp
    qed
  qed
  show ?thesis
  proof (cases "p AND 7 \<noteq> 0 \<and> w \<noteq> 0")
    case True
    then have w: "unat w = 1 + unat (w - 1)" by (simp add: unat_minus_one unat_gt_0)
    have "4 * (1 + unat (w - 1)) \<le> 2 ^ 64" using unat_u32_less [of w] w by simp
    have "gfx_fill_row p w pix M = fill32 (p + 4) (unat (w - 1)) pix (fill32 p 1 pix M)"
      using tail [of "w - 1" "p + 4" "fill32 p 1 pix M"]
      by (simp only: gfx_fill_row_def Let_def if_not_P [OF False] if_P [OF True] if_True prod.case store32_fill)
    then show ?thesis using fill32_append [OF \<open>4 * (1 + unat (w - 1)) \<le> 2 ^ 64\<close>, of p pix M] by (simp add: w)
  next
    case *: False
    then show ?thesis
      using tail [of w p M] by (simp only: gfx_fill_row_def Let_def if_not_P [OF False] if_not_P [OF *] if_False prod.case)
  qed
qed


text \<open>Rows, \<open>s\<close> pixels apart: the byte at \<open>a\<close> is in row \<open>r\<close> when it is close enough to its start.\<close>

definition in_row :: "u64 \<Rightarrow> u32 \<Rightarrow> u32 \<Rightarrow> nat \<Rightarrow> u64 \<Rightarrow> bool" where
  "in_row p s w r a = (unat (a - (p + of_nat (4 * (unat s * r)))) < 4 * unat w)"

lemma fill_rows_spec:
  "fill_rows p s w pix n M a =
     (if \<exists>r<n. in_row p s w r a then pix_byte pix (unat (a - p) mod 4) else M a)"
proof (induction n arbitrary: p M)
  case (Suc n)
  have s4: "4 * ucast s = (of_nat (4 * unat s) :: u64)" unfolding ucast_eq_of_nat by simp
  have row: "in_row (p + 4 * ucast s) s w r a = in_row p s w (Suc r) a" for r
    unfolding in_row_def s4 by (simp add: algebra_simps)
  have "unat (a - (p + 4 * ucast s)) mod 4 = unat (a - p) mod 4"
    using mod4_shift [of "a - p" "unat s"] unfolding s4 by (simp only: diff_diff_eq)
  moreover have "in_row p s w 0 a = (unat (a - p) < 4 * unat w)" by (simp add: in_row_def)
  moreover have "(\<exists>r<Suc n. in_row p s w r a) \<longleftrightarrow> in_row p s w 0 a \<or> (\<exists>r<n. in_row p s w (Suc r) a)"
    by (auto simp: less_Suc_eq_0_disj)
  ultimately show ?case
    by (auto simp: Suc row gfx_fill_row_fill fill32_def)
qed simp

text \<open>Where pixel \<open>(i, j)\<close> of a surface lies, and the pixel a byte belongs to.\<close>

definition px_col :: "gfx \<Rightarrow> u64 \<Rightarrow> nat" where
  "px_col g a = unat (a - g_vram g) div 4 mod unat (g_stride_px g)"

definition px_row :: "gfx \<Rightarrow> u64 \<Rightarrow> nat" where
  "px_row g a = unat (a - g_vram g) div 4 div unat (g_stride_px g)"

lemma in_row_pixel:
  assumes "x + w \<le> s" "0 < s" "s * (j + 1) \<le> 2 ^ 32"
  shows "unat (a - (v + of_nat (4 * (s * j + x)) :: u64)) < 4 * w \<longleftrightarrow>
    (let k = unat (a - v) div 4 in k div s = j \<and> x \<le> k mod s \<and> k mod s < x + w)"
proof -
  define t where "t = unat (a - v)"
  define K where "K = s * j + x"
  have K: "K + w \<le> 2 ^ 32" using assms by (simp add: K_def algebra_simps)
  then have "unat (of_nat (4 * K) :: u64) = 4 * K" by (intro unat_of_nat_small) simp
  then have "unat (a - v - of_nat (4 * K)) = (if 4 * K \<le> t then t - 4 * K else t + 2 ^ 64 - 4 * K)"
    using unat_sub_cases [of "a - v" "of_nat (4 * K)"] by (simp add: t_def)
  moreover have "t < 2 ^ 64" using unat_u64_less [of "a - v"] by (simp add: t_def)
  ultimately have "unat (a - v - of_nat (4 * K)) < 4 * w \<longleftrightarrow> 4 * K \<le> t \<and> t < 4 * K + 4 * w"
    using K by auto
  also have "\<dots> \<longleftrightarrow> K \<le> t div 4 \<and> t div 4 < K + w" by (auto simp: less_eq_div_iff_mult_less_eq div_less_iff_less_mult)
  also have "\<dots> \<longleftrightarrow> t div 4 div s = j \<and> x \<le> t div 4 mod s \<and> t div 4 mod s < x + w"
  proof
    assume *: "K \<le> t div 4 \<and> t div 4 < K + w"
    then have "t div 4 = j * s + (t div 4 - j * s)" "t div 4 - j * s < s"
      using assms(1) by (auto simp: K_def algebra_simps)
    then have "t div 4 div s = j" "t div 4 mod s = t div 4 - j * s"
      by (metis div_mult_self3 div_less add.right_neutral assms(2) less_not_refl2, metis mod_mult_self3 mod_less)
    moreover have "s * j \<le> t div 4" using * by (simp add: K_def)
    ultimately show "t div 4 div s = j \<and> x \<le> t div 4 mod s \<and> t div 4 mod s < x + w"
      using * by (simp add: K_def mult.commute [of j s]) linarith
  next
    assume *: "t div 4 div s = j \<and> x \<le> t div 4 mod s \<and> t div 4 mod s < x + w"
    then have "t div 4 = s * j + t div 4 mod s" by (metis mult_div_mod_eq)
    with * show "K \<le> t div 4 \<and> t div 4 < K + w" unfolding K_def by linarith
  qed
  finally show ?thesis by (simp add: t_def K_def Let_def algebra_simps)
qed


lemma clip:
  fixes x w lim :: u32
  assumes "x < lim" "unat x + unat w < 2 ^ 32"
  shows "unat x + unat (if x + w > lim then lim - x else w) = min (unat x + unat w) (unat lim)"
proof -
  have "unat (x + w) = unat x + unat w" using assms(2) by (intro unat_add_no_wrap) simp
  then show ?thesis using assms(1)
    by (auto simp: word_less_nat_alt unat_sub word_le_nat_alt)
qed

text \<open>Rows filled from pixel \<open>(x, y)\<close> on change exactly the bytes of the pixels in the rectangle.\<close>

lemma fill_rows_rect:
  fixes g :: gfx and x y w h :: u32
  defines "s \<equiv> unat (g_stride_px g)" and "p \<equiv> g_vram g + 4 * ucast (y * g_stride_px g + x)"
  assumes "unat x + unat w \<le> s" "0 < s" "unat x < s" "s * (unat y + 1) \<le> 2 ^ 32"
    and rows: "\<forall>j < unat y + unat h. s * (j + 1) \<le> 2 ^ 32"
  shows "fill_rows p (g_stride_px g) w pix (unat h) M =
    (\<lambda>a. if unat x \<le> px_col g a \<and> px_col g a < unat x + unat w \<and> unat y \<le> px_row g a \<and> px_row g a < unat y + unat h
         then pix_byte pix (unat (a - g_vram g) mod 4) else M a)"
proof
  fix a
  have yx: "unat y * s + unat x < 2 ^ 32" using assms(5,6) by (simp add: algebra_simps)
  have "unat (y * g_stride_px g + x) = unat y * s + unat x"
    using yx unfolding s_def by (subst unat_add_no_wrap; subst unat_mult_no_wrap) simp_all
  then have p: "p = g_vram g + of_nat (4 * (s * unat y + unat x))"
    unfolding p_def ucast_eq_of_nat by (simp add: mult.commute)
  have row: "in_row p (g_stride_px g) w r a \<longleftrightarrow>
      px_row g a = unat y + r \<and> unat x \<le> px_col g a \<and> px_col g a < unat x + unat w" if "r < unat h" for r
  proof -
    have "p + of_nat (4 * (s * r)) = g_vram g + of_nat (4 * (s * (unat y + r) + unat x))"
      unfolding p by (simp only: distrib_left of_nat_add add.assoc add.commute add.left_commute)
    then show ?thesis
      using in_row_pixel [OF assms(3,4) rows [rule_format, of "unat y + r"], of a "g_vram g"] that
      by (simp only: in_row_def px_row_def px_col_def Let_def s_def)
  qed
  have byte: "unat (a - p) mod 4 = unat (a - g_vram g) mod 4"
    using mod4_shift [of "a - g_vram g"] unfolding p by (simp only: diff_diff_eq)
  have "(\<exists>r<unat h. in_row p (g_stride_px g) w r a) \<longleftrightarrow>
      unat x \<le> px_col g a \<and> px_col g a < unat x + unat w \<and> unat y \<le> px_row g a \<and> px_row g a < unat y + unat h"
    using row by (auto intro!: exI [of _ "px_row g a - unat y"])
  then show "fill_rows p (g_stride_px g) w pix (unat h) M a =
    (if unat x \<le> px_col g a \<and> px_col g a < unat x + unat w \<and> unat y \<le> px_row g a \<and> px_row g a < unat y + unat h
     then pix_byte pix (unat (a - g_vram g) mod 4) else M a)"
    unfolding fill_rows_spec byte by simp
qed

text \<open>C14: on a surface whose pixels can be addressed with 32 bits, for a rectangle that starts
  on the surface and whose far edges do not wrap, \<open>gfx_rect\<close> presents the clipped rectangle
  and leaves a memory in which a byte has changed only if it belongs to a pixel of the surface
  inside the rectangle; that pixel is the colour in the surface's channel order.  Every other
  byte of memory, the padding of the rows and the pixels outside included, is untouched,
  whichever of the three fill paths the rows take.\<close>

theorem gfx_rect_correct:
  assumes "backend g \<noteq> GFX_BACKEND_NONE" "x < g_width g" "y < g_height g" "g_width g \<le> g_stride_px g"
    and "unat (g_stride_px g) * unat (g_height g) \<le> 2 ^ 32"
    and "unat x + unat w < 2 ^ 32" "unat y + unat h < 2 ^ 32"
  defines "w' \<equiv> (if x + w > g_width g then g_width g - x else w)"
  defines "h' \<equiv> (if y + h > g_height g then g_height g - y else h)"
  shows "gfx_rect E okb g x y w h color (M, D, m) =
    do { (D, m) \<leftarrow> gfx_present E okb g x y w' h' (D, m);
         Some (\<lambda>a. if unat x \<le> px_col g a \<and> px_col g a < min (unat x + unat w) (unat (g_width g)) \<and>
                      unat y \<le> px_row g a \<and> px_row g a < min (unat y + unat h) (unat (g_height g))
                   then pix_byte (gfx_swizzle (g_format g) color) (unat (a - g_vram g) mod 4) else M a, D, m) }"
proof -
  let ?s = "unat (g_stride_px g)"
  have wx: "unat x + unat w' = min (unat x + unat w) (unat (g_width g))"
    unfolding w'_def by (rule clip) fact+
  have hy: "unat y + unat h' = min (unat y + unat h) (unat (g_height g))"
    unfolding h'_def by (rule clip) fact+
  have xs: "unat x + unat w' \<le> ?s" "0 < ?s" "unat x < ?s"
    using wx assms(2,4) by (auto simp: word_le_nat_alt word_less_nat_alt)
  have rows: "\<forall>j < unat y + unat h'. ?s * (j + 1) \<le> 2 ^ 32"
    using hy assms(5) by (intro allI impI order_trans [OF mult_le_mono2 assms(5)]) simp
  have y1: "?s * (unat y + 1) \<le> 2 ^ 32"
    using assms(3) by (intro order_trans [OF mult_le_mono2 assms(5)]) (simp add: word_less_nat_alt)
  note rect = fill_rows_rect [OF xs y1 rows, unfolded wx hy]
  have "\<not> (g_width g \<le> x \<or> g_height g \<le> y)" using assms(2,3) by (simp add: not_le)
  with assms(1) show ?thesis
    by (simp only: gfx_rect_def Let_def prod.case if_False w'_def [symmetric] h'_def [symmetric] rect)
qed

definition demo_gfx :: gfx where
  "demo_gfx = \<lparr>g_vram = 0x1000, g_width = 4, g_height = 3, g_stride_px = 5, backend = GFX_BACKEND_SIMPLEFB,
     g_format = GFX_FMT_XBGR8888\<rparr>"

lemma gfx_rect_correct_witness:
  "\<forall>E okb D m. \<exists>M. gfx_rect E okb demo_gfx 3 1 9 9 0x00112233 (\<lambda>_. 7, D, m) = Some (M, D, m) \<and>
     M 0x1020 = 0x11 \<and> M 0x1034 = 0x11 \<and> M 0x1036 = 0x33 \<and> M 0x1024 = 7 \<and> M 0x1048 = 7"
proof (intro allI)
  fix E okb D and m :: mach
  have "gfx_present E okb demo_gfx 3 1 u v (D, m) = Some (D, m)" for u v
    by (simp add: gfx_present_def demo_gfx_def)
  then show "\<exists>M. gfx_rect E okb demo_gfx 3 1 9 9 0x00112233 (\<lambda>_. 7, D, m) = Some (M, D, m) \<and>
     M 0x1020 = 0x11 \<and> M 0x1034 = 0x11 \<and> M 0x1036 = 0x33 \<and> M 0x1024 = 7 \<and> M 0x1048 = 7"
    using gfx_rect_correct [of demo_gfx 3 1 9 9 E okb "0x00112233" "\<lambda>_. 7" D m]
    by (simp add: demo_gfx_def px_col_def px_row_def pix_byte_def gfx_swizzle_def)
qed

end
