(* ===== verification/GfxText.thy ===== *)
theory GfxText
  imports Gfx
begin

text \<open>
  The character grid of \<open>src/gfx_text.c\<close>.  The font, the character cells and the attribute
  cells are arrays in the same memory as the framebuffer, given by their addresses; a null
  attribute array is the address 0.  The attribute decoder is a function from the attribute
  and the default colours to the colours.
\<close>

record gfx_text =
  cols :: u32
  t_rows :: u32
  cell_h :: u32
  t_scale :: u32
  font :: u64
  chars :: u64
  attrs :: u64
  t_fg :: u32
  t_bg :: u32
  attr_decode :: "(u8 \<Rightarrow> u32 \<times> u32 \<Rightarrow> u32 \<times> u32) option"

section \<open>One glyph\<close>

text \<open>The loop over \<open>sx\<close>, from pixel \<open>px\<close> of the row on.\<close>

fun blit_run :: "u64 \<Rightarrow> u32 \<Rightarrow> u32 \<Rightarrow> u32 \<Rightarrow> nat \<Rightarrow> mem \<Rightarrow> mem" where
  "blit_run row color draw_w px 0 M = M"
| "blit_run row color draw_w px (Suc n) M =
     (if px \<ge> draw_w then M
      else blit_run row color draw_w (px + 1) n (store32 M (row + 4 * ucast px) color))"

definition blit_bits :: "u64 \<Rightarrow> u8 \<Rightarrow> u32 \<Rightarrow> u32 \<Rightarrow> u32 \<Rightarrow> u32 \<Rightarrow> mem \<Rightarrow> mem" where
  "blit_bits row row_bits scale draw_w fg bg M =
     fold (\<lambda>gx. blit_run row (if ucast row_bits AND drop_bit gx (0x80 :: u32) \<noteq> 0 then fg else bg) draw_w
             (of_nat gx * scale) (unat scale)) [0..<8] M"

text \<open>The loop over \<open>sy\<close>: the same row of bits on \<open>n\<close> lines from \<open>py\<close> on.\<close>

fun blit_lines :: "gfx \<Rightarrow> u8 \<Rightarrow> u32 \<Rightarrow> u32 \<Rightarrow> u32 \<Rightarrow> u32 \<Rightarrow> u32 \<Rightarrow> u32 \<Rightarrow> u32 \<Rightarrow> nat \<Rightarrow> mem \<Rightarrow> mem" where
  "blit_lines g row_bits x_px y_end scale draw_w fg bg py 0 M = M"
| "blit_lines g row_bits x_px y_end scale draw_w fg bg py (Suc n) M =
     (if py \<ge> y_end then M
      else blit_lines g row_bits x_px y_end scale draw_w fg bg (py + 1) n
        (blit_bits (g_vram g + 4 * ucast (py * g_stride_px g + x_px)) row_bits scale draw_w fg bg M))"

definition gfx_blit_glyph ::
  "gfx \<Rightarrow> u64 \<Rightarrow> u32 \<Rightarrow> u8 \<Rightarrow> u32 \<Rightarrow> u32 \<Rightarrow> u32 \<Rightarrow> u32 \<Rightarrow> u32 \<Rightarrow> mem \<Rightarrow> mem" where
  "gfx_blit_glyph g fnt ch char_code x_px y_px scale fg_color bg_color M =
     (if backend g = GFX_BACKEND_NONE then M
      else
        (let scale = (if scale = 0 then 1 else scale);
             draw_w = 8 * scale;
             draw_h = ch * scale in
         if x_px \<ge> g_width g \<or> y_px \<ge> g_height g then M
         else
           (let draw_w = (if x_px + draw_w > g_width g then g_width g - x_px else draw_w);
                draw_h = (if y_px + draw_h > g_height g then g_height g - y_px else draw_h);
                fg = gfx_swizzle (g_format g) fg_color;
                bg = gfx_swizzle (g_format g) bg_color;
                glyph = fnt + ucast (ucast char_code * ch)
            in fold (\<lambda>gy M. blit_lines g (M (glyph + of_nat gy)) x_px (y_px + draw_h) scale draw_w fg bg
                  (y_px + of_nat gy * scale) (unat scale) M) [0..<unat ch] M)))"

section \<open>The grid\<close>

text \<open>Stores of one byte to \<open>n\<close> cells, and the move of \<open>n\<close> cells down by \<open>shift\<close>, in
  ascending order.\<close>

definition fill_cells :: "u64 \<Rightarrow> nat \<Rightarrow> nat \<Rightarrow> u8 \<Rightarrow> mem \<Rightarrow> mem" where
  "fill_cells a i n v M = fold (\<lambda>k M. M(a + of_nat k := v)) [i..<n] M"

definition move_cells :: "u64 \<Rightarrow> u32 \<Rightarrow> nat \<Rightarrow> mem \<Rightarrow> mem" where
  "move_cells a shift n M = fold (\<lambda>k M. M(a + of_nat k := M (a + ucast (of_nat k + shift)))) [0..<n] M"

definition gfx_text_clear :: "gfx_text \<Rightarrow> u8 \<Rightarrow> mem \<Rightarrow> mem" where
  "gfx_text_clear t attr_default M =
     (let n = unat (cols t * t_rows t);
          M = fill_cells (chars t) 0 n 0x20 M
      in if attrs t \<noteq> 0 then fill_cells (attrs t) 0 n attr_default M else M)"

text \<open>The string is the bytes before its terminator.\<close>

fun text_puts_loop :: "gfx_text \<Rightarrow> u8 \<Rightarrow> u32 \<Rightarrow> u32 \<Rightarrow> u8 list \<Rightarrow> mem \<Rightarrow> mem" where
  "text_puts_loop t attr off col [] M = M"
| "text_puts_loop t attr off col (s # ss) M =
     (if col < cols t
      then (let M = M(chars t + ucast off := s);
                M = (if attrs t \<noteq> 0 then M(attrs t + ucast off := attr) else M)
            in text_puts_loop t attr (off + 1) (col + 1) ss M)
      else M)"

definition gfx_text_puts :: "gfx_text \<Rightarrow> u32 \<Rightarrow> u32 \<Rightarrow> u8 list \<Rightarrow> u8 \<Rightarrow> mem \<Rightarrow> mem" where
  "gfx_text_puts t col row s attr M =
     (if row \<ge> t_rows t then M else text_puts_loop t attr (row * cols t + col) col s M)"

definition gfx_text_scroll_up :: "gfx_text \<Rightarrow> u32 \<Rightarrow> u8 \<Rightarrow> mem \<Rightarrow> mem" where
  "gfx_text_scroll_up t lines attr_default M =
     (if lines = 0 then M
      else if lines \<ge> t_rows t then gfx_text_clear t attr_default M
      else
        (let cells_kept = (t_rows t - lines) * cols t;
             shift = lines * cols t;
             M = move_cells (chars t) shift (unat cells_kept) M;
             M = fill_cells (chars t) (unat cells_kept) (unat (t_rows t * cols t)) 0x20 M
         in if attrs t \<noteq> 0
            then fill_cells (attrs t) (unat cells_kept) (unat (t_rows t * cols t)) attr_default
                   (move_cells (attrs t) shift (unat cells_kept) M)
            else M))"

definition render_cell :: "gfx_text \<Rightarrow> gfx \<Rightarrow> u32 \<Rightarrow> u32 \<Rightarrow> u32 \<Rightarrow> u32 \<Rightarrow> mem \<Rightarrow> mem" where
  "render_cell t g x_off y_off row col M =
     (let scale = (if t_scale t \<noteq> 0 then t_scale t else 1);
          glyph_w = 8 * scale; glyph_h = cell_h t * scale;
          py = y_off + row * glyph_h;
          off = row * cols t + col;
          ch = M (chars t + ucast off);
          (fg, bg) = (case attr_decode t of Some f \<Rightarrow>
              if attrs t \<noteq> 0 then f (M (attrs t + ucast off)) (t_fg t, t_bg t) else (t_fg t, t_bg t)
            | None \<Rightarrow> (t_fg t, t_bg t));
          px = x_off + col * glyph_w
      in gfx_blit_glyph g (font t) (cell_h t) ch px py scale fg bg M)"

definition gfx_text_render :: "gfx_text \<Rightarrow> gfx \<Rightarrow> u32 \<Rightarrow> u32 \<Rightarrow> mem \<Rightarrow> mem" where
  "gfx_text_render t g x_off y_off M =
     (if backend g = GFX_BACKEND_NONE then M
      else fold (\<lambda>row. fold (\<lambda>col. render_cell t g x_off y_off (of_nat row) (of_nat col)) [0..<unat (cols t)])
             [0..<unat (t_rows t)] M)"

end
