(* ===== verification/I2c.thy ===== *)
theory I2c
  imports Uart
begin

text \<open>
  The OpenCores I2C master, \<open>src/i2c.c\<close>: command bytes with a bounded wait for completion, a
  write transaction and a combined write and read transaction.  The state is the register
  base and the number of commands still to be traced to the console.
\<close>

definition RVVM_I2C_OC_BASE :: u64 where "RVVM_I2C_OC_BASE = 0x10030000"
definition I2C_OC_REG_CTR :: u32 where "I2C_OC_REG_CTR = 0x08"
definition I2C_OC_REG_TXRXR :: u32 where "I2C_OC_REG_TXRXR = 0x0C"
definition I2C_OC_REG_CRSR :: u32 where "I2C_OC_REG_CRSR = 0x10"
definition I2C_OC_CTR_EN :: u8 where "I2C_OC_CTR_EN = 0x80"
definition I2C_OC_CMD_STA :: u8 where "I2C_OC_CMD_STA = 0x80"
definition I2C_OC_CMD_STO :: u8 where "I2C_OC_CMD_STO = 0x40"
definition I2C_OC_CMD_RD :: u8 where "I2C_OC_CMD_RD = 0x20"
definition I2C_OC_CMD_WR :: u8 where "I2C_OC_CMD_WR = 0x10"
definition I2C_OC_CMD_NACK :: u8 where "I2C_OC_CMD_NACK = 0x08"
definition I2C_OC_CMD_IACK :: u8 where "I2C_OC_CMD_IACK = 0x01"
definition I2C_OC_STA_NACK :: u8 where "I2C_OC_STA_NACK = 0x80"
definition I2C_OC_STA_IF :: u8 where "I2C_OC_STA_IF = 0x01"

lemmas i2c_consts = I2C_OC_REG_CTR_def I2C_OC_REG_TXRXR_def I2C_OC_REG_CRSR_def I2C_OC_CTR_EN_def
  I2C_OC_CMD_STA_def I2C_OC_CMD_STO_def I2C_OC_CMD_RD_def I2C_OC_CMD_WR_def I2C_OC_CMD_NACK_def
  I2C_OC_CMD_IACK_def I2C_OC_STA_NACK_def I2C_OC_STA_IF_def

record i2c =
  i2c_base :: u64
  i2c_trace :: nat

definition i2c_reset :: i2c where "i2c_reset = \<lparr>i2c_base = RVVM_I2C_OC_BASE, i2c_trace = 0\<rparr>"

definition i2c_r :: "env \<Rightarrow> i2c \<Rightarrow> u32 \<Rightarrow> mach \<Rightarrow> u8 \<times> mach" where
  "i2c_r E d off m = mmio_r8 E (i2c_base d + ucast off) m"
definition i2c_w :: "i2c \<Rightarrow> u32 \<Rightarrow> u8 \<Rightarrow> mach \<Rightarrow> mach" where
  "i2c_w d off v m = mmio_w8 (i2c_base d + ucast off) v m"

definition i2c_init :: "u64 \<Rightarrow> i2c \<times> mach \<Rightarrow> i2c \<times> mach" where
  "i2c_init b = (\<lambda>(d, m).
     let d = (if b \<noteq> 0 then d\<lparr>i2c_base := b\<rparr> else d) in (d, i2c_w d I2C_OC_REG_CTR I2C_OC_CTR_EN m))"

text \<open>The poll of the status register: the last status read and the number of rounds left
  unused (0 for a time-out).\<close>

fun i2c_spin :: "env \<Rightarrow> i2c \<Rightarrow> nat \<Rightarrow> u8 \<Rightarrow> mach \<Rightarrow> u8 \<times> nat \<times> mach" where
  "i2c_spin E d 0 s m = (s, 0, m)"
| "i2c_spin E d (Suc n) s m =
     (let (s, m) = i2c_r E d I2C_OC_REG_CRSR m
      in if s AND I2C_OC_STA_IF \<noteq> 0 then (s, Suc n, m) else i2c_spin E d n s m)"

definition i2c_cmd :: "env \<Rightarrow> u64 \<Rightarrow> u8 \<Rightarrow> i2c \<times> mach \<Rightarrow> (bool \<times> i2c \<times> mach) option" where
  "i2c_cmd E ub cmd = (\<lambda>(d, m).
     let m = i2c_w d I2C_OC_REG_CRSR (cmd OR I2C_OC_CMD_IACK) m;
         (s, left, m) = i2c_spin E d 1000 0 m;
         spun = 1000 - left
     in do {
       (d, m) \<leftarrow> (if i2c_trace d > 0
         then do {
           m \<leftarrow> uart_printf E ub (''i2c: cmd=%x status=%x spun=%u -> %s'' @ [CHR 0x0A])
             [VWord (ucast cmd), VWord (ucast s), VWord (of_nat spun),
              VStr (bytes_of (if spun \<ge> 1000 then ''TIMEOUT''
                else if s AND I2C_OC_STA_NACK \<noteq> 0 then ''NACK'' else ''ACK''))] m;
           Some (d\<lparr>i2c_trace := i2c_trace d - 1\<rparr>, m) }
         else Some (d, m));
       Some (if spun \<ge> 1000 then False else s AND I2C_OC_STA_NACK = 0, d, m) })"

definition i2c_stop :: "env \<Rightarrow> u64 \<Rightarrow> i2c \<times> mach \<Rightarrow> (i2c \<times> mach) option" where
  "i2c_stop E ub s = do { (_, s) \<leftarrow> i2c_cmd E ub I2C_OC_CMD_STO s; Some s }"

text \<open>The data bytes of a write phase, up to the first that is not acknowledged.\<close>

fun i2c_send :: "env \<Rightarrow> u64 \<Rightarrow> u8 list \<Rightarrow> i2c \<times> mach \<Rightarrow> (bool \<times> i2c \<times> mach) option" where
  "i2c_send E ub [] s = Some (True, s)"
| "i2c_send E ub (b # bs) s = (case s of (d, m) \<Rightarrow> do {
     (ok, s) \<leftarrow> i2c_cmd E ub I2C_OC_CMD_WR (d, i2c_w d I2C_OC_REG_TXRXR b m);
     if ok then i2c_send E ub bs s else Some (False, s) })"

text \<open>The address byte with its direction bit.\<close>

definition i2c_address :: "env \<Rightarrow> u64 \<Rightarrow> u8 \<Rightarrow> i2c \<times> mach \<Rightarrow> (bool \<times> i2c \<times> mach) option" where
  "i2c_address E ub a = (\<lambda>(d, m).
     i2c_cmd E ub (I2C_OC_CMD_STA OR I2C_OC_CMD_WR) (d, i2c_w d I2C_OC_REG_TXRXR a m))"

definition i2c_write :: "env \<Rightarrow> u64 \<Rightarrow> u8 \<Rightarrow> u8 list \<Rightarrow> i2c \<times> mach \<Rightarrow> (bool \<times> i2c \<times> mach) option" where
  "i2c_write E ub addr data s = do {
     (ok, s) \<leftarrow> i2c_address E ub (push_bit 1 addr OR 0) s;
     (ok, s) \<leftarrow> (if ok then i2c_send E ub data s else Some (False, s));
     s \<leftarrow> i2c_stop E ub s;
     Some (ok, s) }"

text \<open>The read phase: \<open>n\<close> bytes still to read; the bytes read are returned also on failure.\<close>

fun i2c_recv :: "env \<Rightarrow> u64 \<Rightarrow> nat \<Rightarrow> i2c \<times> mach \<Rightarrow> (bool \<times> u8 list \<times> i2c \<times> mach) option" where
  "i2c_recv E ub 0 s = Some (True, [], s)"
| "i2c_recv E ub (Suc n) s = do {
     (ok, d, m) \<leftarrow> i2c_cmd E ub (if n = 0 then I2C_OC_CMD_RD OR I2C_OC_CMD_NACK else I2C_OC_CMD_RD) s;
     if ok
     then (let (b, m) = i2c_r E d I2C_OC_REG_TXRXR m in
           do { (ok, bs, s) \<leftarrow> i2c_recv E ub n (d, m); Some (ok, b # bs, s) })
     else Some (False, [], d, m) }"

definition i2c_write_then_read ::
  "env \<Rightarrow> u64 \<Rightarrow> u8 \<Rightarrow> u8 list \<Rightarrow> nat \<Rightarrow> i2c \<times> mach \<Rightarrow> (bool \<times> u8 list \<times> i2c \<times> mach) option" where
  "i2c_write_then_read E ub addr wdata rlen s = do {
     (ok, s) \<leftarrow> i2c_address E ub (push_bit 1 addr OR 0) s;
     (ok, s) \<leftarrow> (if ok then i2c_send E ub wdata s else Some (False, s));
     (ok, s) \<leftarrow> (if ok then i2c_address E ub (push_bit 1 addr OR 1) s else Some (False, s));
     (ok, bs, s) \<leftarrow> (if ok then i2c_recv E ub rlen s else Some (False, [], s));
     s \<leftarrow> i2c_stop E ub s;
     Some (ok, bs, s) }"

end
