(* ===== verification/Hid.thy ===== *)
theory Hid
  imports I2c VirtioInput Irq
begin

text \<open>
  The keyboard of \<open>src/hid.c\<close>: discovery of one of two backends, the comparison of two boot
  reports, and the interrupt binding.  The callback is a function on the caller's context.
\<close>

section \<open>State\<close>

definition mod_usages :: "u8 list" where
  "mod_usages = [0xE0, 0xE1, 0xE2, 0xE3, 0xE4, 0xE5, 0xE6, 0xE7]"

definition I2C_HID_REG_INPUT :: u16 where "I2C_HID_REG_INPUT = 0x0003"
definition RVVM_I2C_HID_KEYBOARD :: u8 where "RVVM_I2C_HID_KEYBOARD = 0x08"
definition RVVM_HID_KB_REPORT_LEN :: nat where "RVVM_HID_KB_REPORT_LEN = 10"

datatype hid_backend = HID_BACKEND_NONE | HID_BACKEND_I2C | HID_BACKEND_VIRTIO

record hid_keyboard =
  kb_backend :: hid_backend
  initialised :: bool
  i2c_addr :: u8
  prev_keys :: "u8 list"
  prev_mod :: u8

text \<open>The statics behind a keyboard: the shared virtio device, the warning flag of the I2C
  path and the bus driver.\<close>

record hid_drv =
  hid_vi_singleton :: virtio_input
  warned :: bool
  hid_i2c :: i2c

definition hid_kb_init :: "u8 \<Rightarrow> hid_keyboard \<Rightarrow> hid_keyboard" where
  "hid_kb_init a kb = kb\<lparr>kb_backend := HID_BACKEND_I2C, initialised := True, i2c_addr := a, prev_mod := 0,
     prev_keys := replicate 6 0\<rparr>"

definition hid_kb_init_fdt ::
  "env \<Rightarrow> mem \<Rightarrow> fdt \<Rightarrow> hid_keyboard \<times> hid_drv \<times> mach \<Rightarrow> (bool \<times> hid_keyboard \<times> hid_drv \<times> mach) option" where
  "hid_kb_init_fdt E M fdt = (\<lambda>(kb, D, m). do {
     (ok, vi, m) \<leftarrow> virtio_input_init_fdt E M fdt (hid_vi_singleton D) m;
     let D = D\<lparr>hid_vi_singleton := vi\<rparr>;
     if ok
     then Some (True, kb\<lparr>kb_backend := HID_BACKEND_VIRTIO, initialised := True, i2c_addr := 0, prev_mod := 0,
                  prev_keys := replicate 6 0\<rparr>, D, m)
     else do {
       i_off \<leftarrow> fdt_find_compatible M fdt (bytes_of ''opencores,i2c-ocores'');
       if i_off \<noteq> UINT32_MAX
       then do {
         reg \<leftarrow> fdt_node_reg64 M fdt i_off 0;
         let (i2c, m) = (case reg of Some (at, sz) \<Rightarrow> i2c_init at (hid_i2c D, m) | None \<Rightarrow> (hid_i2c D, m));
         Some (True, hid_kb_init RVVM_I2C_HID_KEYBOARD kb, D\<lparr>hid_i2c := i2c\<rparr>, m) }
       else Some (False, kb\<lparr>kb_backend := HID_BACKEND_NONE, initialised := False\<rparr>, D, m) } })"

section \<open>Polling\<close>

definition in_array :: "u8 list \<Rightarrow> u8 \<Rightarrow> bool" where
  "in_array arr u = (if u = 0 then False else u \<in> set arr)"

text \<open>The calls of the callback, in the order of the three loops.\<close>

definition mod_events :: "u8 \<Rightarrow> u8 \<Rightarrow> (u8 \<times> bool) list" where
  "mod_events prev cur =
     (let mod_diff = cur XOR prev
      in map (\<lambda>b. (mod_usages ! b, cur AND push_bit b 1 \<noteq> 0))
           (filter (\<lambda>b. mod_diff AND push_bit b 1 \<noteq> 0) [0..<8]))"

definition release_events :: "u8 list \<Rightarrow> u8 list \<Rightarrow> (u8 \<times> bool) list" where
  "release_events prev keys = map (\<lambda>u. (u, False)) (filter (\<lambda>u. u \<noteq> 0 \<and> \<not> in_array keys u) prev)"

definition press_events :: "u8 list \<Rightarrow> u8 list \<Rightarrow> (u8 \<times> bool) list" where
  "press_events prev keys = map (\<lambda>u. (u, True)) (filter (\<lambda>u. u \<noteq> 0 \<and> \<not> in_array prev u) keys)"

definition hid_poll_i2c ::
  "env \<Rightarrow> u64 \<Rightarrow> (u8 \<Rightarrow> bool \<Rightarrow> 'c \<Rightarrow> 'c) \<Rightarrow> 'c \<Rightarrow> hid_keyboard \<times> hid_drv \<times> mach \<Rightarrow>
   (int \<times> 'c \<times> hid_keyboard \<times> hid_drv \<times> mach) option" where
  "hid_poll_i2c E ub cb c = (\<lambda>(kb, D, m). do {
     let reg_sel = [ucast (I2C_HID_REG_INPUT AND 0xFF), ucast (drop_bit 8 I2C_HID_REG_INPUT AND 0xFF)];
     (ok, buf, i2c, m) \<leftarrow> i2c_write_then_read E ub (i2c_addr kb) reg_sel RVVM_HID_KB_REPORT_LEN (hid_i2c D, m);
     let D = D\<lparr>hid_i2c := i2c\<rparr>;
     if \<not> ok
     then (if \<not> warned D
           then do {
             m \<leftarrow> uart_printf E ub (''hid: i2c xact to addr 0x%x failed'' @ [CHR 0x0A])
               [VWord (ucast (i2c_addr kb))] m;
             Some (0, c, kb, D\<lparr>warned := True\<rparr>, m) }
           else Some (0, c, kb, D, m))
     else do {
       let len = (ucast (buf ! 0) OR push_bit 8 (ucast (buf ! 1)) :: u16);
       if len = 0 then Some (0, c, kb, D, m)
       else do {
         let md = buf ! 2;
         let keys = take 6 (drop 4 buf);
         let es = mod_events (prev_mod kb) md @ release_events (prev_keys kb) keys @
           press_events (prev_keys kb) keys;
         Some (int (length es), fold (\<lambda>(u, p). cb u p) es c, kb\<lparr>prev_mod := md, prev_keys := keys\<rparr>, D, m) } } })"

definition hid_kb_poll ::
  "env \<Rightarrow> u64 \<Rightarrow> (u8 \<Rightarrow> bool \<Rightarrow> 'c \<Rightarrow> 'c) \<Rightarrow> 'c \<Rightarrow> hid_keyboard \<times> hid_drv \<times> mach \<Rightarrow>
   (int \<times> 'c \<times> hid_keyboard \<times> hid_drv \<times> mach) option" where
  "hid_kb_poll E ub cb c = (\<lambda>(kb, D, m).
     if \<not> initialised kb then Some (0, c, kb, D, m)
     else case kb_backend kb of
       HID_BACKEND_I2C \<Rightarrow> hid_poll_i2c E ub cb c (kb, D, m)
     | HID_BACKEND_VIRTIO \<Rightarrow> do {
         (n, c, vi, m) \<leftarrow> virtio_input_poll E cb c (hid_vi_singleton D) m;
         Some (n, c, kb, D\<lparr>hid_vi_singleton := vi\<rparr>, m) }
     | HID_BACKEND_NONE \<Rightarrow> Some (0, c, kb, D, m))"

section \<open>Interrupts\<close>

text \<open>The trampoline polls the bound keyboard, if any.\<close>

definition hid_irq_trampoline ::
  "env \<Rightarrow> u64 \<Rightarrow> (u8 \<Rightarrow> bool \<Rightarrow> 'c \<Rightarrow> 'c) \<Rightarrow> 'c \<Rightarrow> hid_keyboard option \<Rightarrow> hid_drv \<times> mach \<Rightarrow>
   ('c \<times> hid_keyboard option \<times> hid_drv \<times> mach) option" where
  "hid_irq_trampoline E ub cb c bound = (\<lambda>(D, m).
     case bound of None \<Rightarrow> Some (c, None, D, m)
     | Some kb \<Rightarrow> do { (_, c, kb, D, m) \<leftarrow> hid_kb_poll E ub cb c (kb, D, m); Some (c, Some kb, D, m) })"

text \<open>The result is the source and whether the binding was made.\<close>

definition hid_kb_irq_attach ::
  "priv \<Rightarrow> env \<Rightarrow> plat \<Rightarrow> mem \<Rightarrow> fdt \<Rightarrow> u64 \<Rightarrow> hid_keyboard option \<Rightarrow> irq \<Rightarrow> mach \<Rightarrow>
   (u32 \<times> bool \<times> irq \<times> mach) option" where
  "hid_kb_irq_attach B E P M fdt handler_at kb I m =
     (case kb of None \<Rightarrow> Some (0, False, I, m)
      | Some kb \<Rightarrow>
          if \<not> initialised kb \<or> kb_backend kb \<noteq> HID_BACKEND_I2C then Some (0, False, I, m)
          else do {
            off \<leftarrow> fdt_find_compatible M fdt (bytes_of ''hid-over-i2c'');
            if off = UINT32_MAX then Some (0, False, I, m)
            else do {
              source \<leftarrow> fdt_node_interrupt M fdt off;
              if source = 0 then Some (0, False, I, m)
              else
                (let I = irq_register source handler_at 0 I;
                     m = irq_set_priority B E P source 2 m;
                     m = irq_enable B E P source m
                 in Some (source, True, I, m)) } })"

section \<open>The set of keys held down\<close>

definition mod_key :: "nat \<Rightarrow> u8" where
  "mod_key b = 0xE0 + of_nat b"

text \<open>The keys a boot report says are down: the modifier bits and the six key slots.\<close>

definition keys_down :: "u8 \<Rightarrow> u8 list \<Rightarrow> u8 set" where
  "keys_down mods keys = {mod_key b |b. b < 8 \<and> bit mods b} \<union> (set keys - {0})"

definition apply_event :: "u8 \<times> bool \<Rightarrow> u8 set \<Rightarrow> u8 set" where
  "apply_event = (\<lambda>(u, pressed) S. if pressed then insert u S else S - {u})"

lemma fold_apply:
  "distinct (map fst es) \<Longrightarrow>
    u \<in> fold apply_event es S \<longleftrightarrow> (if u \<in> fst ` set es then (u, True) \<in> set es else u \<in> S)"
proof (induction es arbitrary: S)
  case (Cons e es)
  obtain v p where e: "e = (v, p)" by force
  show ?case using Cons by (cases p) (auto simp: e apply_event_def rev_image_eqI)
qed simp

lemma fold_apply_releases: "fold apply_event (map (\<lambda>u. (u, False)) us) S = S - set us"
  by (induction us arbitrary: S) (auto simp: apply_event_def)

lemma fold_apply_presses: "fold apply_event (map (\<lambda>u. (u, True)) us) S = S \<union> set us"
  by (induction us arbitrary: S) (auto simp: apply_event_def)

lemma mod_key: "b < 8 \<Longrightarrow> mod_usages ! b = mod_key b" "b < 8 \<Longrightarrow> 0xE0 \<le> mod_key b" "inj_on mod_key {..<8}"
proof -
  have l: "\<forall>b\<in>set [0..<8]. mod_usages ! b = mod_key b \<and> 0xE0 \<le> mod_key b" "distinct (map mod_key [0..<8])"
    by (simp_all add: upt_rec mod_usages_def mod_key_def)
  then show "b < 8 \<Longrightarrow> mod_usages ! b = mod_key b" "b < 8 \<Longrightarrow> 0xE0 \<le> mod_key b" by simp_all
  show "inj_on mod_key {..<8}" using l(2) by (simp add: distinct_map atLeast0LessThan)
qed

lemma mod_events_alt:
  "mod_events p c = map (\<lambda>b. (mod_key b, bit c b)) (filter (\<lambda>b. bit p b \<noteq> bit c b) [0..<8])"
proof -
  have b: "(x :: u8) AND push_bit b 1 \<noteq> 0 \<longleftrightarrow> bit x b" for x b
    by (simp add: and_exp_eq_0_iff_not_bit)
  show ?thesis unfolding mod_events_def Let_def b
    by (rule map_cong) (auto simp: mod_key(1) bit_xor_iff intro!: filter_cong)
qed

lemma mod_events_track:
  assumes "\<forall>u\<in>K. u < 0xE0"
  shows "fold apply_event (mod_events p c) ({mod_key b |b. b < 8 \<and> bit p b} \<union> K) = {mod_key b |b. b < 8 \<and> bit c b} \<union> K"
proof (rule set_eqI)
  fix u
  let ?bs = "filter (\<lambda>b. bit p b \<noteq> bit c b) [0..<8]"
  have i: "mod_key b = mod_key b' \<longleftrightarrow> b = b'" if "b < 8" "b' < 8" for b b'
    using mod_key(3) that by (auto dest: inj_onD)
  have "distinct (map fst (mod_events p c))"
    by (auto simp: mod_events_alt comp_def distinct_map intro!: inj_on_subset [OF mod_key(3)])
  note f = fold_apply [OF this, of u]
  show "u \<in> fold apply_event (mod_events p c) ({mod_key b |b. b < 8 \<and> bit p b} \<union> K)
    \<longleftrightarrow> u \<in> {mod_key b |b. b < 8 \<and> bit c b} \<union> K"
  proof (cases "\<exists>b<8. u = mod_key b")
    case True
    then obtain b where b: "b < 8" "u = mod_key b" by blast
    have K: "mod_key b \<notin> K" using assms mod_key(2) [OF b(1)] by (auto dest: leD)
    show ?thesis unfolding f using b K i by (auto simp: mod_events_alt image_iff)
  next
    case False
    then show ?thesis unfolding f by (auto simp: mod_events_alt)
  qed
qed

lemma report_events_track:
  assumes "\<forall>u\<in>set pk \<union> set ks. u < 0xE0"
  shows "fold apply_event (mod_events p c @ release_events pk ks @ press_events pk ks) (keys_down p pk) = keys_down c ks"
proof -
  have "fold apply_event (mod_events p c) (keys_down p pk) = keys_down c pk"
    unfolding keys_down_def by (rule mod_events_track) (use assms in auto)
  moreover have "mod_key b \<notin> set pk" if "b < 8" for b
    using assms mod_key(2) [OF that] by (auto dest: leD)
  ultimately show ?thesis
    by (auto simp: release_events_def press_events_def fold_apply_releases fold_apply_presses keys_down_def in_array_def)
qed

lemma i2c_recv_length: "i2c_recv E ub n s = Some (True, bs, s') \<Longrightarrow> length bs = n"
  by (induction n arbitrary: s bs) (auto simp: bind_eq_Some_conv split: if_splits prod.splits)

lemma i2c_write_then_read_length:
  "i2c_write_then_read E ub a wd n s = Some (True, bs, s') \<Longrightarrow> length bs = n"
  by (auto simp: i2c_write_then_read_def bind_eq_Some_conv split: if_splits dest: i2c_recv_length)


text \<open>A bus on which every command succeeds at once and every byte read is 10.\<close>

definition demo_bus :: env where
  "demo_bus h a = (case a of Rd8 x \<Rightarrow> if x = 0x1000C then 10 else 1 | _ \<Rightarrow> 0)"

definition demo_i2c :: i2c where "demo_i2c = \<lparr>i2c_base = 0x10000, i2c_trace = 0\<rparr>"

lemma demo_cmd: "i2c_cmd demo_bus ub cmd (demo_i2c, m) = Some (True, demo_i2c,
    emits [Wr8 0x10010 (cmd OR 1), Rd8 0x10010] m)"
proof -
  have "i2c_spin demo_bus demo_i2c (Suc n) 0 m' = (1, Suc n, emits [Rd8 0x10010] m')" for m' n
    by (simp add: i2c_r_def mmio_r8_def demo_bus_def demo_i2c_def i2c_consts emit_emits)
  from this [of 999] have "i2c_spin demo_bus demo_i2c 1000 0 m' = (1, 1000, emits [Rd8 0x10010] m')" for m' by simp
  then show ?thesis by (simp add: i2c_cmd_def i2c_w_def mmio_w8_def demo_i2c_def i2c_consts emit_emits)
qed

lemma demo_recv: "\<exists>m'. i2c_recv demo_bus ub n (demo_i2c, m) = Some (True, replicate n 10, demo_i2c, m')"
proof (induction n arbitrary: m)
  case (Suc n)
  have r: "i2c_r demo_bus demo_i2c I2C_OC_REG_TXRXR m' = (10, emits [Rd8 0x1000C] m')" for m'
    by (simp add: i2c_r_def mmio_r8_def demo_bus_def demo_i2c_def i2c_consts emit_emits)
  let ?cmd = "if n = 0 then I2C_OC_CMD_RD OR I2C_OC_CMD_NACK else I2C_OC_CMD_RD"
  obtain m1 where "i2c_recv demo_bus ub n (demo_i2c, emits [Rd8 0x1000C] (emits [Wr8 0x10010 (?cmd OR 1), Rd8 0x10010] m)) =
      Some (True, replicate n 10, demo_i2c, m1)" using Suc by blast
  then show ?case by (simp only: i2c_recv.simps demo_cmd bind.bind_lunit prod.case r if_True Let_def replicate_Suc) simp
qed simp

lemma demo_read: "\<exists>m'. i2c_write_then_read demo_bus ub 8 [3, 0] 10 (demo_i2c, m) = Some (True, replicate 10 10, demo_i2c, m')"
proof -
  have "\<exists>m'. i2c_address demo_bus ub a (demo_i2c, m) = Some (True, demo_i2c, m')" for a m by (simp add: i2c_address_def demo_cmd)
  moreover have "\<exists>m'. i2c_send demo_bus ub bs (demo_i2c, m) = Some (True, demo_i2c, m')" for bs m
    by (induction bs arbitrary: m) (simp_all add: demo_cmd)
  moreover have "\<exists>m'. i2c_stop demo_bus ub (demo_i2c, m) = Some (demo_i2c, m')" for m by (simp add: i2c_stop_def demo_cmd)
  ultimately obtain m1 m2 m3 m4 m5 where "i2c_address demo_bus ub 16 (demo_i2c, m) = Some (True, demo_i2c, m1)"
    "i2c_send demo_bus ub [3, 0] (demo_i2c, m1) = Some (True, demo_i2c, m2)"
    "i2c_address demo_bus ub 17 (demo_i2c, m2) = Some (True, demo_i2c, m3)"
    "i2c_recv demo_bus ub 10 (demo_i2c, m3) = Some (True, replicate 10 10, demo_i2c, m4)"
    "i2c_stop demo_bus ub (demo_i2c, m4) = Some (demo_i2c, m5)"
    using demo_recv by metis
  then show ?thesis unfolding i2c_write_then_read_def by (simp del: i2c_send.simps i2c_recv.simps)
qed


end
