(* ===== verification/Ui.thy ===== *)
theory Ui
  imports GfxText Hid
begin

text \<open>
  Menus and dialogs, \<open>src/ui.c\<close>.  Both backends are modelled: the console with its escape
  sequences in both directions, and the character grid with the keyboard.  Strings are byte
  lists without their terminator, a null string is \<open>None\<close>.  A call that never returns, because
  no key arrives or the console never drains, is \<open>None\<close>.  The directory picker takes the calls
  of FatFs as parameters.
\<close>

section \<open>Keys\<close>

definition UI_KEY_NONE :: int where "UI_KEY_NONE = 0"
definition UI_KEY_UP :: int where "UI_KEY_UP = 0x100"
definition UI_KEY_DOWN :: int where "UI_KEY_DOWN = 0x101"
definition UI_KEY_LEFT :: int where "UI_KEY_LEFT = 0x102"
definition UI_KEY_RIGHT :: int where "UI_KEY_RIGHT = 0x103"
definition UI_KEY_ENTER :: int where "UI_KEY_ENTER = 0x104"
definition UI_KEY_ESC :: int where "UI_KEY_ESC = 0x105"
definition UI_KEY_BACK :: int where "UI_KEY_BACK = 0x106"

lemmas ui_keys = UI_KEY_NONE_def UI_KEY_UP_def UI_KEY_DOWN_def UI_KEY_LEFT_def UI_KEY_RIGHT_def
  UI_KEY_ENTER_def UI_KEY_ESC_def UI_KEY_BACK_def

definition ESC :: u8 where "ESC = 0x1B"
definition ANSI_CLEAR :: "u8 list" where "ANSI_CLEAR = ESC # bytes_of ''[2J'' @ ESC # bytes_of ''[H''"
definition ANSI_REVERSE :: "u8 list" where "ANSI_REVERSE = ESC # bytes_of ''[7m''"
definition ANSI_DIM :: "u8 list" where "ANSI_DIM = ESC # bytes_of ''[2m''"
definition ANSI_NORMAL :: "u8 list" where "ANSI_NORMAL = ESC # bytes_of ''[0m''"
definition ANSI_HIDE_CUR :: "u8 list" where "ANSI_HIDE_CUR = ESC # bytes_of ''[?25l''"
definition ANSI_SHOW_CUR :: "u8 list" where "ANSI_SHOW_CUR = ESC # bytes_of ''[?25h''"

text \<open>The decoder's state is what has been seen: nothing, \<open>ESC\<close>, or \<open>ESC [\<close>.\<close>

definition uart_decode_byte :: "u8 \<Rightarrow> nat \<Rightarrow> int \<times> nat" where
  "uart_decode_byte b st =
     (if st = 0
      then (if b = 0x1B then (UI_KEY_NONE, 1)
            else if b = 13 \<or> b = 10 then (UI_KEY_ENTER, 0)
            else if b = 0x7F \<or> b = 0x08 then (UI_KEY_BACK, 0)
            else if b \<ge> 0x20 \<and> b < 0x7F then (int (unat b), 0)
            else (UI_KEY_NONE, 0))
      else if st = 1
      then (if b = 91 then (UI_KEY_NONE, 2) else (UI_KEY_ESC, 0))
      else if st = 2
      then (if b = 65 then (UI_KEY_UP, 0)
            else if b = 66 then (UI_KEY_DOWN, 0)
            else if b = 67 then (UI_KEY_RIGHT, 0)
            else if b = 68 then (UI_KEY_LEFT, 0)
            else (UI_KEY_NONE, 0))
      else (UI_KEY_NONE, 0))"

definition hid_capture_cb :: "u8 \<Rightarrow> bool \<Rightarrow> int \<Rightarrow> int" where
  "hid_capture_cb usage pressed cap =
     (if \<not> pressed \<or> cap \<noteq> 0 then cap
      else if usage = 0x52 then UI_KEY_UP
      else if usage = 0x51 then UI_KEY_DOWN
      else if usage = 0x50 then UI_KEY_LEFT
      else if usage = 0x4F then UI_KEY_RIGHT
      else if usage = 0x28 then UI_KEY_ENTER
      else if usage = 0x29 then UI_KEY_ESC
      else if usage = 0x2A then UI_KEY_BACK
      else cap)"

section \<open>Input\<close>

record ui =
  uart_enabled :: bool
  gfx_enabled :: bool
  ui_gfx :: gfx
  ui_text :: "gfx_text option"
  ui_kb :: "hid_keyboard option"

text \<open>What the functions change besides the hart: the keyboard behind the pointer, its
  driver, the escape decoder and memory.\<close>

record ui_world =
  w_ui :: ui
  w_hid :: hid_drv
  uart_esc_state :: nat
  w_mem :: mem
  w_mach :: mach

definition uart_poll_key :: "env \<Rightarrow> u64 \<Rightarrow> ui_world \<Rightarrow> int \<times> ui_world" where
  "uart_poll_key E ub w =
     (let (c, m) = uart_getc_nb E ub (w_mach w); w = w\<lparr>w_mach := m\<rparr> in
      if c < 0 then (UI_KEY_NONE, w)
      else (let (k, st) = uart_decode_byte (of_int c) (uart_esc_state w) in (k, w\<lparr>uart_esc_state := st\<rparr>)))"

definition hid_poll_key :: "env \<Rightarrow> u64 \<Rightarrow> ui_world \<Rightarrow> (int \<times> ui_world) option" where
  "hid_poll_key E ub w =
     (case ui_kb (w_ui w) of None \<Rightarrow> Some (UI_KEY_NONE, w)
      | Some kb \<Rightarrow> do {
          (_, cap, kb, D, m) \<leftarrow> hid_kb_poll E ub hid_capture_cb 0 (kb, w_hid w, w_mach w);
          Some (cap, w\<lparr>w_ui := (w_ui w)\<lparr>ui_kb := Some kb\<rparr>, w_hid := D, w_mach := m\<rparr>) })"

definition ui_poll_key :: "env \<Rightarrow> u64 \<Rightarrow> ui_world \<Rightarrow> (int \<times> ui_world) option" where
  "ui_poll_key E ub w =
     (let (k, w) = (if uart_enabled (w_ui w) then uart_poll_key E ub w else (UI_KEY_NONE, w))
      in if k = UI_KEY_NONE \<and> gfx_enabled (w_ui w) then hid_poll_key E ub w else Some (k, w))"

partial_function (option) ui_wait_key :: "env \<Rightarrow> u64 \<Rightarrow> ui_world \<Rightarrow> (int \<times> ui_world) option" where
  "ui_wait_key E ub w = do {
     (k, w) \<leftarrow> ui_poll_key E ub w;
     if k \<noteq> UI_KEY_NONE then Some (k, w) else ui_wait_key E ub w }"

section \<open>Rendering\<close>

record ui_item =
  i_label :: "u8 list option"
  i_id :: int
  disabled :: bool
  hint :: "u8 list option"

record ui_menu =
  title :: "u8 list option"
  items :: "ui_item list"
  m_count :: u32
  selected :: u32

text \<open>One line of the menu on the console.\<close>

definition render_item :: "env \<Rightarrow> u64 \<Rightarrow> bool \<Rightarrow> ui_item \<Rightarrow> mach \<Rightarrow> mach option" where
  "render_item E ub sel it m = do {
     m \<leftarrow> (if sel then uart_puts E ub ANSI_REVERSE m
           else if disabled it then uart_puts E ub ANSI_DIM m else Some m);
     m \<leftarrow> uart_printf E ub '' %c %s''
       [VWord (if sel then 62 else 32), VStr (case i_label it of Some l \<Rightarrow> l | None \<Rightarrow> [])] m;
     m \<leftarrow> (case hint it of Some h \<Rightarrow> uart_printf E ub ''  [%s]'' [VStr h] m | None \<Rightarrow> Some m);
     uart_puts E ub (ANSI_NORMAL @ [10]) m }"

fun render_items :: "env \<Rightarrow> u64 \<Rightarrow> ui_menu \<Rightarrow> nat list \<Rightarrow> mach \<Rightarrow> mach option" where
  "render_items E ub menu [] m = Some m"
| "render_items E ub menu (i # is) m = do {
     m \<leftarrow> render_item E ub (of_nat i = selected menu) (items menu ! i) m;
     render_items E ub menu is m }"

definition render_uart :: "env \<Rightarrow> u64 \<Rightarrow> ui_menu \<Rightarrow> mach \<Rightarrow> mach option" where
  "render_uart E ub menu m = do {
     m \<leftarrow> uart_puts E ub (ANSI_CLEAR @ ANSI_HIDE_CUR) m;
     m \<leftarrow> (case title menu of Some t \<Rightarrow> uart_printf E ub (''=== %s ==='' @ [CHR 0x0A, CHR 0x0A]) [VStr t] m
           | None \<Rightarrow> Some m);
     m \<leftarrow> render_items E ub menu [0..<unat (m_count menu)] m;
     uart_puts E ub (bytes_of ([CHR 0x0A] @ ''[arrows: navigate, Enter: select, Esc: back]'' @ [CHR 0x0A])) m }"

text \<open>The header line is cut to 79 characters.\<close>

definition menu_header :: "u8 list \<Rightarrow> u8 list" where
  "menu_header t = take 79 (bytes_of ''=== '' @ t @ bytes_of '' ==='')"

text \<open>The item rows, from index \<open>i\<close> and grid row \<open>row\<close> on.  A hint beside a null label makes
  the code measure a null string: \<open>None\<close>.\<close>

fun render_rows :: "gfx_text \<Rightarrow> ui_menu \<Rightarrow> nat list \<Rightarrow> u32 \<Rightarrow> mem \<Rightarrow> (u32 \<times> mem) option" where
  "render_rows t menu [] row M = Some (row, M)"
| "render_rows t menu (i # is) row M =
     (if row < t_rows t - 2
      then do {
        let it = items menu ! i;
        let M = gfx_text_puts t 0 row [32, if of_nat i = selected menu then 62 else 32, 32] 0 M;
        let M = gfx_text_puts t 3 row (case i_label it of Some l \<Rightarrow> l | None \<Rightarrow> []) 0 M;
        M \<leftarrow> (case hint it of None \<Rightarrow> Some M
          | Some h \<Rightarrow> (case i_label it of None \<Rightarrow> None
              | Some l \<Rightarrow>
                  (let col = of_nat (length l) + 5 in
                   Some (if col < cols t then gfx_text_puts t col row h 0 M else M))));
        render_rows t menu is (row + 1) M }
      else Some (row, M))"

definition render_gfx :: "ui \<Rightarrow> ui_menu \<Rightarrow> mem \<Rightarrow> mem option" where
  "render_gfx u menu M =
     (if \<not> gfx_enabled u then Some M
      else case ui_text u of None \<Rightarrow> Some M
      | Some t \<Rightarrow> do {
          let M = gfx_text_clear t 0 M;
          let (row, M) = (case title menu of None \<Rightarrow> (0, M)
            | Some s \<Rightarrow> (2, gfx_text_puts t 0 0 (menu_header s) 0 M));
          (row, M) \<leftarrow> render_rows t menu [0..<unat (m_count menu)] row M;
          let M = (if row + 1 < t_rows t
                   then gfx_text_puts t 0 (t_rows t - 1) (bytes_of ''arrows | Enter | Esc'') 0 M else M);
          Some (gfx_text_render t (ui_gfx u) 0 0 M) })"

definition render_menu :: "env \<Rightarrow> u64 \<Rightarrow> ui_menu \<Rightarrow> ui_world \<Rightarrow> ui_world option" where
  "render_menu E ub menu w = do {
     m \<leftarrow> (if uart_enabled (w_ui w) then render_uart E ub menu (w_mach w) else Some (w_mach w));
     M \<leftarrow> (if gfx_enabled (w_ui w) then render_gfx (w_ui w) menu (w_mem w) else Some (w_mem w));
     Some (w\<lparr>w_mach := m, w_mem := M\<rparr>) }"

section \<open>Menus\<close>

definition ui_init_uart :: "ui option \<Rightarrow> bool \<times> ui option" where
  "ui_init_uart u = (case u of None \<Rightarrow> (False, None) | Some u \<Rightarrow> (True, Some (u\<lparr>uart_enabled := True\<rparr>)))"

definition ui_init_gfx :: "ui option \<Rightarrow> gfx option \<Rightarrow> gfx_text option \<Rightarrow> hid_keyboard option \<Rightarrow> bool \<times> ui option" where
  "ui_init_gfx u g t kb = (case (u, g, t) of
     (Some u, Some g, Some t) \<Rightarrow> (True, Some (u\<lparr>gfx_enabled := True, ui_gfx := g, ui_text := Some t, ui_kb := kb\<rparr>))
   | _ \<Rightarrow> (False, u))"

text \<open>\<open>n\<close> steps of the search are left; the direction is down (\<open>True\<close>) or up.\<close>

fun skip_loop :: "ui_menu \<Rightarrow> bool \<Rightarrow> u32 \<Rightarrow> nat \<Rightarrow> u32 \<Rightarrow> u32" where
  "skip_loop menu down from 0 i = from"
| "skip_loop menu down from (Suc n) i =
     (if \<not> disabled (items menu ! unat i) then i
      else skip_loop menu down from n
        (if down then (i + 1) mod m_count menu else (i + m_count menu - 1) mod m_count menu))"

definition skip_disabled :: "ui_menu \<Rightarrow> u32 \<Rightarrow> bool \<Rightarrow> u32" where
  "skip_disabled menu from down =
     (if m_count menu = 0 then 0 else skip_loop menu down from (unat (m_count menu)) from)"

text \<open>What a key does to the menu: go on with it, or leave with a result.\<close>

definition menu_key :: "int \<Rightarrow> ui_menu \<Rightarrow> ui_menu \<times> int option" where
  "menu_key k menu =
     (if k = UI_KEY_UP
      then (menu\<lparr>selected := skip_disabled menu ((selected menu + m_count menu - 1) mod m_count menu) False\<rparr>, None)
      else if k = UI_KEY_DOWN
      then (menu\<lparr>selected := skip_disabled menu ((selected menu + 1) mod m_count menu) True\<rparr>, None)
      else if k = UI_KEY_ENTER \<or> k = UI_KEY_RIGHT
      then (menu, if \<not> disabled (items menu ! unat (selected menu))
                  then Some (i_id (items menu ! unat (selected menu))) else None)
      else if k = UI_KEY_ESC \<or> k = UI_KEY_BACK then (menu, Some (-1))
      else (menu, None))"

partial_function (option) ui_menu_loop :: "env \<Rightarrow> u64 \<Rightarrow> ui_menu \<times> ui_world \<Rightarrow> (int \<times> ui_menu \<times> ui_world) option" where
  "ui_menu_loop E ub s = (case s of (menu, w) \<Rightarrow> do {
     w \<leftarrow> render_menu E ub menu w;
     (k, w) \<leftarrow> ui_wait_key E ub w;
     case menu_key k menu of
       (menu, None) \<Rightarrow> ui_menu_loop E ub (menu, w)
     | (menu, Some r) \<Rightarrow> do {
         m \<leftarrow> (if uart_enabled (w_ui w) then uart_puts E ub ANSI_SHOW_CUR (w_mach w) else Some (w_mach w));
         Some (r, menu, w\<lparr>w_mach := m\<rparr>) } })"

text \<open>Where the cursor starts.\<close>

definition menu_start :: "ui_menu \<Rightarrow> ui_menu" where
  "menu_start menu =
     (let menu = (if selected menu \<ge> m_count menu then menu\<lparr>selected := 0\<rparr> else menu)
      in menu\<lparr>selected := skip_disabled menu (selected menu) True\<rparr>)"

definition ui_menu_run :: "env \<Rightarrow> u64 \<Rightarrow> ui_menu \<Rightarrow> ui_world \<Rightarrow> (int \<times> ui_menu \<times> ui_world) option" where
  "ui_menu_run E ub menu w =
     (if m_count menu = 0 then Some (-1, menu, w) else ui_menu_loop E ub (menu_start menu, w))"

definition plain_item :: "string \<Rightarrow> int \<Rightarrow> ui_item" where
  "plain_item l n = \<lparr>i_label = Some (bytes_of l), i_id = n, disabled = False, hint = None\<rparr>"

definition ui_confirm :: "env \<Rightarrow> u64 \<Rightarrow> u8 list option \<Rightarrow> ui_world \<Rightarrow> (bool \<times> ui_world) option" where
  "ui_confirm E ub prompt w = do {
     (r, _, w) \<leftarrow> ui_menu_run E ub
       \<lparr>title = prompt, items = [plain_item ''No'' 0, plain_item ''Yes'' 1], m_count = 2, selected = 0\<rparr> w;
     Some (r = 1, w) }"

definition ui_message :: "env \<Rightarrow> u64 \<Rightarrow> u8 list option \<Rightarrow> ui_world \<Rightarrow> ui_world option" where
  "ui_message E ub text w = do {
     (_, _, w) \<leftarrow> ui_menu_run E ub
       \<lparr>title = text, items = [plain_item ''OK'' 0], m_count = 1, selected = 0\<rparr> w;
     Some w }"

section \<open>The directory picker\<close>

text \<open>FatFs is a parameter: its calls take the directory object and may change the state.  A file
  system that never ends its listing makes the scan run forever, unless 64 files match.\<close>

definition UI_PICK_MAX :: nat where "UI_PICK_MAX = 64"
definition UI_NAME_MAX :: nat where "UI_NAME_MAX = 64"
definition AM_DIR :: u8 where "AM_DIR = 0x10"

record FILINFO =
  fname :: "u8 list"
  fattrib :: u8

definition ext_matches :: "u8 list option \<Rightarrow> u8 list \<Rightarrow> bool" where
  "ext_matches ext name = (case ext of None \<Rightarrow> True
     | Some e \<Rightarrow>
         (let fl = length name; ext_len = length e in
          \<not> fl < ext_len + 1 \<and> name ! (fl - ext_len - 1) = 46 \<and> drop (fl - ext_len) name = e))"

partial_function (option) pick_scan ::
  "('d \<Rightarrow> ui_world \<Rightarrow> i32 \<times> FILINFO \<times> 'd \<times> ui_world) \<Rightarrow> u8 list option \<Rightarrow> u8 list list \<times> 'd \<times> ui_world \<Rightarrow>
   (u8 list list \<times> 'd \<times> ui_world) option" where
  "pick_scan f_readdir ext s = (case s of (names, d, w) \<Rightarrow>
     if length names < UI_PICK_MAX
     then
       (let (r, fno, d, w) = f_readdir d w in
        if r = 0 \<and> fname fno \<noteq> []
        then (if fattrib fno AND AM_DIR \<noteq> 0 then pick_scan f_readdir ext (names, d, w)
              else if \<not> ext_matches ext (fname fno) then pick_scan f_readdir ext (names, d, w)
              else pick_scan f_readdir ext (names @ [take (UI_NAME_MAX - 1) (fname fno)], d, w))
        else Some (names, d, w))
     else Some (names, d, w))"

definition pick_items :: "u8 list list \<Rightarrow> ui_item list" where
  "pick_items names = map (\<lambda>(n, s). \<lparr>i_label = Some s, i_id = int n, disabled = False, hint = None\<rparr>) (enumerate 0 names)"

text \<open>What \<open>snprintf\<close> leaves in a buffer of the given size.\<close>

definition snprintf_bytes :: "nat \<Rightarrow> u8 list \<Rightarrow> u8 list" where
  "snprintf_bytes room s = (if room = 0 then [] else take (room - 1) s @ [0])"

definition pick_title :: "u8 list \<Rightarrow> u8 list" where
  "pick_title dir = take 79 (bytes_of ''Pick file '' @ [0xE2, 0x80, 0x94] @ bytes_of '' '' @ dir)"

definition pick_path :: "u8 list \<Rightarrow> u8 list \<Rightarrow> u8 list" where
  "pick_path dir name = dir @ (if dir \<noteq> [] \<and> last dir = 47 then [] else [47]) @ name"

text \<open>The bytes stored at the caller's buffer are part of the result.\<close>

definition ui_pick_file ::
  "(u8 list \<Rightarrow> ui_world \<Rightarrow> i32 \<times> 'd \<times> ui_world) \<Rightarrow> ('d \<Rightarrow> ui_world \<Rightarrow> i32 \<times> FILINFO \<times> 'd \<times> ui_world) \<Rightarrow>
   ('d \<Rightarrow> ui_world \<Rightarrow> ui_world) \<Rightarrow> env \<Rightarrow> u64 \<Rightarrow> u8 list option \<Rightarrow> u8 list option \<Rightarrow> nat \<Rightarrow> ui_world \<Rightarrow>
   (bool \<times> u8 list \<times> ui_world) option" where
  "ui_pick_file f_opendir f_readdir f_closedir E ub dir ext outsz w =
     (let d_str = (case dir of Some d \<Rightarrow> d | None \<Rightarrow> [47]);
          (r, d, w) = f_opendir d_str w in
      if r \<noteq> 0 then Some (False, [], w)
      else do {
        (names, d, w) \<leftarrow> pick_scan f_readdir ext ([], d, w);
        let w = f_closedir d w;
        if names = []
        then do { w \<leftarrow> ui_message E ub (Some (bytes_of ''(no files)'')) w; Some (False, [], w) }
        else do {
          (picked, _, w) \<leftarrow> ui_menu_run E ub
            \<lparr>title = Some (pick_title d_str), items = pick_items names, m_count = of_nat (length names), selected = 0\<rparr> w;
          if picked < 0 then Some (False, [], w)
          else Some (True, snprintf_bytes outsz (pick_path d_str (names ! nat picked)), w) } })"

end
