(* ===== verification/Menu.thy ===== *)
theory Menu
  imports Ui
begin

text \<open>Properties of the menus of \<open>src/src/ui.c\<close>: the cursor keys search cyclically for an enabled
  item, a menu only ever returns an enabled item, it is answered when Enter is pressed, and the
  directory picker delivers listed files only.\<close>

section \<open>The cursor\<close>

definition menu_ok :: "ui_menu \<Rightarrow> bool" where
  "menu_ok menu \<longleftrightarrow> unat (m_count menu) = length (items menu) \<and> selected menu < m_count menu"

lemma menu_ok_pos: "menu_ok menu \<Longrightarrow> 0 < m_count menu"
  by (auto simp: menu_ok_def dest: order.strict_trans1 [OF word_zero_le])

lemma skip_loop_less:
  "from < m_count menu \<Longrightarrow> i < m_count menu \<Longrightarrow> skip_loop menu down from n i < m_count menu"
proof (induction n arbitrary: i)
  case (Suc n)
  then have "0 < m_count menu" by (auto intro: order.strict_trans1 [OF word_zero_le])
  then show ?case using Suc by (auto simp: word_mod_less_divisor)
qed simp

lemma skip_disabled_less: "from < m_count menu \<Longrightarrow> skip_disabled menu from down < m_count menu"
  by (auto simp: skip_disabled_def intro: skip_loop_less)

lemma menu_key_ok:
  assumes "menu_ok menu"
  shows "menu_ok (fst (menu_key k menu)) \<and> items (fst (menu_key k menu)) = items menu \<and>
    m_count (fst (menu_key k menu)) = m_count menu"
proof -
  have p: "0 < m_count menu" using menu_ok_pos [OF assms] .
  have "menu_ok (menu\<lparr>selected := s\<rparr>)" if "s < m_count menu" for s
    using that assms by (simp add: menu_ok_def)
  moreover have "skip_disabled menu (a mod m_count menu) d < m_count menu" for a d
    by (intro skip_disabled_less word_mod_less_divisor p)
  ultimately show ?thesis using assms by (simp add: menu_key_def)
qed

lemma menu_key_result:
  assumes "menu_key k menu = (menu', Some r)"
  shows "menu' = menu \<and> (r = -1 \<or> \<not> disabled (items menu ! unat (selected menu)) \<and>
    r = i_id (items menu ! unat (selected menu)))"
  using assms by (auto simp: menu_key_def split: if_splits)

definition picked :: "ui_menu \<Rightarrow> int \<Rightarrow> ui_menu \<Rightarrow> bool" where
  "picked menu r menu' \<longleftrightarrow> items menu' = items menu \<and> unat (selected menu') < length (items menu) \<and>
     (r = -1 \<or> \<not> disabled (items menu ! unat (selected menu')) \<and> r = i_id (items menu ! unat (selected menu')))"

lemma ui_menu_loop_picked:
  assumes "ui_menu_loop E ub s = Some y" "menu_ok (fst s)"
  shows "picked (fst s) (fst y) (fst (snd y))"
proof -
  have "menu_ok (fst s) \<longrightarrow> picked (fst s) (fst y) (fst (snd y))"
  proof (rule ui_menu_loop.raw_induct [where P = "\<lambda>E ub s y. menu_ok (fst s) \<longrightarrow> picked (fst s) (fst y) (fst (snd y))",
        OF _ assms(1)], intro impI)
    fix loop :: "env \<Rightarrow> u64 \<Rightarrow> ui_menu \<times> ui_world \<Rightarrow> (int \<times> ui_menu \<times> ui_world) option" and E ub s y
    assume IH: "\<And>E ub s y. loop E ub s = Some y \<Longrightarrow> menu_ok (fst s) \<longrightarrow> picked (fst s) (fst y) (fst (snd y))"
      and ok: "menu_ok (fst s)"
      and b: "(case s of (menu, w) \<Rightarrow> do {
        w \<leftarrow> render_menu E ub menu w;
        (k, w) \<leftarrow> ui_wait_key E ub w;
        case menu_key k menu of
          (menu, None) \<Rightarrow> loop E ub (menu, w)
        | (menu, Some r) \<Rightarrow> do {
            m \<leftarrow> (if uart_enabled (w_ui w) then uart_puts E ub ANSI_SHOW_CUR (w_mach w) else Some (w_mach w));
            Some (r, menu, w\<lparr>w_mach := m\<rparr>) } }) = Some y"
    obtain k w2 where k: "(case menu_key k (fst s) of (menu, None) \<Rightarrow> loop E ub (menu, w2)
        | (menu, Some r) \<Rightarrow> do {
            m \<leftarrow> (if uart_enabled (w_ui w2) then uart_puts E ub ANSI_SHOW_CUR (w_mach w2) else Some (w_mach w2));
            Some (r, menu, w2\<lparr>w_mach := m\<rparr>) }) = Some y"
      using b by (cases s) (auto simp: bind_eq_Some_conv)
    obtain menu1 res where mk: "menu_key k (fst s) = (menu1, res)" by (cases "menu_key k (fst s)")
    show "picked (fst s) (fst y) (fst (snd y))"
    proof (cases res)
      case None
      then show ?thesis using k mk IH [of E ub "(menu1, w2)" y] menu_key_ok [OF ok, of k] by (simp add: picked_def)
    next
      case (Some x)
      then have "fst (snd y) = menu1" "fst y = x" using k mk by (auto simp: bind_eq_Some_conv)
      then show ?thesis using menu_key_result [of k "fst s" menu1 x] mk Some ok
        by (auto simp: picked_def menu_ok_def word_less_nat_alt)
    qed
  qed
  with assms(2) show ?thesis by simp
qed

lemma ui_menu_run_picked:
  assumes "ui_menu_run E ub menu w = Some (r, menu', w')" "unat (m_count menu) = length (items menu)"
  shows "if m_count menu = 0 then r = -1 else picked menu r menu'"
proof (cases "m_count menu = 0")
  case False
  then have p: "0 < m_count menu" by (simp add: word_neq_0_conv)
  have "menu_ok (menu_start menu)" "items (menu_start menu) = items menu"
    using assms(2) p skip_disabled_less [of "selected menu" menu True] skip_disabled_less [of 0 "menu\<lparr>selected := 0\<rparr>" True]
    by (auto simp: menu_start_def menu_ok_def Let_def not_le)
  moreover have "ui_menu_loop E ub (menu_start menu, w) = Some (r, menu', w')"
    using assms(1) False by (simp add: ui_menu_run_def)
  ultimately show ?thesis using False ui_menu_loop_picked by (fastforce simp: picked_def)
qed (use assms in \<open>simp add: ui_menu_run_def\<close>)

section \<open>The order of the search\<close>

definition cursor_at :: "bool \<Rightarrow> nat \<Rightarrow> nat \<Rightarrow> nat \<Rightarrow> nat" where
  "cursor_at down n s d = (if down then (s + d) mod n else (s + n - d) mod n)"

definition cursor_next :: "bool \<Rightarrow> u32 \<Rightarrow> u32 \<Rightarrow> u32" where
  "cursor_next down c i = (if down then (i + 1) mod c else (i + c - 1) mod c)"

lemma cursor_next_at:
  assumes "unat i = cursor_at down n s d" "unat c = n" "0 < n" "n \<le> 2 ^ 31" "s < n" "d < n"
  shows "unat (cursor_next down c i) = cursor_at down n s (Suc d)"
proof -
  have i: "unat i < n" using assms(1,3) by (simp add: cursor_at_def)
  show ?thesis
  proof (cases down)
    case True
    have "unat (i + 1) = unat i + 1" using i assms(4) by (subst unat_add_no_wrap) simp_all
    then show ?thesis using True assms by (simp add: cursor_next_def cursor_at_def unat_mod mod_Suc_eq)
  next
    case False
    have "unat (i + c) = unat i + n" using i assms(2,4) by (subst unat_add_no_wrap) simp_all
    then have "unat (i + c - 1) = unat i + n - 1" using assms(3) by (subst unat_minus_one) (auto simp: unat_eq_0 [symmetric])
    moreover have "(unat i + n - 1) mod n = (s + n - Suc d) mod n"
    proof (cases "n \<le> s + n - d")
      case True
      then have "unat i = s - d" using assms(1,5,6) False
        by (simp add: cursor_at_def mod_if)
      then show ?thesis using True assms(5,6) by (cases "s = d") (simp_all add: mod_if)
    next
      case False
      then have "unat i = s + n - d" using assms(1,5,6) \<open>\<not> down\<close> by (simp add: cursor_at_def)
      then show ?thesis using False assms(5,6) by (simp add: mod_if)
    qed
    ultimately show ?thesis using False assms(2) by (simp add: cursor_next_def cursor_at_def unat_mod)
  qed
qed

lemma cursor_at_covers:
  assumes "s < n" "i < n"
  shows "\<exists>d. 1 \<le> d \<and> d \<le> n \<and> cursor_at down n s d = i"
proof (cases down)
  case True
  with assms show ?thesis
    by (intro exI [of _ "if s < i then i - s else i + n - s"]) (auto simp: cursor_at_def mod_if)
next
  case False
  with assms show ?thesis
    by (intro exI [of _ "if i < s then s - i else s + n - i"]) (auto simp: cursor_at_def mod_if)
qed

lemma skip_loop_nearest:
  assumes "unat (m_count menu) = n" "0 < n" "n \<le> 2 ^ 31" "s < n" "d + k \<le> Suc n"
    and "0 < k \<Longrightarrow> unat i = cursor_at down n s d"
  shows "(\<exists>e. d \<le> e \<and> e < d + k \<and> unat (skip_loop menu down from k i) = cursor_at down n s e \<and>
      \<not> disabled (items menu ! cursor_at down n s e) \<and> (\<forall>j\<in>{d..<e}. disabled (items menu ! cursor_at down n s j)))
    \<or> skip_loop menu down from k i = from \<and> (\<forall>j\<in>{d..<d + k}. disabled (items menu ! cursor_at down n s j))"
  using assms(5,6)
proof (induction k arbitrary: d i)
  case (Suc k)
  have i: "unat i = cursor_at down n s d" using Suc.prems by simp
  show ?case
  proof (cases "disabled (items menu ! unat i)")
    case True
    have "0 < k \<Longrightarrow> unat (cursor_next down (m_count menu) i) = cursor_at down n s (Suc d)"
      using cursor_next_at [OF i assms(1-4)] Suc.prems(1) by simp
    then have IH: "(\<exists>e. Suc d \<le> e \<and> e < Suc d + k \<and>
        unat (skip_loop menu down from k (cursor_next down (m_count menu) i)) = cursor_at down n s e \<and>
        \<not> disabled (items menu ! cursor_at down n s e) \<and> (\<forall>j\<in>{Suc d..<e}. disabled (items menu ! cursor_at down n s j)))
      \<or> skip_loop menu down from k (cursor_next down (m_count menu) i) = from \<and>
        (\<forall>j\<in>{Suc d..<Suc d + k}. disabled (items menu ! cursor_at down n s j))"
      using Suc.IH [of "Suc d" "cursor_next down (m_count menu) i"] Suc.prems(1) by simp
    have st: "skip_loop menu down from (Suc k) i = skip_loop menu down from k (cursor_next down (m_count menu) i)"
      using True by (simp add: cursor_next_def)
    have ins: "(\<forall>j\<in>{Suc d..<e}. disabled (items menu ! cursor_at down n s j)) \<Longrightarrow>
        (\<forall>j\<in>{d..<e}. disabled (items menu ! cursor_at down n s j))" for e
      using True i by (metis atLeastLessThan_iff le_eq_less_or_eq Suc_leI)
    from IH show ?thesis
    proof (elim disjE exE conjE)
      fix e
      assume "Suc d \<le> e" "e < Suc d + k"
        "unat (skip_loop menu down from k (cursor_next down (m_count menu) i)) = cursor_at down n s e"
        "\<not> disabled (items menu ! cursor_at down n s e)" "\<forall>j\<in>{Suc d..<e}. disabled (items menu ! cursor_at down n s j)"
      then show ?thesis using ins [of e] by (intro disjI1 exI [of _ e]) (simp add: st del: skip_loop.simps)
    next
      assume "skip_loop menu down from k (cursor_next down (m_count menu) i) = from"
        "\<forall>j\<in>{Suc d..<Suc d + k}. disabled (items menu ! cursor_at down n s j)"
      then show ?thesis using ins [of "d + Suc k"] by (simp add: st del: skip_loop.simps)
    qed
  qed (auto simp: i intro!: exI [of _ d])
qed simp

text \<open>C34: the cursor keys, in a menu of at most \<open>2 ^ 31\<close> items: from item \<open>s\<close> the cursor goes to
  the nearest item below (or above), cyclically, that is not disabled, passing only disabled
  items; when every item is disabled it moves by one.  It never leaves the menu.\<close>

theorem ui_cursor_correct:
  fixes menu :: ui_menu and n :: nat and at :: "bool \<Rightarrow> nat \<Rightarrow> nat" and down :: bool
  assumes "menu_ok menu" "m_count menu \<le> 0x80000000"
  defines "n \<equiv> length (items menu)"
    and "at \<equiv> (\<lambda>down d. if down then (unat (selected menu) + d) mod n else (unat (selected menu) + n - d) mod n)"
  shows "\<exists>d. 1 \<le> d \<and> d \<le> n \<and>
    unat (selected (fst (menu_key (if down then UI_KEY_DOWN else UI_KEY_UP) menu))) = at down d \<and>
    (\<forall>j. 1 \<le> j \<and> j < d \<longrightarrow> disabled (items menu ! at down j)) \<and>
    (disabled (items menu ! at down d) \<longrightarrow> d = 1 \<and> (\<forall>i<n. disabled (items menu ! i)))"
proof -
  let ?s = "unat (selected menu)"
  have at: "at = (\<lambda>down. cursor_at down n ?s)" by (simp add: at_def cursor_at_def fun_eq_iff)
  have c: "unat (m_count menu) = n" "?s < n" "0 < n" "n \<le> 2 ^ 31"
    using assms(1,2) menu_ok_pos [OF assms(1)] by (auto simp: n_def menu_ok_def word_less_nat_alt word_le_nat_alt)
  define st where "st = cursor_next down (m_count menu) (selected menu)"
  have z: "?s = cursor_at down n ?s 0" using c(2) by (simp add: cursor_at_def)
  have f: "unat st = cursor_at down n ?s 1"
    using cursor_next_at [OF z c(1,3,4,2,3)] by (simp add: st_def)
  have sel: "selected (fst (menu_key (if down then UI_KEY_DOWN else UI_KEY_UP) menu)) = skip_loop menu down st n st"
    using c by (auto simp: menu_key_def ui_keys st_def cursor_next_def skip_disabled_def)
  from skip_loop_nearest [OF c(1,3,4,2), of 1 n st down st] f
  consider e where "1 \<le> e" "e < 1 + n" "unat (skip_loop menu down st n st) = cursor_at down n ?s e"
      "\<not> disabled (items menu ! cursor_at down n ?s e)" "\<forall>j\<in>{1..<e}. disabled (items menu ! cursor_at down n ?s j)"
    | "skip_loop menu down st n st = st" "\<forall>j\<in>{1..<1 + n}. disabled (items menu ! cursor_at down n ?s j)"
    by auto
  then show ?thesis
  proof cases
    case (1 e)
    then show ?thesis unfolding sel at by (intro exI [of _ e]) simp
  next
    case 2
    then have "\<forall>i<n. disabled (items menu ! i)" using cursor_at_covers [OF c(2)] by (metis atLeastLessThan_iff less_Suc_eq_le plus_1_eq_Suc)
    with 2 f c(3) show ?thesis unfolding sel at by (intro exI [of _ 1]) simp
  qed
qed

definition demo_menu :: ui_menu where
  "demo_menu = \<lparr>title = None, items = [plain_item ''a'' 5, (plain_item ''b'' 6)\<lparr>disabled := True\<rparr>, plain_item ''c'' 7],
     m_count = 3, selected = 0\<rparr>"

lemma ui_cursor_correct_witness:
  "\<exists>d. 1 \<le> d \<and> d \<le> 3 \<and> unat (selected (fst (menu_key UI_KEY_DOWN demo_menu))) = d mod 3 \<and> \<not> disabled (items demo_menu ! (d mod 3))"
proof -
  have "menu_ok demo_menu" "m_count demo_menu \<le> 0x80000000" by (simp_all add: menu_ok_def demo_menu_def)
  from ui_cursor_correct [OF this, of True] show ?thesis by (auto simp: demo_menu_def plain_item_def)
qed

section \<open>The picked file\<close>

definition listed :: "('d \<Rightarrow> ui_world \<Rightarrow> i32 \<times> FILINFO \<times> 'd \<times> ui_world) \<Rightarrow> u8 list option \<Rightarrow> u8 list \<Rightarrow> bool" where
  "listed f_readdir ext name \<longleftrightarrow> (\<exists>d w fno d' w'. f_readdir d w = (0, fno, d', w') \<and> fname fno \<noteq> [] \<and>
     fattrib fno AND 0x10 = 0 \<and> name = take 63 (fname fno) \<and>
     (case ext of None \<Rightarrow> True | Some e \<Rightarrow> \<exists>base. fname fno = base @ 46 # e))"

lemma ext_matches_suffix:
  assumes "ext_matches (Some e) name"
  shows "\<exists>base. name = base @ 46 # e"
proof -
  have l: "length e < length name" "name ! (length name - length e - 1) = 46" "drop (length name - length e) name = e"
    using assms by (auto simp: ext_matches_def Let_def)
  let ?n = "length name - length e - 1"
  have "name = take ?n name @ name ! ?n # drop (Suc ?n) name" using l(1) by (intro id_take_nth_drop) simp
  moreover have "Suc ?n = length name - length e" using l(1) by simp
  ultimately show ?thesis using l by metis
qed

lemma pick_scan_listed:
  assumes "pick_scan rd ext s = Some y" "\<forall>x\<in>set (fst s). listed rd ext x"
  shows "\<forall>x\<in>set (fst y). listed rd ext x"
proof -
  have "(\<forall>x\<in>set (fst s). listed rd ext x) \<longrightarrow> (\<forall>x\<in>set (fst y). listed rd ext x)"
  proof (rule pick_scan.raw_induct [where P = "\<lambda>rd ext s y. (\<forall>x\<in>set (fst s). listed rd ext x) \<longrightarrow>
        (\<forall>x\<in>set (fst y). listed rd ext x)", OF _ assms(1)], intro impI)
    fix loop :: "('d \<Rightarrow> ui_world \<Rightarrow> i32 \<times> FILINFO \<times> 'd \<times> ui_world) \<Rightarrow> u8 list option \<Rightarrow> u8 list list \<times> 'd \<times> ui_world \<Rightarrow>
      (u8 list list \<times> 'd \<times> ui_world) option"
      and rd ext s y
    assume IH: "\<And>rd ext s y. loop rd ext s = Some y \<Longrightarrow> (\<forall>x\<in>set (fst s). listed rd ext x) \<longrightarrow>
        (\<forall>x\<in>set (fst y). listed rd ext x)"
      and ok: "\<forall>x\<in>set (fst s). listed rd ext x"
      and b: "(case s of (names, d, w) \<Rightarrow>
       if length names < UI_PICK_MAX
       then
         (let (r, fno, d, w) = rd d w in
          if r = 0 \<and> fname fno \<noteq> []
          then (if fattrib fno AND AM_DIR \<noteq> 0 then loop rd ext (names, d, w)
                else if \<not> ext_matches ext (fname fno) then loop rd ext (names, d, w)
                else loop rd ext (names @ [take (UI_NAME_MAX - 1) (fname fno)], d, w))
          else Some (names, d, w))
       else Some (names, d, w)) = Some y"
    obtain names d w r fno d' w' where s: "s = (names, d, w)" "rd d w = (r, fno, d', w')"
      by (cases s) (metis prod_cases4)
    have new: "listed rd ext (take 63 (fname fno))" if "r = 0" "fname fno \<noteq> []" "fattrib fno AND 0x10 = 0" "ext_matches ext (fname fno)"
    proof -
      have "case ext of None \<Rightarrow> True | Some e \<Rightarrow> \<exists>base. fname fno = base @ 46 # e"
        using that(4) ext_matches_suffix [of _ "fname fno"] by (cases ext) simp_all
      then show ?thesis unfolding listed_def using that(1-3) s(2) by blast
    qed
    show "\<forall>x\<in>set (fst y). listed rd ext x"
      using b ok new s(2) IH [of rd ext "(names, d', w')" y] IH [of rd ext "(names @ [take 63 (fname fno)], d', w')" y]
      by (auto simp: s(1) UI_NAME_MAX_def AM_DIR_def split: if_splits)
  qed
  with assms(2) show ?thesis by simp
qed

lemma pick_scan_max:
  assumes "pick_scan rd ext s = Some y" "length (fst s) \<le> 64"
  shows "length (fst y) \<le> 64"
proof -
  have "length (fst s) \<le> 64 \<longrightarrow> length (fst y) \<le> 64"
    by (rule pick_scan.raw_induct [where P = "\<lambda>rd ext s y. length (fst s) \<le> 64 \<longrightarrow> length (fst y) \<le> 64", OF _ assms(1)])
      (fastforce simp: UI_PICK_MAX_def split: prod.splits if_splits)
  with assms(2) show ?thesis by simp
qed

text \<open>C35: a menu that returns has kept its items and its cursor inside them, and its result is the
  identifier of the item under the cursor, which is not disabled, or -1.  An empty menu gives -1.\<close>

theorem ui_menu_run_enabled:
  assumes "ui_menu_run E ub menu w = Some (r, menu', w')" "unat (m_count menu) = length (items menu)"
  shows "if items menu = [] then r = -1
    else items menu' = items menu \<and> unat (selected menu') < length (items menu) \<and>
      (r \<noteq> -1 \<longrightarrow> \<not> disabled (items menu ! unat (selected menu')) \<and> r = i_id (items menu ! unat (selected menu')))"
proof (cases "items menu = []")
  case True
  then have "m_count menu = 0" using assms(2) by (simp add: unat_eq_0)
  with True ui_menu_run_picked [OF assms] show ?thesis by simp
next
  case False
  then have "m_count menu \<noteq> 0" using assms(2) by auto
  with False ui_menu_run_picked [OF assms] show ?thesis by (auto simp: picked_def)
qed


section \<open>A console on which Enter is pressed\<close>

lemma uart_puts_live: "uart_live E b \<Longrightarrow> \<exists>m'. uart_puts E b cs m = Some m'"
  unfolding uart_puts_put_all using uart.put_all_total by blast

lemma uart_printf_live:
  "uart_live E b \<Longrightarrow> render_printf (bytes_of fmt) ap = Some out \<Longrightarrow> \<exists>m'. uart_printf E b fmt ap m = Some m'"
  unfolding uart_printf_def by (simp add: uart_vprintf_put_all) (use uart.put_all_total in blast)

lemma render_item_live:
  assumes "uart_live E b"
  shows "\<exists>m'. render_item E b sel it m = Some m'"
proof -
  have c: "render_printf (bytes_of '' %c %s'') [VWord c, VStr s] = Some (32 # ucast c # 32 # render_puts s)" for c s
    by (simp add: bytes_of_def byte_of_char_def)
  have h: "render_printf (bytes_of ''  [%s]'') [VStr s] = Some (32 # 32 # 91 # render_puts s @ [93])" for s
    by (simp add: bytes_of_def byte_of_char_def)
  obtain m1 where 1: "(if sel then uart_puts E b ANSI_REVERSE m
      else if disabled it then uart_puts E b ANSI_DIM m else Some m) = Some m1"
    using uart_puts_live [OF assms] by (cases sel; cases "disabled it") auto
  obtain m2 where 2: "uart_printf E b '' %c %s''
       [VWord (if sel then 62 else 32), VStr (case i_label it of Some l \<Rightarrow> l | None \<Rightarrow> [])] m1 = Some m2"
    using uart_printf_live [OF assms c] by blast
  obtain m3 where 3: "(case hint it of Some h \<Rightarrow> uart_printf E b ''  [%s]'' [VStr h] m2 | None \<Rightarrow> Some m2) = Some m3"
    using uart_printf_live [OF assms h] by (cases "hint it") auto
  show ?thesis using 1 2 3 uart_puts_live [OF assms] by (simp add: render_item_def)
qed

lemma render_items_live: "uart_live E b \<Longrightarrow> \<exists>m'. render_items E b menu is m = Some m'"
proof (induction "is" arbitrary: m)
  case (Cons i "is")
  obtain m1 where "render_item E b (of_nat i = selected menu) (items menu ! i) m = Some m1"
    using render_item_live [OF Cons.prems] by blast
  then show ?case using Cons by simp
qed simp

lemma render_uart_live:
  assumes "uart_live E b"
  shows "\<exists>m'. render_uart E b menu m = Some m'"
proof -
  obtain m1 where 1: "uart_puts E b (ANSI_CLEAR @ ANSI_HIDE_CUR) m = Some m1" using uart_puts_live [OF assms] by blast
  have t: "render_printf (bytes_of (''=== %s ==='' @ [CHR 0x0A, CHR 0x0A])) [VStr s] =
      Some (61 # 61 # 61 # 32 # render_puts s @ [32, 61, 61, 61, 10, 10])" for s
    by (simp add: bytes_of_def byte_of_char_def)
  obtain m2 where 2: "(case title menu of Some t \<Rightarrow> uart_printf E b (''=== %s ==='' @ [CHR 0x0A, CHR 0x0A]) [VStr t] m1
      | None \<Rightarrow> Some m1) = Some m2"
    using uart_printf_live [OF assms t] by (cases "title menu") auto
  obtain m3 where 3: "render_items E b menu [0..<unat (m_count menu)] m2 = Some m3"
    using render_items_live [OF assms] by blast
  show ?thesis unfolding render_uart_def 1 bind.bind_lunit 2 3 by (rule uart_puts_live [OF assms])
qed

definition data_at :: "env \<Rightarrow> u64 \<Rightarrow> history \<Rightarrow> nat \<Rightarrow> bool" where
  "data_at E b h k =
     ((ucast (E (h @ replicate k (Rd8 (lsr_addr b))) (Rd8 (lsr_addr b))) :: u8) AND LSR_DR \<noteq> 0)"

text \<open>From a history on, \<open>k\<close> polls find no byte and the next finds Enter.\<close>

definition enter_at :: "env \<Rightarrow> u64 \<Rightarrow> history \<Rightarrow> nat \<Rightarrow> bool" where
  "enter_at E b h k \<longleftrightarrow> (\<forall>j<k. \<not> data_at E b h j) \<and> data_at E b h k \<and>
     (ucast (E (h @ replicate (Suc k) (Rd8 (lsr_addr b))) (Rd8 b)) :: u8) = 13"

lemma enter_at_shift: "enter_at E b h (Suc k) \<Longrightarrow> enter_at E b (h @ [Rd8 (lsr_addr b)]) k"
  by (auto simp: enter_at_def data_at_def replicate_app_Cons_same dest: spec [of _ "Suc _"])

lemma wait_enter:
  assumes "enter_at E b (trace (w_mach w)) k" "uart_enabled (w_ui w)" "\<not> gfx_enabled (w_ui w)" "uart_esc_state w = 0"
  shows "\<exists>m'. ui_wait_key E b w = Some (UI_KEY_ENTER, w\<lparr>w_mach := m'\<rparr>)"
  using assms
proof (induction k arbitrary: w)
  case 0
  have "uart_poll_key E b w = (UI_KEY_ENTER, w\<lparr>w_mach := emits [Rd8 (lsr_addr b), Rd8 b] (w_mach w)\<rparr>)"
    using 0 by (simp add: uart_poll_key_def uart_getc_nb_def uart_r_def UART_LSR_def UART_RBR_def lsr_addr_def
        enter_at_def data_at_def mmio_r8_def emit_emits uart_decode_byte_def)
  then show ?case using 0 by (subst ui_wait_key.simps) (auto simp: ui_poll_key_def ui_keys)
next
  case (Suc k)
  let ?w = "w\<lparr>w_mach := emits [Rd8 (lsr_addr b)] (w_mach w)\<rparr>"
  have "\<not> data_at E b (trace (w_mach w)) 0" using Suc.prems(1) by (simp add: enter_at_def)
  then have "uart_poll_key E b w = (UI_KEY_NONE, ?w)"
    by (simp add: uart_poll_key_def uart_getc_nb_def uart_r_def UART_LSR_def lsr_addr_def data_at_def mmio_r8_def emit_emits)
  then have "ui_wait_key E b w = ui_wait_key E b ?w"
    using Suc.prems by (subst ui_wait_key.simps) (simp add: ui_poll_key_def)
  moreover have "enter_at E b (trace (w_mach ?w)) k" using enter_at_shift [OF Suc.prems(1)] by simp
  ultimately show ?case using Suc.IH [of ?w] Suc.prems by simp
qed

lemma menu_start_first:
  assumes "unat (m_count menu) = length (items menu)" "m_count menu \<le> 0x80000000" "\<exists>it\<in>set (items menu). \<not> disabled it"
  shows "\<exists>i<length (items menu). menu_start menu = menu\<lparr>selected := of_nat i\<rparr> \<and> \<not> disabled (items menu ! i) \<and>
    (selected menu < m_count menu \<and> \<not> disabled (items menu ! unat (selected menu)) \<longrightarrow> i = unat (selected menu))"
proof -
  define s where "s = (if selected menu \<ge> m_count menu then 0 else selected menu)"
  have pos: "0 < length (items menu)" using assms(3) by auto
  then have n: "unat s < length (items menu)" "length (items menu) \<le> 2 ^ 31" "m_count menu \<noteq> 0"
    using assms(1,2) by (auto simp: s_def word_le_nat_alt word_less_nat_alt not_le)
  define j where "j = skip_loop menu True s (length (items menu)) s"
  have ms: "menu_start menu = menu\<lparr>selected := j\<rparr>"
  proof -
    have "skip_disabled (menu\<lparr>selected := 0\<rparr>) from True = skip_disabled menu from True" for "from"
    proof -
      have "skip_loop (menu\<lparr>selected := 0\<rparr>) True from k i = skip_loop menu True from k i" for k i
        by (induction k arbitrary: i) simp_all
      then show ?thesis by (simp add: skip_disabled_def)
    qed
    moreover have "skip_disabled menu s True = j" using n(3) assms(1) by (simp add: skip_disabled_def j_def)
    ultimately show ?thesis
      by (cases "m_count menu \<le> selected menu") (simp_all add: menu_start_def s_def Let_def)
  qed
  have z: "unat s = cursor_at True (length (items menu)) (unat s) 0" using n(1) by (simp add: cursor_at_def)
  have "\<not> (\<forall>d\<in>{0..<0 + length (items menu)}. disabled (items menu ! cursor_at True (length (items menu)) (unat s) d))"
  proof
    assume a: "\<forall>d\<in>{0..<0 + length (items menu)}. disabled (items menu ! cursor_at True (length (items menu)) (unat s) d)"
    have "disabled (items menu ! i)" if l: "i < length (items menu)" for i
    proof -
      obtain d where d: "d \<le> length (items menu)" "cursor_at True (length (items menu)) (unat s) d = i"
        using cursor_at_covers [OF n(1) l, of True] by blast
      then show ?thesis using bspec [OF a, of "if d = length (items menu) then 0 else d"] pos
        by (cases "d = length (items menu)") (simp_all add: cursor_at_def)
    qed
    then show False using assms(3) by (auto simp: in_set_conv_nth)
  qed
  then obtain e where e: "e < length (items menu)" "unat j = cursor_at True (length (items menu)) (unat s) e"
    "\<not> disabled (items menu ! unat j)" "\<forall>d\<in>{0..<e}. disabled (items menu ! cursor_at True (length (items menu)) (unat s) d)"
    using skip_loop_nearest [OF assms(1) pos n(2,1), of 0 "length (items menu)" s True s] z unfolding j_def by auto
  have "unat j < length (items menu)" using e(2) pos by (simp add: cursor_at_def)
  moreover have "unat j = unat (selected menu)" if "selected menu < m_count menu" "\<not> disabled (items menu ! unat (selected menu))"
  proof -
    have s: "s = selected menu" using that(1) by (auto simp: s_def dest: leD)
    have "e = 0"
    proof (rule ccontr)
      assume "e \<noteq> 0"
      with e(4) have "disabled (items menu ! cursor_at True (length (items menu)) (unat s) 0)" by simp
      with that(2) z s show False by metis
    qed
    then show ?thesis using e(2) z s by metis
  qed
  ultimately show ?thesis using e(3) ms by (intro exI [of _ "unat j"]) simp
qed

lemma ui_menu_run_enter:
  assumes "uart_live E b" "\<forall>h. \<exists>k. enter_at E b h k"
    and "uart_enabled (w_ui w)" "\<not> gfx_enabled (w_ui w)" "uart_esc_state w = 0"
    and "unat (m_count menu) = length (items menu)" "m_count menu \<le> 0x80000000"
    and "\<exists>it\<in>set (items menu). \<not> disabled it"
  shows "\<exists>i m'. i < length (items menu) \<and> \<not> disabled (items menu ! i) \<and>
    ui_menu_run E b menu w = Some (i_id (items menu ! i), menu\<lparr>selected := of_nat i\<rparr>, w\<lparr>w_mach := m'\<rparr>) \<and>
    (selected menu < m_count menu \<and> \<not> disabled (items menu ! unat (selected menu)) \<longrightarrow> i = unat (selected menu))"
proof -
  obtain i where i: "i < length (items menu)" "menu_start menu = menu\<lparr>selected := of_nat i\<rparr>" "\<not> disabled (items menu ! i)"
    "selected menu < m_count menu \<and> \<not> disabled (items menu ! unat (selected menu)) \<longrightarrow> i = unat (selected menu)"
    using menu_start_first [OF assms(6,7,8)] by blast
  let ?menu = "menu\<lparr>selected := of_nat i\<rparr>"
  have nz: "m_count menu \<noteq> 0" using i(1) assms(6) by auto
  have u: "unat (of_nat i :: u32) = i"
    using i(1) assms(6) unat_u32_less [of "m_count menu"] by (intro unat_of_nat_small) simp
  obtain m1 where m1: "render_uart E b ?menu (w_mach w) = Some m1" using render_uart_live [OF assms(1)] by blast
  obtain k where k: "enter_at E b (trace m1) k" using assms(2) by blast
  let ?w1 = "w\<lparr>w_mach := m1\<rparr>"
  obtain m2 where m2: "ui_wait_key E b ?w1 = Some (UI_KEY_ENTER, ?w1\<lparr>w_mach := m2\<rparr>)"
    using wait_enter [of E b ?w1 k] k assms(3,4,5) by auto
  obtain m3 where m3: "uart_puts E b ANSI_SHOW_CUR m2 = Some m3" using uart_puts_live [OF assms(1)] by blast
  have r: "render_menu E b ?menu w = Some ?w1" using m1 assms(3,4) by (simp add: render_menu_def)
  have mk: "menu_key UI_KEY_ENTER ?menu = (?menu, Some (i_id (items menu ! i)))"
    using i(3) u by (simp add: menu_key_def ui_keys)
  have "ui_menu_loop E b (?menu, w) = Some (i_id (items menu ! i), ?menu, w\<lparr>w_mach := m3\<rparr>)"
    using assms(3) m3 by (subst ui_menu_loop.simps) (simp add: r m2 mk)
  then show ?thesis using i nz by (intro exI [of _ i] exI [of _ m3]) (simp add: ui_menu_run_def)
qed

text \<open>C36: on a console that always drains, and at which Enter is the next key whenever the menu
  waits, a menu of at most \<open>2 ^ 31\<close> items with at least one that is not disabled is answered:
  \<open>ui_menu_run\<close> returns the identifier of an item that is not disabled, which is the one the
  caller had selected when that one is not disabled.\<close>

theorem ui_menu_run_answered:
  assumes "uart_live E b" "\<forall>h. \<exists>k. enter_at E b h k"
    and "uart_enabled (w_ui w)" "\<not> gfx_enabled (w_ui w)" "uart_esc_state w = 0"
    and "unat (m_count menu) = length (items menu)" "m_count menu \<le> 0x80000000"
    and "\<exists>it\<in>set (items menu). \<not> disabled it"
  shows "\<exists>i m'. i < length (items menu) \<and> \<not> disabled (items menu ! i) \<and>
    ui_menu_run E b menu w = Some (i_id (items menu ! i), menu\<lparr>selected := of_nat i\<rparr>, w\<lparr>w_mach := m'\<rparr>) \<and>
    (selected menu < m_count menu \<and> \<not> disabled (items menu ! unat (selected menu)) \<longrightarrow> i = unat (selected menu))"
  using ui_menu_run_enter [OF assms] .

definition demo_world :: ui_world where
  "demo_world = \<lparr>w_ui = \<lparr>uart_enabled = True, gfx_enabled = False, ui_gfx = demo_gfx, ui_text = None, ui_kb = None\<rparr>,
     w_hid = undefined, uart_esc_state = 0, w_mem = (\<lambda>_. 0), w_mach = mach0\<rparr>"

text \<open>A console that is always ready, on which Enter is always typed.\<close>

definition demo_enter :: env where
  "demo_enter h a = (case a of Rd8 x \<Rightarrow> if x = 0x10000005 then 0x21 else 13 | _ \<Rightarrow> 0)"

lemma demo_enter_ok: "uart_live demo_enter 0x10000000" "\<forall>h. \<exists>k. enter_at demo_enter 0x10000000 h k"
proof -
  show "uart_live demo_enter 0x10000000" by (simp add: uart_live_def thre_at_def LSR_THRE_def demo_enter_def lsr_addr_def)
  have "enter_at demo_enter 0x10000000 h 0" for h
    by (simp add: enter_at_def data_at_def demo_enter_def lsr_addr_def LSR_DR_def)
  then show "\<forall>h. \<exists>k. enter_at demo_enter 0x10000000 h k" by blast
qed

lemma ui_menu_run_answered_witness:
  "\<exists>m'. ui_menu_run demo_enter 0x10000000 demo_menu demo_world = Some (5, demo_menu, demo_world\<lparr>w_mach := m'\<rparr>)"
proof -
  have "unat (m_count demo_menu) = length (items demo_menu)" "m_count demo_menu \<le> 0x80000000"
    "\<exists>it\<in>set (items demo_menu). \<not> disabled it" "uart_enabled (w_ui demo_world)" "\<not> gfx_enabled (w_ui demo_world)"
    "uart_esc_state demo_world = 0"
    by (simp_all add: demo_menu_def plain_item_def demo_world_def)
  with ui_menu_run_answered [OF demo_enter_ok, of demo_world demo_menu] show ?thesis
    by (auto simp: demo_menu_def plain_item_def)
qed

lemma demo_run:
  assumes "0 < length its" "length its \<le> 64" "\<forall>it\<in>set its. \<not> disabled it"
  shows "\<exists>m'. ui_menu_run demo_enter 0x10000000 \<lparr>title = t, items = its, m_count = of_nat (length its), selected = 0\<rparr> demo_world =
    Some (i_id (its ! 0), \<lparr>title = t, items = its, m_count = of_nat (length its), selected = 0\<rparr>, demo_world\<lparr>w_mach := m'\<rparr>)"
proof -
  let ?menu = "\<lparr>title = t, items = its, m_count = of_nat (length its), selected = 0\<rparr>"
  have u: "unat (of_nat (length its) :: u32) = length its" using assms(2) by (intro unat_of_nat_small) simp
  then have "unat (m_count ?menu) = length (items ?menu)" "m_count ?menu \<le> 0x80000000" "0 < m_count ?menu"
    using assms by (simp_all add: word_le_nat_alt word_less_nat_alt)
  moreover have "\<not> disabled (its ! 0)" "\<exists>it\<in>set (items ?menu). \<not> disabled it"
    using assms by (simp, metis list.set_sel(1) length_greater_0_conv ui_menu.select_convs(2))
  moreover have "uart_enabled (w_ui demo_world)" "\<not> gfx_enabled (w_ui demo_world)" "uart_esc_state demo_world = 0"
    by (simp_all add: demo_world_def)
  ultimately obtain i m' where i: "ui_menu_run demo_enter 0x10000000 ?menu demo_world =
      Some (i_id (items ?menu ! i), ?menu\<lparr>selected := of_nat i\<rparr>, demo_world\<lparr>w_mach := m'\<rparr>)" "i = unat (selected ?menu)"
    using ui_menu_run_enter [OF demo_enter_ok, of demo_world ?menu] by auto
  then have "i = 0" by simp
  with i(1) show ?thesis by (intro exI [of _ m']) simp
qed

lemma ui_menu_run_enabled_witness:
  "\<exists>menu' w'. ui_menu_run demo_enter 0x10000000 \<lparr>title = None, items = [plain_item ''a'' 5], m_count = 1, selected = 0\<rparr> demo_world =
      Some (5, menu', w') \<and> items menu' = [plain_item ''a'' 5] \<and> selected menu' = 0"
proof -
  obtain m' where r: "ui_menu_run demo_enter 0x10000000 \<lparr>title = None, items = [plain_item ''a'' 5], m_count = 1, selected = 0\<rparr> demo_world =
      Some (5, \<lparr>title = None, items = [plain_item ''a'' 5], m_count = 1, selected = 0\<rparr>, demo_world\<lparr>w_mach := m'\<rparr>)"
    using demo_run [of "[plain_item ''a'' 5]" None] by (auto simp: plain_item_def)
  from ui_menu_run_enabled [OF r] r show ?thesis by (simp add: unat_eq_0)
qed

text \<open>A directory with the single file \<open>A.GB\<close>.\<close>

definition demo_readdir :: "nat \<Rightarrow> ui_world \<Rightarrow> i32 \<times> FILINFO \<times> nat \<times> ui_world" where
  "demo_readdir d w = (0, \<lparr>fname = if d = 0 then bytes_of ''A.GB'' else [], fattrib = 0x20\<rparr>, d + 1, w)"


end
