(* ===== verification/FwCfg.thy ===== *)
theory FwCfg
  imports Machine Fdt
begin

text \<open>
  The QEMU configuration port \<open>src/fw_cfg.c\<close> and the parallel flash \<open>src/cfi.c\<close>: two small
  drivers that select something with a register write and then stream bytes.  A name of the
  caller is its memory, read up to the comparison's end.
\<close>

section \<open>The configuration port\<close>

definition FW_CFG_REG_DATA :: u64 where "FW_CFG_REG_DATA = 0x00"
definition FW_CFG_REG_SEL :: u64 where "FW_CFG_REG_SEL = 0x08"
definition FW_CFG_SIGNATURE :: u16 where "FW_CFG_SIGNATURE = 0x0000"
definition FW_CFG_FILE_DIR :: u16 where "FW_CFG_FILE_DIR = 0x0019"

record fw_cfg =
  fw_cfg_base :: u64
  fw_cfg_ok :: bool

record fw_cfg_file =
  f_size :: u32
  f_select :: u16
  f_reserved :: u16
  f_name :: "u8 list"

definition bswap16 :: "u16 \<Rightarrow> u16" where
  "bswap16 v = push_bit 8 v OR drop_bit 8 v"

definition bswap32 :: "u32 \<Rightarrow> u32" where
  "bswap32 v = push_bit 24 (v AND 0x000000FF) OR push_bit 8 (v AND 0x0000FF00)
     OR drop_bit 8 (v AND 0x00FF0000) OR drop_bit 24 (v AND 0xFF000000)"

definition fw_cfg_select :: "fw_cfg \<Rightarrow> u16 \<Rightarrow> mach \<Rightarrow> mach" where
  "fw_cfg_select d sel m = mmio_w16 (fw_cfg_base d + FW_CFG_REG_SEL) (bswap16 sel) m"

fun fw_cfg_read :: "env \<Rightarrow> fw_cfg \<Rightarrow> nat \<Rightarrow> mach \<Rightarrow> u8 list \<times> mach" where
  "fw_cfg_read E d 0 m = ([], m)"
| "fw_cfg_read E d (Suc n) m =
     (let (b, m) = mmio_r8 E (fw_cfg_base d + FW_CFG_REG_DATA) m; (bs, m) = fw_cfg_read E d n m in (b # bs, m))"

definition fw_cfg_init :: "env \<Rightarrow> u64 \<Rightarrow> fw_cfg \<times> mach \<Rightarrow> bool \<times> fw_cfg \<times> mach" where
  "fw_cfg_init E b = (\<lambda>(d, m).
     if b = 0 then (False, d, m)
     else
       (let d = d\<lparr>fw_cfg_base := b\<rparr>;
            m = fw_cfg_select d FW_CFG_SIGNATURE m;
            (sig, m) = fw_cfg_read E d 4 m;
            ok = (sig = bytes_of ''QEMU'')
        in (ok, d\<lparr>fw_cfg_ok := ok\<rparr>, m)))"

definition fw_cfg_init_fdt :: "env \<Rightarrow> mem \<Rightarrow> fdt \<Rightarrow> fw_cfg \<times> mach \<Rightarrow> (bool \<times> fw_cfg \<times> mach) option" where
  "fw_cfg_init_fdt E M fdt = (\<lambda>(d, m). do {
     off \<leftarrow> fdt_find_compatible M fdt (bytes_of ''qemu,fw-cfg-mmio'');
     if off = UINT32_MAX then Some (False, d, m)
     else do {
       reg \<leftarrow> fdt_node_reg64 M fdt off 0;
       Some (case reg of None \<Rightarrow> (False, d, m) | Some (at, sz) \<Rightarrow> fw_cfg_init E at (d, m)) } })"

definition fw_cfg_present :: "fw_cfg \<Rightarrow> bool" where
  "fw_cfg_present d = fw_cfg_ok d"

text \<open>A directory entry as it lies in memory on a little-endian machine, before the swaps.\<close>

definition file_of_bytes :: "u8 list \<Rightarrow> fw_cfg_file" where
  "file_of_bytes e =
     \<lparr>f_size = be32_of (e ! 3) (e ! 2) (e ! 1) (e ! 0), f_select = be16_of (e ! 5) (e ! 4),
      f_reserved = be16_of (e ! 7) (e ! 6), f_name = take 56 (drop 8 e)\<rparr>"

text \<open>The comparison of the \<open>k\<close>-th bytes on; it stops at a difference, at a common
  terminator or at the end of the entry's field.\<close>

fun name_match :: "mem \<Rightarrow> u64 \<Rightarrow> u8 list \<Rightarrow> bool" where
  "name_match M a [] = True"
| "name_match M a (b # bs) = (if M a \<noteq> b then False else if M a = 0 then True else name_match M (a + 1) bs)"

fun find_file_loop :: "env \<Rightarrow> mem \<Rightarrow> u64 \<Rightarrow> fw_cfg \<Rightarrow> nat \<Rightarrow> mach \<Rightarrow> fw_cfg_file option \<times> mach" where
  "find_file_loop E M name d 0 m = (None, m)"
| "find_file_loop E M name d (Suc n) m =
     (let (bs, m) = fw_cfg_read E d 64 m;
          e = file_of_bytes bs;
          e = e\<lparr>f_size := bswap32 (f_size e)\<rparr>;
          e = e\<lparr>f_select := bswap16 (f_select e)\<rparr>
      in if name_match M name (f_name e) then (Some e, m) else find_file_loop E M name d n m)"

definition fw_cfg_find_file :: "env \<Rightarrow> mem \<Rightarrow> u64 \<Rightarrow> fw_cfg \<Rightarrow> mach \<Rightarrow> fw_cfg_file option \<times> mach" where
  "fw_cfg_find_file E M name d m =
     (if \<not> fw_cfg_ok d then (None, m)
      else
        (let m = fw_cfg_select d FW_CFG_FILE_DIR m;
             (cb, m) = fw_cfg_read E d 4 m;
             count = be32_of (cb ! 0) (cb ! 1) (cb ! 2) (cb ! 3)
         in find_file_loop E M name d (unat count) m))"

section \<open>The flash\<close>

definition CFI_CMD_READ_ARRAY :: u8 where "CFI_CMD_READ_ARRAY = 0xFF"
definition CFI_CMD_QUERY :: u8 where "CFI_CMD_QUERY = 0x98"
definition CFI_QRY_Q :: u32 where "CFI_QRY_Q = 0x10"
definition CFI_QRY_R :: u32 where "CFI_QRY_R = 0x11"
definition CFI_QRY_Y :: u32 where "CFI_QRY_Y = 0x12"
definition CFI_QRY_CMDSET_LO :: u32 where "CFI_QRY_CMDSET_LO = 0x13"
definition CFI_QRY_CMDSET_HI :: u32 where "CFI_QRY_CMDSET_HI = 0x14"
definition CFI_QRY_DEV_SIZE_N :: u32 where "CFI_QRY_DEV_SIZE_N = 0x27"

record cfi =
  cfi_base :: u64
  bank_width :: u32
  size_bytes :: u32
  cmdset :: u16
  cfi_ok :: bool

definition cfi_read_table :: "env \<Rightarrow> cfi \<Rightarrow> u32 \<Rightarrow> mach \<Rightarrow> u8 \<times> mach" where
  "cfi_read_table E f idx m = mmio_r8 E (cfi_base f + ucast idx * ucast (bank_width f)) m"

definition cfi_cmd :: "cfi \<Rightarrow> u8 \<Rightarrow> mach \<Rightarrow> mach" where
  "cfi_cmd f cmd m =
     (if bank_width f = 4 then mmio_w32 (cfi_base f) (ucast cmd) m
      else if bank_width f = 2 then mmio_w16 (cfi_base f) (ucast cmd) m
      else mmio_w8 (cfi_base f) cmd m)"

text \<open>The signature test reads one letter at a time and stops at the first wrong one.\<close>

fun cfi_signature :: "env \<Rightarrow> cfi \<Rightarrow> (u32 \<times> u8) list \<Rightarrow> mach \<Rightarrow> bool \<times> mach" where
  "cfi_signature E f [] m = (True, m)"
| "cfi_signature E f ((i, c) # cs) m =
     (let (v, m) = cfi_read_table E f i m in if v \<noteq> c then (False, m) else cfi_signature E f cs m)"

definition cfi_init :: "env \<Rightarrow> u64 \<Rightarrow> u32 \<Rightarrow> mach \<Rightarrow> bool \<times> cfi \<times> mach" where
  "cfi_init E b bw m =
     (let f = \<lparr>cfi_base = b, bank_width = (if bw \<noteq> 0 then bw else 4), size_bytes = 0, cmdset = 0, cfi_ok = False\<rparr> in
      if b = 0 then (False, f, m)
      else
        (let m = cfi_cmd f CFI_CMD_QUERY m;
             (sig, m) = cfi_signature E f [(CFI_QRY_Q, 0x51), (CFI_QRY_R, 0x52), (CFI_QRY_Y, 0x59)] m in
         if \<not> sig then (False, f, cfi_cmd f CFI_CMD_READ_ARRAY m)
         else
           (let (lo, m) = cfi_read_table E f CFI_QRY_CMDSET_LO m;
                (hi, m) = cfi_read_table E f CFI_QRY_CMDSET_HI m;
                (size_n, m) = cfi_read_table E f CFI_QRY_DEV_SIZE_N m;
                f = f\<lparr>cmdset := ucast lo OR push_bit 8 (ucast hi),
                      size_bytes := (if size_n < 32 then push_bit (unat size_n) 1 else 0), cfi_ok := True\<rparr>
            in (True, f, cfi_cmd f CFI_CMD_READ_ARRAY m))))"

definition cfi_init_fdt :: "env \<Rightarrow> mem \<Rightarrow> fdt \<Rightarrow> cfi \<times> mach \<Rightarrow> (bool \<times> cfi \<times> mach) option" where
  "cfi_init_fdt E M fdt = (\<lambda>(f, m). do {
     off \<leftarrow> fdt_find_compatible M fdt (bytes_of ''cfi-flash'');
     if off = UINT32_MAX then Some (False, f\<lparr>cfi_ok := False\<rparr>, m)
     else do {
       reg \<leftarrow> fdt_node_reg64 M fdt off 0;
       case reg of None \<Rightarrow> Some (False, f, m)
       | Some (at, sz) \<Rightarrow> do {
           bw \<leftarrow> fdt_node_prop_u32 M fdt off (bytes_of ''bank-width'');
           let (ok, f, m) = cfi_init E at (case bw of Some v \<Rightarrow> v | None \<Rightarrow> 4) m;
           if \<not> ok then Some (False, f, m)
           else Some (True, if sz > ucast (size_bytes f) then f\<lparr>size_bytes := ucast sz\<rparr> else f, m) } } })"

text \<open>The bytes stored at the destination, and the count returned.\<close>

fun cfi_read_loop :: "env \<Rightarrow> u64 \<Rightarrow> nat \<Rightarrow> mach \<Rightarrow> u8 list \<times> mach" where
  "cfi_read_loop E a 0 m = ([], m)"
| "cfi_read_loop E a (Suc n) m =
     (let (b, m) = mmio_r8 E a m; (bs, m) = cfi_read_loop E (a + 1) n m in (b # bs, m))"

definition cfi_read :: "env \<Rightarrow> cfi \<Rightarrow> u32 \<Rightarrow> u32 \<Rightarrow> mach \<Rightarrow> u32 \<times> u8 list \<times> mach" where
  "cfi_read E f offset len m =
     (if \<not> cfi_ok f \<or> offset \<ge> size_bytes f then (0, [], m)
      else
        (let len = (if offset + len > size_bytes f then size_bytes f - offset else len);
             (bs, m) = cfi_read_loop E (cfi_base f + ucast offset) (unat len) m
         in (len, bs, m)))"

end
