(* ===== verification/Fatfs.thy ===== *)
theory Fatfs
  imports Nvme Timer
begin

text \<open>
  The glue between FatFs and the NVMe driver, \<open>src/fatfs_disk.c\<close>, with the settings of
  \<open>vendor/fatfs/ffconf.h\<close> (one volume, 32-bit sector numbers).  FatFs itself is vendored: its
  mount operation is a parameter of the two functions that call it.  The controllers are
  objects in a store, since FatFs and its client share them by address.
\<close>

section \<open>Volumes\<close>

definition FF_VOLUMES :: nat where "FF_VOLUMES = 1"

datatype DRESULT = RES_OK | RES_ERROR | RES_WRPRT | RES_NOTRDY | RES_PARERR

definition STA_NOINIT :: u8 where "STA_NOINIT = 0x01"
definition CTRL_SYNC :: u8 where "CTRL_SYNC = 0"
definition GET_SECTOR_COUNT :: u8 where "GET_SECTOR_COUNT = 1"
definition GET_SECTOR_SIZE :: u8 where "GET_SECTOR_SIZE = 2"
definition GET_BLOCK_SIZE :: u8 where "GET_BLOCK_SIZE = 3"
definition CTRL_TRIM :: u8 where "CTRL_TRIM = 4"

text \<open>The store of controllers, the drive bindings (address 0 is none) and the hart.\<close>

type_synonym controllers = "u64 \<Rightarrow> nvme"

record fs =
  fs_disk :: "u64 list"
  nvmes :: controllers

text \<open>The drive prefix of a path, whose bytes end before its terminator.\<close>

definition path_drive :: "u8 list option \<Rightarrow> nat" where
  "path_drive path = (case path of None \<Rightarrow> 0
     | Some p \<Rightarrow> (case p of a # b # _ \<Rightarrow> if 48 \<le> a \<and> a \<le> 57 \<and> b = 58 then unat (a - 48) else 0 | _ \<Rightarrow> 0))"

text \<open>\<open>f_mount\<close> is FatFs: it may call the disk functions below, so it changes the state.\<close>

definition fs_mount ::
  "(u8 list option \<Rightarrow> fs \<times> mach \<Rightarrow> i32 \<times> fs \<times> mach) \<Rightarrow> env \<Rightarrow> u64 \<Rightarrow> u64 \<Rightarrow> u8 list option \<Rightarrow> fs \<times> mach \<Rightarrow>
   (bool \<times> fs \<times> mach) option" where
  "fs_mount f_mount E ub disk path = (\<lambda>(s, m).
     if disk = 0 \<or> \<not> present (nvmes s disk)
     then do {
       m \<leftarrow> uart_puts E ub (bytes_of (''fs_mount: nvme_t isn'' @ [CHR 0x27] @ ''t initialised or has no namespace'' @ [CHR 0x0A])) m;
       Some (False, s, m) }
     else
       (let drv = path_drive path in
        if drv \<ge> FF_VOLUMES
        then do {
          m \<leftarrow> uart_printf E ub (''fs_mount: drive %d out of range (FF_VOLUMES=%u)'' @ [CHR 0x0A])
            [VWord (of_nat drv), VWord (of_nat FF_VOLUMES)] m;
          Some (False, s, m) }
        else
          (let s = s\<lparr>fs_disk := (fs_disk s)[drv := disk]\<rparr>;
               (r, s, m) = f_mount path (s, m) in
           if r \<noteq> 0
           then do {
             m \<leftarrow> uart_printf E ub (''fs_mount: f_mount('' @ [CHR 0x22] @ ''%s'' @ [CHR 0x22] @ '') failed (FRESULT=%d)'' @ [CHR 0x0A])
               [VStr (case path of None \<Rightarrow> [] | Some p \<Rightarrow> p), VWord (scast r)] m;
             Some (False, s\<lparr>fs_disk := (fs_disk s)[drv := 0]\<rparr>, m) }
           else Some (True, s, m))))"

definition fs_unmount ::
  "(u8 list option \<Rightarrow> fs \<times> mach \<Rightarrow> fs \<times> mach) \<Rightarrow> u8 list option \<Rightarrow> fs \<times> mach \<Rightarrow> fs \<times> mach" where
  "fs_unmount f_unmount path = (\<lambda>(s, m).
     let drv = path_drive path in
     if drv \<ge> FF_VOLUMES then (s, m)
     else (let (s, m) = f_unmount path (s, m) in (s\<lparr>fs_disk := (fs_disk s)[drv := 0]\<rparr>, m)))"

section \<open>Disk functions\<close>

definition resolve :: "fs \<Rightarrow> u8 \<Rightarrow> u64" where
  "resolve s pdrv = (if unat pdrv \<ge> FF_VOLUMES then 0 else fs_disk s ! unat pdrv)"

definition disk_status :: "fs \<Rightarrow> u8 \<Rightarrow> u8" where
  "disk_status s pdrv =
     (let d = resolve s pdrv in if d = 0 \<or> \<not> present (nvmes s d) then STA_NOINIT else 0)"

definition disk_initialize :: "fs \<Rightarrow> u8 \<Rightarrow> u8" where
  "disk_initialize s pdrv = disk_status s pdrv"

definition put_nvme :: "u64 \<Rightarrow> nvme \<Rightarrow> fs \<Rightarrow> fs" where
  "put_nvme d n s = s\<lparr>nvmes := (nvmes s)(d := n)\<rparr>"

definition disk_read ::
  "env \<Rightarrow> u64 \<Rightarrow> u8 \<Rightarrow> u64 \<Rightarrow> u32 \<Rightarrow> u32 \<Rightarrow> fs \<times> mach \<Rightarrow> (DRESULT \<times> fs \<times> mach) option" where
  "disk_read E ub pdrv buff sector count = (\<lambda>(s, m).
     let d = resolve s pdrv in
     if d = 0 then Some (RES_PARERR, s, m)
     else if \<not> present (nvmes s d) then Some (RES_NOTRDY, s, m)
     else do {
       (got, n, m) \<leftarrow> nvme_read E ub (nvmes s d) (ucast sector) buff count m;
       Some (if got = count then RES_OK else RES_ERROR, put_nvme d n s, m) })"

definition disk_write ::
  "env \<Rightarrow> u8 \<Rightarrow> u64 \<Rightarrow> u32 \<Rightarrow> u32 \<Rightarrow> fs \<times> mach \<Rightarrow> (DRESULT \<times> fs \<times> mach) option" where
  "disk_write E pdrv buff sector count = (\<lambda>(s, m).
     let d = resolve s pdrv in
     if d = 0 then Some (RES_PARERR, s, m)
     else if \<not> present (nvmes s d) then Some (RES_NOTRDY, s, m)
     else do {
       (put, n, m) \<leftarrow> nvme_write E (nvmes s d) (ucast sector) buff count m;
       Some (if put = count then RES_OK else RES_ERROR, put_nvme d n s, m) })"

text \<open>The bytes stored at the caller's buffer are part of the result.\<close>

definition disk_ioctl ::
  "env \<Rightarrow> u8 \<Rightarrow> u8 \<Rightarrow> fs \<times> mach \<Rightarrow> (DRESULT \<times> u8 list \<times> fs \<times> mach) option" where
  "disk_ioctl E pdrv cmd = (\<lambda>(s, m).
     let d = resolve s pdrv in
     if d = 0 then Some (RES_PARERR, [], s, m)
     else if \<not> present (nvmes s d) then Some (RES_NOTRDY, [], s, m)
     else if cmd = CTRL_SYNC
     then do { (ok, n, m) \<leftarrow> nvme_flush E (nvmes s d) m;
               Some (if ok then RES_OK else RES_ERROR, [], put_nvme d n s, m) }
     else if cmd = GET_SECTOR_COUNT then Some (RES_OK, le32_bytes (ucast (num_lbas (nvmes s d))), s, m)
     else if cmd = GET_SECTOR_SIZE
     then Some (RES_OK, [ucast NVME_LBA_SIZE, ucast (drop_bit 8 NVME_LBA_SIZE)], s, m)
     else if cmd = GET_BLOCK_SIZE then Some (RES_OK, le32_bytes 1, s, m)
     else if cmd = CTRL_TRIM then Some (RES_OK, [], s, m)
     else Some (RES_PARERR, [], s, m))"

section \<open>Time stamps\<close>

text \<open>The date arithmetic of the code on the integers: the clock delivers at most
  \<open>2 ^ 64 div 10 ^ 9\<close> seconds, for which no intermediate value leaves its C type.\<close>

record civil =
  c_year :: int
  c_month :: int
  c_mday :: int

definition civil_from_days :: "int \<Rightarrow> civil" where
  "civil_from_days d =
     (let days = d + 719468;
          era = (if days \<ge> 0 then days else days - 146096) div 146097;
          doe = days - era * 146097;
          yoe = (doe - doe div 1460 + doe div 36524 - doe div 146096) div 365;
          year = yoe + era * 400;
          doy = doe - (365 * yoe + yoe div 4 - yoe div 100);
          mp = (5 * doy + 2) div 153;
          mday = doy - (153 * mp + 2) div 5 + 1;
          month = (if mp < 10 then mp + 3 else mp - 9);
          year = (if month \<le> 2 then year + 1 else year)
      in \<lparr>c_year = year, c_month = month, c_mday = mday\<rparr>)"

definition fattime_pack :: "int \<Rightarrow> int \<Rightarrow> int \<Rightarrow> int \<Rightarrow> int \<Rightarrow> int \<Rightarrow> u32" where
  "fattime_pack year month mday hour mins sec =
     push_bit 25 (of_int (year - 1980)) OR push_bit 21 (of_int month) OR push_bit 16 (of_int mday)
     OR push_bit 11 (of_int hour) OR push_bit 5 (of_int mins) OR of_int (sec div 2)"

definition fattime_of :: "u64 \<Rightarrow> u32" where
  "fattime_of secs =
     (let c = civil_from_days (int (unat secs) div 86400);
          sec_of_day = int (unat secs) mod 86400;
          hour = sec_of_day div 3600; mins = (sec_of_day div 60) mod 60; sec = sec_of_day mod 60 in
      if c_year c < 1980 then fattime_pack 1980 1 1 0 0 0
      else fattime_pack (if c_year c > 2107 then 2107 else c_year c) (c_month c) (c_mday c) hour mins sec)"

definition get_fattime :: "env \<Rightarrow> u64 \<Rightarrow> mach \<Rightarrow> u32 \<times> mach" where
  "get_fattime E rtc_base m = (let (secs, m) = rtc_now_seconds E rtc_base m in (fattime_of secs, m))"

end
