(* ===== verification/Calendar.thy ===== *)
theory Calendar
  imports Fatfs
begin

text \<open>The calendar behind FatFs time stamps (\<open>src/src/fatfs_disk.c\<close>, \<open>get_fattime\<close>): a reference
  calendar that adds up whole years, months and days, and the proof that the era arithmetic of the
  code computes it for every reading of the clock.\<close>

section \<open>The calendar\<close>

definition leap :: "int \<Rightarrow> bool" where
  "leap y \<longleftrightarrow> y mod 4 = 0 \<and> (y mod 100 \<noteq> 0 \<or> y mod 400 = 0)"

definition year_days :: "int \<Rightarrow> int" where
  "year_days y = (if leap y then 366 else 365)"

definition month_days :: "int \<Rightarrow> int \<Rightarrow> int" where
  "month_days y m = (if m = 2 then (if leap y then 29 else 28) else if m \<in> {4, 6, 9, 11} then 30 else 31)"

text \<open>Days from 1 January 1970 to a date, by adding up whole years, whole months and days.\<close>

definition days_since_epoch :: "int \<Rightarrow> int \<Rightarrow> int \<Rightarrow> int" where
  "days_since_epoch y m d = sum_list (map year_days [1970..y - 1]) + sum_list (map (month_days y) [1..m - 1]) + d - 1"

definition valid_date :: "int \<Rightarrow> int \<Rightarrow> int \<Rightarrow> bool" where
  "valid_date y m d \<longleftrightarrow> 1 \<le> m \<and> m \<le> 12 \<and> 1 \<le> d \<and> d \<le> month_days y m"

text \<open>Days before 1 March of year \<open>y\<close>, counted from year 0.\<close>

definition march :: "int \<Rightarrow> int" where
  "march y = 365 * y + y div 4 - y div 100 + y div 400"

lemma div_step:
  fixes y k :: int
  assumes "0 < k"
  shows "(y + 1) div k = y div k + (if (y + 1) mod k = 0 then 1 else 0)"
proof -
  have m: "y mod k < k" "0 \<le> y mod k" using assms by simp_all
  have e: "y + 1 = k * (y div k) + (y mod k + 1)" by simp
  show ?thesis
  proof (cases "y mod k + 1 = k")
    case True
    then have "y + 1 = k * (y div k + 1)" using e by (simp add: algebra_simps)
    then show ?thesis using assms by simp
  next
    case False
    then have "0 \<le> y mod k + 1" "y mod k + 1 < k" using m by linarith+
    then have "(y + 1) div k = y div k" "(y + 1) mod k = y mod k + 1"
      using e div_mult_self4 [of k "y div k" "y mod k + 1"] by (metis add.commute add_0 assms div_mult_self4 div_pos_pos_trivial less_irrefl, metis mod_mult_self4 mod_pos_pos_trivial)
    then show ?thesis using m by simp
  qed
qed

lemma leap_count:
  fixes y p q r s t u :: int
  assumes "c \<Longrightarrow> b" "b \<Longrightarrow> a" "p = s + (if a then 1 else 0)" "q = t + (if b then 1 else 0)" "r = u + (if c then 1 else 0)"
  shows "365 * (y + 1) + p - q + r = 365 * y + s - t + u + (if a \<and> (\<not> b \<or> c) then 366 else 365)"
  using assms by (cases a; cases b; cases c) simp_all

lemma march_step: "march (y + 1) = march y + year_days (y + 1)"
proof -
  have "(y + 1) mod 400 = 0 \<Longrightarrow> (y + 1) mod 100 = 0" "(y + 1) mod 100 = 0 \<Longrightarrow> (y + 1) mod 4 = 0" by presburger+
  then show ?thesis unfolding march_def year_days_def leap_def
    by (intro leap_count div_step) simp_all
qed

lemma years_sum: "1970 \<le> y \<Longrightarrow> sum_list (map year_days [1970..y - 1]) = march (y - 1) - march 1969"
proof (induction y rule: int_ge_induct)
  case (step y)
  have "[1970..y + 1 - 1] = [1970..y - 1] @ [y]" using step.hyps by (simp add: upto_rec2)
  then show ?case using step march_step [of "y - 1"] by simp
qed (simp add: march_def)


text \<open>The year inside an era of 400 years: the estimate of the code is monotone in the day, so
  it is enough to look at the first and the last day of each year.\<close>

definition year_estimate :: "int \<Rightarrow> int" where
  "year_estimate d = d - d div 1460 + d div 36524 - d div 146096"

lemma estimate_count:
  fixes d p q r s t u :: int
  assumes "c \<Longrightarrow> b" "p = s + (if a then 1 else 0)" "q = t + (if b then 1 else 0)" "r = u + (if c then 1 else 0)"
  shows "d - s + t - u \<le> d + 1 - p + q - r"
  using assms by (cases a; cases b; cases c) simp_all

lemma year_estimate_step: "year_estimate d \<le> year_estimate (d + 1)"
proof -
  have "(d + 1) mod 146096 = 0 \<Longrightarrow> (d + 1) mod 36524 = 0"
    using dvd_trans [of 36524 146096 "d + 1"] by (simp only: mod_eq_0_iff_dvd) simp
  then show ?thesis unfolding year_estimate_def by (rule estimate_count [OF _ div_step div_step div_step]) simp_all
qed

lemma year_estimate_mono: "i \<le> j \<Longrightarrow> year_estimate i \<le> year_estimate j"
  by (induction j rule: int_ge_induct) (auto intro: order_trans [OF _ year_estimate_step])

lemma year_estimate_ends:
  "\<forall>y\<in>set [0..399]. 365 * y \<le> year_estimate (march y) \<and> year_estimate (march (y + 1) - 1) \<le> 365 * y + 364"
  unfolding list_all_iff [symmetric] by code_simp

lemma march_400: "march 400 = 146097"
  by (simp add: march_def)

lemma march_year:
  "0 \<le> n \<Longrightarrow> 0 \<le> d \<Longrightarrow> d < march n \<Longrightarrow> \<exists>y. 0 \<le> y \<and> y < n \<and> march y \<le> d \<and> d < march (y + 1)"
proof (induction n rule: int_ge_induct)
  case (step n)
  then show ?case
    by (cases "d < march n") (auto intro: exI [of _ n] dest: less_trans)
qed (simp_all add: march_def)

lemma year_of_era:
  assumes "0 \<le> d" "d < 146097"
  shows "0 \<le> year_estimate d div 365 \<and> year_estimate d div 365 \<le> 399 \<and>
    march (year_estimate d div 365) \<le> d \<and> d < march (year_estimate d div 365 + 1)"
proof -
  obtain y where y: "0 \<le> y" "y < 400" "march y \<le> d" "d < march (y + 1)"
    using march_year [of 400 d] assms march_400 by auto
  then have "365 * y \<le> year_estimate (march y)" "year_estimate (march (y + 1) - 1) \<le> 365 * y + 364"
    using year_estimate_ends by auto
  then have "365 * y \<le> year_estimate d" "year_estimate d \<le> 365 * y + 364"
    using year_estimate_mono [of "march y" d] year_estimate_mono [of d "march (y + 1) - 1"] y by linarith+
  then have "year_estimate d div 365 = y" by (intro int_div_pos_eq [of _ _ _ "year_estimate d - 365 * y"]) simp_all
  with y show ?thesis by simp
qed

text \<open>The day of the year from March on: its month and day of the month.\<close>

definition march_month_days :: "int list" where
  "march_month_days = [31, 30, 31, 30, 31, 31, 30, 31, 30, 31, 31, 29]"

lemma month_table:
  "\<forall>doy\<in>set [0..365]. let mp = (5 * doy + 2) div 153; off = (153 * mp + 2) div 5; mday = doy - off + 1 in
     0 \<le> mp \<and> mp \<le> 11 \<and> 1 \<le> mday \<and> mday \<le> march_month_days ! nat mp \<and>
     off = sum_list (take (nat mp) march_month_days) \<and> (mp = 11 \<and> mday = 29 \<longrightarrow> doy = 365)"
  unfolding list_all_iff [symmetric] by code_simp


text \<open>Whole months from January on are whole months from March on, shifted by the days of
  January and February.\<close>

lemma months_sum:
  assumes "0 \<le> k" "k \<le> 11"
  shows "k < 10 \<Longrightarrow> sum_list (map (month_days y) [1..k + 2]) =
      59 + (if leap y then 1 else 0) + sum_list (take (nat k) march_month_days)"
    and "10 \<le> k \<Longrightarrow> sum_list (map (month_days y) [1..k - 10]) = sum_list (take (nat k) march_month_days) - 306"
    and "month_days y (if k < 10 then k + 3 else k - 9) =
      (if k = 11 \<and> leap y then 29 else if k = 11 then 28 else march_month_days ! nat k)"
proof -
  have "k = 0 \<or> k = 1 \<or> k = 2 \<or> k = 3 \<or> k = 4 \<or> k = 5 \<or> k = 6 \<or> k = 7 \<or> k = 8 \<or> k = 9 \<or> k = 10 \<or> k = 11"
    using assms by presburger
  then show "k < 10 \<Longrightarrow> sum_list (map (month_days y) [1..k + 2]) =
      59 + (if leap y then 1 else 0) + sum_list (take (nat k) march_month_days)"
    "10 \<le> k \<Longrightarrow> sum_list (map (month_days y) [1..k - 10]) = sum_list (take (nat k) march_month_days) - 306"
    "month_days y (if k < 10 then k + 3 else k - 9) =
      (if k = 11 \<and> leap y then 29 else if k = 11 then 28 else march_month_days ! nat k)"
    by (auto simp: month_days_def march_month_days_def upto_rec1)
qed

lemma march_era: "march (y + e * 400) = march y + e * 146097"
proof -
  have "(y + e * 400) div 4 = y div 4 + e * 100" using div_mult_self1 [of 4 y "e * 100"] by (simp add: algebra_simps)
  moreover have "(y + e * 400) div 100 = y div 100 + e * 4" using div_mult_self1 [of 100 y "e * 4"] by (simp add: algebra_simps)
  ultimately show ?thesis by (simp add: march_def)
qed

lemma leap_era: "leap (y + e * 400) = leap y"
proof -
  have "(y + e * 400) mod 4 = y mod 4" using mod_mult_self1 [of y "e * 100" 4] by (simp add: algebra_simps)
  moreover have "(y + e * 400) mod 100 = y mod 100" using mod_mult_self1 [of y "e * 4" 100] by (simp add: algebra_simps)
  ultimately show ?thesis by (simp add: leap_def)
qed

lemma march_mono: "i \<le> j \<Longrightarrow> march i \<le> march j"
proof (induction j rule: int_ge_induct)
  case (step j)
  then show ?case using march_step [of j] by (simp add: year_days_def split: if_splits)
qed simp

lemma civil_from_days_correct:
  assumes "0 \<le> d"
  defines "c \<equiv> civil_from_days d"
  shows "valid_date (c_year c) (c_month c) (c_mday c) \<and> days_since_epoch (c_year c) (c_month c) (c_mday c) = d \<and> 1970 \<le> c_year c"
proof -
  define era where "era = (d + 719468) div 146097"
  define doe where "doe = d + 719468 - era * 146097"
  have doe: "0 \<le> doe" "doe < 146097"
    using pos_mod_bound [of 146097 "d + 719468"] pos_mod_sign [of 146097 "d + 719468"]
    by (simp_all add: doe_def era_def minus_div_mult_eq_mod)
  define yoe where "yoe = year_estimate doe div 365"
  define doy where "doy = doe - march yoe"
  define mp where "mp = (5 * doy + 2) div 153"
  define off where "off = (153 * mp + 2) div 5"
  define y where "y = yoe + era * 400"
  note yoe = year_of_era [OF doe, folded yoe_def]
  have "doy < year_days (yoe + 1)" "0 \<le> doy" using yoe march_step [of yoe] by (simp_all add: doy_def)
  then have doy: "0 \<le> doy" "doy \<le> 365" "doy = 365 \<Longrightarrow> leap (yoe + 1)" by (auto simp: year_days_def split: if_splits)
  then have "doy \<in> set [0..365]" by simp
  then have mt: "0 \<le> mp" "mp \<le> 11" "1 \<le> doy - off + 1" "doy - off + 1 \<le> march_month_days ! nat mp"
    "off = sum_list (take (nat mp) march_month_days)" "mp = 11 \<Longrightarrow> doy - off + 1 = 29 \<Longrightarrow> doy = 365"
    using month_table unfolding mp_def off_def Let_def by blast+
  have doyE: "doe - (365 * yoe + yoe div 4 - yoe div 100) = doy"
    using yoe by (simp add: doy_def march_def div_pos_pos_trivial)
  have pos: "0 \<le> d + 719468" using assms(1) by simp
  have "c = \<lparr>c_year = (if (if mp < 10 then mp + 3 else mp - 9) \<le> 2 then y + 1 else y),
      c_month = (if mp < 10 then mp + 3 else mp - 9), c_mday = doy - off + 1\<rparr>"
    by (simp only: c_def civil_from_days_def Let_def if_P [OF pos] era_def [symmetric] doe_def [symmetric]
        year_estimate_def [symmetric] yoe_def [symmetric] doyE mp_def [symmetric] off_def [symmetric] y_def [symmetric])
  then have c: "c_month c = (if mp < 10 then mp + 3 else mp - 9)" "c_mday c = doy - off + 1"
    "c_year c = (if mp < 10 then y else y + 1)"
    using mt(1,2) by simp_all
  have d: "d + 719468 = march y + doy" using march_era [of yoe era] by (simp add: doy_def doe_def y_def)
  have len: "doy - off + 1 \<le> month_days (c_year c) (c_month c)"
  proof (cases "mp = 11")
    case True
    moreover have "leap (y + 1) = leap (yoe + 1)" using leap_era [of "yoe + 1" era] by (simp add: y_def algebra_simps)
    moreover have "doy - off + 1 \<le> 29" using mt(4) True by (simp add: march_month_days_def)
    ultimately show ?thesis using months_sum(3) [OF mt(1,2), of "y + 1"] mt(6) doy(3) by (cases "doy - off = 28") (auto simp: c)
  qed (use mt(4) months_sum(3) [OF mt(1,2)] in \<open>simp add: c\<close>)
  have y: "1969 \<le> y" "mp < 10 \<Longrightarrow> 1970 \<le> y"
  proof -
    show "1969 \<le> y" using march_mono [of "y + 1" 1969] march_step [of y] d doy assms(1)
      by (cases "y + 1 \<le> 1969") (auto simp: march_def [of 1969] year_days_def split: if_splits)
    assume "mp < 10"
    then have "doy \<le> 305" by (simp add: mp_def)
    then show "1970 \<le> y" using march_mono [of y 1969] d assms(1)
      by (cases "y \<le> 1969") (auto simp: march_def [of 1969])
  qed
  have "days_since_epoch (c_year c) (c_month c) (c_mday c) = d"
  proof (cases "mp < 10")
    case True
    then show ?thesis
      using months_sum(1) [OF mt(1,2), of y] years_sum [OF y(2) [OF True]] march_step [of "y - 1"] d mt(5)
      by (cases "leap y") (simp_all add: c days_since_epoch_def year_days_def march_def [of 1969] add.commute)
  next
    case False
    then show ?thesis
      using months_sum(2) [OF mt(1,2), of "y + 1"] years_sum [of "y + 1"] y(1) d mt(5)
      by (simp add: c days_since_epoch_def march_def [of 1969])
  qed
  moreover have "1 \<le> c_month c" "c_month c \<le> 12" using mt(1,2) by (simp_all add: c)
  ultimately show ?thesis using mt(3) len y by (simp add: valid_date_def c)
qed


section \<open>The packed time stamp\<close>

lemma pack_field:
  fixes a b :: u32
  assumes "unat b < 2 ^ k" "unat a * 2 ^ k + unat b < 2 ^ 32" "k < 32"
  shows "unat (push_bit k a OR b) = unat a * 2 ^ k + unat b"
proof -
  have "unat (push_bit k a) = unat a * 2 ^ k"
  proof -
    have e: "push_bit k a = of_nat (unat a * 2 ^ k)" by (simp add: push_bit_eq_mult)
    show ?thesis unfolding e by (rule unat_of_nat_small) (use assms(2) in simp)
  qed
  then show ?thesis using assms by (simp add: or_disjoint_bytes [OF assms(1)] unat_add_no_wrap)
qed

lemma unat_of_int_small: "0 \<le> i \<Longrightarrow> i < 2 ^ 32 \<Longrightarrow> unat (of_int i :: u32) = nat i"
  by (simp add: unat_eq_nat_uint word_of_int_inverse uint_word_of_int)

lemma fattime_pack_fields:
  assumes "1980 \<le> y" "y \<le> 2107" "0 \<le> mo" "mo < 16" "0 \<le> d" "d < 32" "0 \<le> h" "h < 32" "0 \<le> mi" "mi < 64"
    "0 \<le> s" "s < 64"
  shows "int (unat (fattime_pack y mo d h mi s)) =
    (((y - 1980) * 16 + mo) * 32 + d) * 65536 + h * 2048 + mi * 32 + s div 2"
proof -
  define z where "z = y - 1980"
  have z: "0 \<le> z" "z < 128" using assms by (simp_all add: z_def)
  have u: "unat (of_int z :: u32) = nat z" "unat (of_int mo :: u32) = nat mo" "unat (of_int d :: u32) = nat d"
    "unat (of_int h :: u32) = nat h" "unat (of_int mi :: u32) = nat mi" "unat (of_int (s div 2) :: u32) = nat (s div 2)"
    by (rule unat_of_int_small; use assms z in simp)+
  define f0 where "f0 = (of_int (s div 2) :: u32)"
  define f1 where "f1 = push_bit 5 (of_int mi) OR f0"
  define f2 where "f2 = push_bit 11 (of_int h) OR f1"
  define f3 where "f3 = push_bit 16 (of_int d) OR f2"
  define f4 where "f4 = push_bit 21 (of_int mo) OR f3"
  have n: "nat (s div 2) < 32" "nat mi < 64" "nat h < 32" "nat d < 32" "nat mo < 16" "nat z < 128"
    using assms z by auto
  have f0: "unat f0 = nat (s div 2)" by (simp add: f0_def u)
  have f1: "unat f1 = nat mi * 2 ^ 5 + nat (s div 2)"
    unfolding f1_def u(5) [symmetric] f0 [symmetric] by (rule pack_field) (use n in \<open>simp_all add: f0 u\<close>)
  have f2: "unat f2 = nat h * 2 ^ 11 + unat f1"
    unfolding f2_def u(4) [symmetric] by (rule pack_field) (use n in \<open>simp_all add: f1 u\<close>)
  have f3: "unat f3 = nat d * 2 ^ 16 + unat f2"
    unfolding f3_def u(3) [symmetric] by (rule pack_field) (use n in \<open>simp_all add: f1 f2 u\<close>)
  have f4: "unat f4 = nat mo * 2 ^ 21 + unat f3"
    unfolding f4_def u(2) [symmetric] by (rule pack_field) (use n in \<open>simp_all add: f1 f2 f3 u\<close>)
  have "unat (push_bit 25 (of_int z) OR f4) = nat z * 2 ^ 25 + unat f4"
    unfolding u(1) [symmetric] by (rule pack_field) (use n in \<open>simp_all add: f1 f2 f3 f4 u\<close>)
  moreover have "fattime_pack y mo d h mi s = push_bit 25 (of_int z) OR f4"
    by (simp only: fattime_pack_def f4_def f3_def f2_def f1_def f0_def z_def or.assoc)
  ultimately show ?thesis using assms z f1 f2 f3 f4 by (simp add: z_def)
qed


lemma months_year: "valid_date y m d \<Longrightarrow> 0 \<le> sum_list (map (month_days y) [1..m - 1]) \<and>
  sum_list (map (month_days y) [1..m - 1]) + d \<le> year_days y"
proof -
  assume v: "valid_date y m d"
  then have "m = 1 \<or> m = 2 \<or> m = 3 \<or> m = 4 \<or> m = 5 \<or> m = 6 \<or> m = 7 \<or> m = 8 \<or> m = 9 \<or> m = 10 \<or> m = 11 \<or> m = 12"
    unfolding valid_date_def by presburger
  then show ?thesis using v
    by (elim disjE) (auto simp: valid_date_def month_days_def year_days_def upto_rec1)
qed

lemma date_years:
  assumes "valid_date y m d" "1970 \<le> y"
  shows "1980 \<le> y \<longleftrightarrow> 3652 \<le> days_since_epoch y m d" "2107 < y \<longleftrightarrow> 50403 \<le> days_since_epoch y m d"
proof -
  have e: "march (y - 1) \<le> days_since_epoch y m d + 719162" "days_since_epoch y m d + 719162 < march y"
    using months_year [OF assms(1)] march_step [of "y - 1"] assms
    by (auto simp: days_since_epoch_def years_sum march_def [of 1969] valid_date_def)
  show "1980 \<le> y \<longleftrightarrow> 3652 \<le> days_since_epoch y m d"
    using e march_mono [of 1979 "y - 1"] march_mono [of y 1979] by (cases "1980 \<le> y") (simp_all add: march_def [of 1979])
  show "2107 < y \<longleftrightarrow> 50403 \<le> days_since_epoch y m d"
    using e march_mono [of 2107 "y - 1"] march_mono [of y 2107] by (cases "2107 < y") (simp_all add: march_def [of 2107])
qed

text \<open>C15: the time stamp FatFs asks for, at any reading of the clock: before 1980 the first day a
  FAT volume can name; up to the end of 2107 the calendar date whose whole years, months and days
  since 1970 add up to the clock's days, with its hour, minute and second pair in their bit fields;
  after that the year 2107.\<close>

theorem get_fattime_correct:
  fixes E :: env and b :: u64 and m :: mach
  defines "secs \<equiv> int (unat (fst (rtc_now_seconds E b m)))" and "r \<equiv> int (unat (fst (get_fattime E b m)))"
  shows "if secs < 315532800 then r = 33 * 65536
     else \<exists>y mo d. valid_date y mo d \<and> 1980 \<le> y \<and> days_since_epoch y mo d = secs div 86400 \<and>
       (y \<le> 2107 \<longleftrightarrow> secs < 4354819200) \<and>
       r = (((min y 2107 - 1980) * 16 + mo) * 32 + d) * 65536 + (secs mod 86400 div 3600) * 2048
         + (secs mod 86400 div 60 mod 60) * 32 + secs mod 60 div 2"
proof -
  define c where "c = civil_from_days (secs div 86400)"
  have s: "0 \<le> secs" by (simp add: secs_def)
  then have "0 \<le> secs div 86400" by simp
  note c = civil_from_days_correct [OF this, folded c_def]
  have "r = int (unat (fattime_of (fst (rtc_now_seconds E b m))))"
    by (simp add: r_def get_fattime_def split: prod.splits)
  then have r: "r = int (unat (if c_year c < 1980 then fattime_pack 1980 1 1 0 0 0
      else fattime_pack (if c_year c > 2107 then 2107 else c_year c) (c_month c) (c_mday c)
        (secs mod 86400 div 3600) (secs mod 86400 div 60 mod 60) (secs mod 86400 mod 60)))"
    by (simp only: fattime_of_def Let_def secs_def c_def)
  have ml: "month_days (c_year c) (c_month c) < 32" by (simp add: month_days_def)
  have sm: "0 \<le> secs mod 86400" "secs mod 86400 < 86400" "secs mod 86400 mod 60 = secs mod 60"
    by (simp_all add: mod_mod_cancel)
  show ?thesis
  proof (cases "secs < 315532800")
    case True
    then have "\<not> 1980 \<le> c_year c" using date_years(1) [of "c_year c" "c_month c" "c_mday c"] c by simp
    then show ?thesis using True fattime_pack_fields [of 1980 1 1 0 0 0]
      by (simp add: r)
  next
    case False
    then have y: "1980 \<le> c_year c" using date_years(1) [of "c_year c" "c_month c" "c_mday c"] c by simp
    have "r = (((min (c_year c) 2107 - 1980) * 16 + c_month c) * 32 + c_mday c) * 65536 + (secs mod 86400 div 3600) * 2048
         + (secs mod 86400 div 60 mod 60) * 32 + secs mod 60 div 2"
    proof -
      have h: "0 \<le> secs mod 86400 div 3600" "secs mod 86400 div 3600 < 32"
        "0 \<le> secs mod 86400 div 60 mod 60" "secs mod 86400 div 60 mod 60 < 64" "0 \<le> secs mod 60" "secs mod 60 < 64"
        using sm(1,2) pos_mod_bound [of 60 secs] pos_mod_bound [of 60 "secs mod 86400 div 60"]
        by (simp_all add: div_less_iff_less_mult del: pos_mod_bound)
      have d: "0 \<le> c_month c" "c_month c < 16" "0 \<le> c_mday c" "c_mday c < 32" using c ml by (simp_all add: valid_date_def)
      have e: "(if c_year c > 2107 then 2107 else c_year c) = min (c_year c) 2107" by simp
      have n: "\<not> c_year c < 1980" "1980 \<le> min (c_year c) 2107" "min (c_year c) 2107 \<le> 2107" using y by simp_all
      show ?thesis unfolding r if_not_P [OF n(1)] e sm(3) by (rule fattime_pack_fields [OF n(2,3) d h])
    qed
    moreover have "c_year c \<le> 2107 \<longleftrightarrow> secs < 4354819200"
      using date_years(2) [of "c_year c" "c_month c" "c_mday c"] c by auto
    ultimately show ?thesis unfolding if_not_P [OF False]
      by (intro exI [of _ "c_year c"] exI [of _ "c_month c"] exI [of _ "c_mday c"] conjI) (use c y in blast)+
  qed
qed

end
