(* ===== verification/Panic.thy ===== *)
theory Panic
  imports Uart Sync
begin

text \<open>
  The panic dumper and clean exit, \<open>src/panic.c\<close>.  A panic never returns: the model's result
  is the state in which the hart enters its final \<open>wfi\<close> loop.  The bounds of the stack are
  the linker's symbols and so arguments; words of the stack are loads of the trace.  A 32-bit
  unsigned argument of the console's printf is passed sign-extended, as the calling convention
  of RV64 has it.
\<close>

section \<open>Tables\<close>

definition exc_names :: "string list" where
  "exc_names = [''instruction misaligned'', ''instruction access fault'', ''illegal instruction'', ''breakpoint'',
     ''load misaligned'', ''load access fault'', ''store misaligned'', ''store access fault'',
     ''ecall U'', ''ecall S'', ''reserved (10)'', ''ecall M'',
     ''instruction page fault'', ''load page fault'', ''reserved (14)'', ''store page fault'']"

definition exc_name_for :: "u64 \<Rightarrow> u8 list" where
  "exc_name_for mcause = bytes_of (if mcause < 16 then exc_names ! unat mcause else ''unknown'')"

definition gpr_names :: "string list" where
  "gpr_names = [''x0   zero '', ''x1   ra   '', ''x2   sp   '', ''x3   gp   '',
     ''x4   tp   '', ''x5   t0   '', ''x6   t1   '', ''x7   t2   '',
     ''x8   s0fp '', ''x9   s1   '', ''x10  a0   '', ''x11  a1   '',
     ''x12  a2   '', ''x13  a3   '', ''x14  a4   '', ''x15  a5   '',
     ''x16  a6   '', ''x17  a7   '', ''x18  s2   '', ''x19  s3   '',
     ''x20  s4   '', ''x21  s5   '', ''x22  s6   '', ''x23  s7   '',
     ''x24  s8   '', ''x25  s9   '', ''x26  s10  '', ''x27  s11  '',
     ''x28  t3   '', ''x29  t4   '', ''x30  t5   '', ''x31  t6   '']"

definition gpr_name :: "nat \<Rightarrow> u8 list" where
  "gpr_name i = bytes_of (gpr_names ! (i mod 32))"

definition print_reg :: "env \<Rightarrow> u64 \<Rightarrow> u8 list \<Rightarrow> u64 \<Rightarrow> mach \<Rightarrow> mach option" where
  "print_reg E ub name v m = do {
     m \<leftarrow> uart_puts E ub (bytes_of ''   '') m;
     m \<leftarrow> uart_puts E ub name m;
     m \<leftarrow> uart_puts E ub (bytes_of '' : '') m;
     m \<leftarrow> uart_put_hex64 E ub v m;
     uart_putc E ub 10 m }"

section \<open>The back trace\<close>

definition print_frame :: "env \<Rightarrow> u64 \<Rightarrow> nat \<Rightarrow> u64 \<Rightarrow> mach \<Rightarrow> mach option" where
  "print_frame E ub n addr m =
     uart_printf E ub (''     #%u  0x%x'' @ [CHR 0x0A]) [VWord (of_nat n), VWord addr] m"

text \<open>\<open>k\<close> rounds of the loop are left.\<close>

fun walk_frames :: "env \<Rightarrow> u64 \<Rightarrow> u64 \<Rightarrow> u64 \<Rightarrow> nat \<Rightarrow> nat \<Rightarrow> u64 \<Rightarrow> u64 \<Rightarrow> mach \<Rightarrow> mach option" where
  "walk_frames E ub lo hi 0 n prev_fp fp m = Some m"
| "walk_frames E ub lo hi (Suc k) n prev_fp fp m =
     (if \<not> n < 32 then Some m
      else if fp < lo + 16 \<or> fp > hi then Some m
      else if fp \<le> prev_fp then Some m
      else if fp AND 0xF \<noteq> 0 then Some m
      else
        (let (saved_ra, m) = mmio_r64 E (fp - 8) m;
             (saved_fp, m) = mmio_r64 E (fp - 16) m in
         if saved_ra = 0 then Some m
         else do { m \<leftarrow> print_frame E ub n saved_ra m; walk_frames E ub lo hi k (n + 1) fp saved_fp m }))"

definition walk_stack :: "env \<Rightarrow> u64 \<Rightarrow> u64 \<Rightarrow> u64 \<Rightarrow> u64 \<Rightarrow> u64 \<Rightarrow> u64 \<Rightarrow> mach \<Rightarrow> mach option" where
  "walk_stack E ub lo hi seed_pc seed_ra fp m = do {
     m \<leftarrow> uart_puts E ub (bytes_of (''   stack:'' @ [CHR 0x0A])) m;
     m \<leftarrow> uart_printf E ub (''     #0  0x%x'' @ [CHR 0x0A]) [VWord seed_pc] m;
     (n, m) \<leftarrow> (if seed_ra \<noteq> 0 \<and> seed_ra \<noteq> seed_pc
       then do { m \<leftarrow> print_frame E ub 1 seed_ra m; Some (2, m) } else Some (1, m));
     walk_frames E ub lo hi 16 n 0 fp m }"

section \<open>The dump\<close>

definition read_csr :: "env \<Rightarrow> csr \<Rightarrow> mach \<Rightarrow> u64 \<times> mach" where
  "read_csr E c m = ask E (CsrRd c) m"

fun print_gprs :: "env \<Rightarrow> u64 \<Rightarrow> u64 list \<Rightarrow> nat list \<Rightarrow> mach \<Rightarrow> mach option" where
  "print_gprs E ub regs [] m = Some m"
| "print_gprs E ub regs (i # is) m = do {
     m \<leftarrow> print_reg E ub (gpr_name i) (if i = 0 then 0 else regs ! i) m;
     print_gprs E ub regs is m }"

text \<open>\<open>guard\<close> is the address of the re-entry flag.  A hart that loses the race halts at once.\<close>

definition dump_and_halt ::
  "priv \<Rightarrow> env \<Rightarrow> u64 \<Rightarrow> plat \<Rightarrow> u64 \<Rightarrow> u64 \<Rightarrow> u64 \<Rightarrow> u64 \<Rightarrow> u64 \<Rightarrow> u64 list \<Rightarrow> u64 \<Rightarrow> mach \<Rightarrow> mach option" where
  "dump_and_halt B E ub P guard lo hi mcause mepc regs fp_seed m =
     (let (won, m) = atomic_cas_u32 E guard 0 1 m in
      if \<not> won then Some m
      else
        (let (mtval, m) = read_csr E CSR_TVAL m;
             (mstatus, m) = read_csr E CSR_STATUS m;
             (hartid, m) = plat_this_hart B E P m;
             (mtvec, m) = read_csr E CSR_TVEC m;
             is_interrupt = (drop_bit 63 mcause AND 1 \<noteq> 0);
             code = mcause AND NOT CAUSE_INTERRUPT_BIT
         in do {
           m \<leftarrow> uart_puts E ub (bytes_of ([CHR 0x0A] @ ''!!HAL-PANIC-V1 ============================================'' @ [CHR 0x0A])) m;
           m \<leftarrow> (if is_interrupt
             then uart_printf E ub (''   cause      : interrupt code %u (mcause=0x%x)'' @ [CHR 0x0A])
                    [VWord (scast (ucast code :: u32)), VWord mcause] m
             else uart_printf E ub (''   cause      : %s (mcause=0x%x)'' @ [CHR 0x0A])
                    [VStr (exc_name_for code), VWord mcause] m);
           m \<leftarrow> print_reg E ub (bytes_of ''mepc      '') mepc m;
           m \<leftarrow> print_reg E ub (bytes_of ''mtval     '') mtval m;
           m \<leftarrow> print_reg E ub (bytes_of ''mstatus   '') mstatus m;
           m \<leftarrow> print_reg E ub (bytes_of ''mtvec     '') mtvec m;
           m \<leftarrow> uart_printf E ub (''   mhartid    : %u'' @ [CHR 0x0A]) [VWord (scast hartid)] m;
           m \<leftarrow> uart_puts E ub (bytes_of (''   ----'' @ [CHR 0x0A])) m;
           m \<leftarrow> print_gprs E ub regs [0..<32] m;
           m \<leftarrow> uart_puts E ub (bytes_of (''   ----'' @ [CHR 0x0A])) m;
           m \<leftarrow> walk_stack E ub lo hi mepc (regs ! 1) (if fp_seed \<noteq> 0 then fp_seed else regs ! 8) m;
           uart_puts E ub (bytes_of (''!!HAL-PANIC-V1 end ========================================'' @ [CHR 0x0A])) m }))"

definition hal_panic_from_trap ::
  "priv \<Rightarrow> env \<Rightarrow> u64 \<Rightarrow> plat \<Rightarrow> u64 \<Rightarrow> u64 \<Rightarrow> u64 \<Rightarrow> u64 \<Rightarrow> u64 \<Rightarrow> u64 list \<Rightarrow> mach \<Rightarrow> mach option" where
  "hal_panic_from_trap B E ub P guard lo hi mcause mepc regs m =
     dump_and_halt B E ub P guard lo hi mcause mepc regs 0 m"

definition MCAUSE_SOFTWARE_PANIC :: u64 where
  "MCAUSE_SOFTWARE_PANIC = CAUSE_INTERRUPT_BIT OR 24"

text \<open>\<open>ra\<close> and \<open>fp\<close> are the return and frame address of the call; a null format is \<open>None\<close>.\<close>

definition hal_panic_v ::
  "priv \<Rightarrow> env \<Rightarrow> u64 \<Rightarrow> plat \<Rightarrow> u64 \<Rightarrow> u64 \<Rightarrow> u64 \<Rightarrow> u64 \<Rightarrow> u64 \<Rightarrow> u8 list option \<Rightarrow> vararg list \<Rightarrow> mach \<Rightarrow> mach option" where
  "hal_panic_v B E ub P guard lo hi ra fp fmt ap m = do {
     m \<leftarrow> uart_puts E ub (bytes_of ([CHR 0x0A] @ ''!!HAL-PANIC-V1 message: '')) m;
     m \<leftarrow> (case fmt of Some f \<Rightarrow> if f \<noteq> [] \<and> hd f \<noteq> 0 then uart_vprintf E ub f ap m else Some m | None \<Rightarrow> Some m);
     m \<leftarrow> uart_puts E ub (bytes_of [CHR 0x0A]) m;
     dump_and_halt B E ub P guard lo hi MCAUSE_SOFTWARE_PANIC ra ((replicate 32 0)[1 := ra, 8 := fp]) fp m }"

definition hal_panic ::
  "priv \<Rightarrow> env \<Rightarrow> u64 \<Rightarrow> plat \<Rightarrow> u64 \<Rightarrow> u64 \<Rightarrow> u64 \<Rightarrow> u64 \<Rightarrow> u64 \<Rightarrow> u8 list option \<Rightarrow> vararg list \<Rightarrow> mach \<Rightarrow> mach option" where
  "hal_panic B E ub P guard lo hi ra fp fmt ap m = hal_panic_v B E ub P guard lo hi ra fp fmt ap m"

definition RVVM_SYSCON_BASE :: u64 where "RVVM_SYSCON_BASE = 0x00100000"
definition RVVM_SYSCON_POWEROFF :: u16 where "RVVM_SYSCON_POWEROFF = 0x5555"

definition hal_exit :: "env \<Rightarrow> u64 \<Rightarrow> i32 \<Rightarrow> mach \<Rightarrow> mach option" where
  "hal_exit E ub code m = do {
     m \<leftarrow> uart_printf E ub ([CHR 0x0A] @ ''!!HAL-EXIT code=%d'' @ [CHR 0x0A]) [VWord (scast code)] m;
     Some (mmio_w16 RVVM_SYSCON_BASE RVVM_SYSCON_POWEROFF m) }"

end
