(* ===== verification/Hda.thy ===== *)
theory Hda
  imports Pci
begin

text \<open>
  The HDA controller \<open>src/hda.c\<close> and the audio front layer \<open>src/audio.c\<close>.  The command ring
  is the driver's array of 64 words: a store past its end is \<open>None\<close>, like a wait that does
  not end.  The response ring is written by the controller and read through the environment.
\<close>

section \<open>Registers\<close>

definition RVVM_PCI_ID_HDA :: u32 where "RVVM_PCI_ID_HDA = 0x501113F6"
definition HDA_REG_GCTL :: u32 where "HDA_REG_GCTL = 0x08"
definition HDA_REG_STATESTS :: u32 where "HDA_REG_STATESTS = 0x0E"
definition HDA_REG_CORBLBASE :: u32 where "HDA_REG_CORBLBASE = 0x40"
definition HDA_REG_CORBUBASE :: u32 where "HDA_REG_CORBUBASE = 0x44"
definition HDA_REG_CORBWP :: u32 where "HDA_REG_CORBWP = 0x48"
definition HDA_REG_CORBCTL :: u32 where "HDA_REG_CORBCTL = 0x4C"
definition HDA_REG_CORBSIZE :: u32 where "HDA_REG_CORBSIZE = 0x4E"
definition HDA_REG_RIRBLBASE :: u32 where "HDA_REG_RIRBLBASE = 0x50"
definition HDA_REG_RIRBUBASE :: u32 where "HDA_REG_RIRBUBASE = 0x54"
definition HDA_REG_RIRBWP :: u32 where "HDA_REG_RIRBWP = 0x58"
definition HDA_REG_RINTCNT :: u32 where "HDA_REG_RINTCNT = 0x5A"
definition HDA_REG_RIRBCTL :: u32 where "HDA_REG_RIRBCTL = 0x5C"
definition HDA_REG_RIRBSIZE :: u32 where "HDA_REG_RIRBSIZE = 0x5E"
definition HDA_VERB_SET_AMP_GAIN_MUTE :: u32 where "HDA_VERB_SET_AMP_GAIN_MUTE = 0x003"
definition HDA_VERB_SET_CONV_FMT :: u32 where "HDA_VERB_SET_CONV_FMT = 0x002"
definition HDA_VERB_SET_CONV_STREAM :: u16 where "HDA_VERB_SET_CONV_STREAM = 0x706"
definition HDA_VERB_SET_BEEP_GENERATION :: u16 where "HDA_VERB_SET_BEEP_GENERATION = 0x70A"
definition HDA_AMP_OUTPUT :: u16 where "HDA_AMP_OUTPUT = 0x8000"
definition HDA_AMP_LEFT :: u16 where "HDA_AMP_LEFT = 0x2000"
definition HDA_AMP_RIGHT :: u16 where "HDA_AMP_RIGHT = 0x1000"
definition RVVM_HDA_BEEP_NID :: u8 where "RVVM_HDA_BEEP_NID = 4"

text \<open>The statics of the driver; \<open>corb_at\<close> and \<open>rirb_at\<close> are the addresses of its arrays.\<close>

record hda =
  hda_base :: u64
  hda_up :: bool
  corb :: "u32 list"
  corb_at :: u64
  rirb_at :: u64
  corb_wp :: u16
  rirb_rp :: u16

definition hda_R16 :: "env \<Rightarrow> hda \<Rightarrow> u32 \<Rightarrow> mach \<Rightarrow> u16 \<times> mach" where
  "hda_R16 E d off m = mmio_r16 E (hda_base d + ucast off) m"
definition hda_R32 :: "env \<Rightarrow> hda \<Rightarrow> u32 \<Rightarrow> mach \<Rightarrow> u32 \<times> mach" where
  "hda_R32 E d off m = mmio_r32 E (hda_base d + ucast off) m"
definition hda_W8 :: "hda \<Rightarrow> u32 \<Rightarrow> u8 \<Rightarrow> mach \<Rightarrow> mach" where
  "hda_W8 d off v m = mmio_w8 (hda_base d + ucast off) v m"
definition hda_W16 :: "hda \<Rightarrow> u32 \<Rightarrow> u16 \<Rightarrow> mach \<Rightarrow> mach" where
  "hda_W16 d off v m = mmio_w16 (hda_base d + ucast off) v m"
definition hda_W32 :: "hda \<Rightarrow> u32 \<Rightarrow> u32 \<Rightarrow> mach \<Rightarrow> mach" where
  "hda_W32 d off v m = mmio_w32 (hda_base d + ucast off) v m"

section \<open>Codec commands\<close>

definition hda_pack_short :: "u8 \<Rightarrow> u8 \<Rightarrow> u16 \<Rightarrow> u8 \<Rightarrow> u32" where
  "hda_pack_short cad nid verb pay =
     push_bit 28 (ucast cad) OR push_bit 20 (ucast nid) OR push_bit 8 (ucast (verb AND 0xFFF)) OR ucast pay"

definition hda_pack_long :: "u8 \<Rightarrow> u8 \<Rightarrow> u8 \<Rightarrow> u16 \<Rightarrow> u32" where
  "hda_pack_long cad nid verb pay =
     push_bit 28 (ucast cad) OR push_bit 20 (ucast nid) OR push_bit 16 (ucast (verb AND 0xF)) OR ucast pay"

text \<open>Up to \<open>n\<close> reads of the response pointer; the response when it has moved.\<close>

fun hda_wait_response :: "env \<Rightarrow> nat \<Rightarrow> hda \<times> mach \<Rightarrow> u32 option \<times> hda \<times> mach" where
  "hda_wait_response E 0 s = (None, s)"
| "hda_wait_response E (Suc n) s = (case s of (d, m) \<Rightarrow>
     let (wp, m) = hda_R16 E d HDA_REG_RIRBWP m in
     if wp \<noteq> rirb_rp d
     then (let d = d\<lparr>rirb_rp := (rirb_rp d + 1) AND 0xFF\<rparr>;
               (v, m) = mmio_r64 E (rirb_at d + 8 * ucast (rirb_rp d)) m
           in (Some (ucast (v AND 0xFFFFFFFF)), d, m))
     else hda_wait_response E n (d, m))"

definition hda_send_cmd :: "env \<Rightarrow> u64 \<Rightarrow> u32 \<Rightarrow> hda \<times> mach \<Rightarrow> (u32 \<times> hda \<times> mach) option" where
  "hda_send_cmd E ub cmd = (\<lambda>(d, m).
     if \<not> hda_up d then Some (0, d, m)
     else
       (let d = d\<lparr>corb_wp := (corb_wp d + 1) AND 0xFF\<rparr>; i = unat (corb_wp d) in
        if length (corb d) \<le> i then None
        else
          (let d = d\<lparr>corb := (corb d)[i := cmd]\<rparr>;
               m = mmio_w32 (corb_at d + 4 * ucast (corb_wp d)) cmd m;
               m = hda_W16 d HDA_REG_CORBWP (corb_wp d) m;
               (r, d, m) = hda_wait_response E 100000 (d, m)
           in case r of Some v \<Rightarrow> Some (v, d, m)
              | None \<Rightarrow> do {
                  m \<leftarrow> uart_puts E ub (bytes_of (''hda: verb response timeout'' @ [CHR 0x0A])) m;
                  Some (0, d, m) })))"

definition hda_verb :: "env \<Rightarrow> u64 \<Rightarrow> u8 \<Rightarrow> u8 \<Rightarrow> u16 \<Rightarrow> u8 \<Rightarrow> hda \<times> mach \<Rightarrow> (u32 \<times> hda \<times> mach) option" where
  "hda_verb E ub cad nid verb pay s = hda_send_cmd E ub (hda_pack_short cad nid verb pay) s"

section \<open>Bring-up\<close>

text \<open>The waits for bit 0 of the control register to have a value.\<close>

partial_function (option) hda_gctl_wait :: "env \<Rightarrow> bool \<Rightarrow> hda \<Rightarrow> mach \<Rightarrow> mach option" where
  "hda_gctl_wait E b d m =
     (let (v, m) = hda_R32 E d HDA_REG_GCTL m in if (v AND 1 \<noteq> 0) \<noteq> b then hda_gctl_wait E b d m else Some m)"

fun hda_codec_wait :: "env \<Rightarrow> nat \<Rightarrow> hda \<Rightarrow> mach \<Rightarrow> bool \<times> mach" where
  "hda_codec_wait E 0 d m = (False, m)"
| "hda_codec_wait E (Suc n) d m =
     (let (v, m) = hda_R16 E d HDA_REG_STATESTS m in if v AND 1 \<noteq> 0 then (True, m) else hda_codec_wait E n d m)"

text \<open>The set-up of both rings.\<close>

definition hda_rings :: "hda \<times> mach \<Rightarrow> hda \<times> mach" where
  "hda_rings = (\<lambda>(d, m).
     let m = hda_W32 d HDA_REG_CORBLBASE (ucast (corb_at d)) m;
         m = hda_W32 d HDA_REG_CORBUBASE (ucast (drop_bit 32 (corb_at d))) m;
         m = hda_W8 d HDA_REG_CORBSIZE 2 m;
         m = hda_W16 d HDA_REG_CORBWP 0 m;
         m = hda_W8 d HDA_REG_CORBCTL 2 m;
         d = d\<lparr>corb_wp := 0\<rparr>;
         m = hda_W32 d HDA_REG_RIRBLBASE (ucast (rirb_at d)) m;
         m = hda_W32 d HDA_REG_RIRBUBASE (ucast (drop_bit 32 (rirb_at d))) m;
         m = hda_W8 d HDA_REG_RIRBSIZE 2 m;
         m = hda_W16 d HDA_REG_RIRBWP 0x8000 m;
         m = hda_W16 d HDA_REG_RINTCNT 1 m;
         m = hda_W8 d HDA_REG_RIRBCTL 2 m
     in (d\<lparr>rirb_rp := 0\<rparr>, m))"

definition hda_amp_payload :: u16 where
  "hda_amp_payload = HDA_AMP_OUTPUT OR HDA_AMP_LEFT OR HDA_AMP_RIGHT OR 0x40"

definition hda_init :: "env \<Rightarrow> u64 \<Rightarrow> u64 \<Rightarrow> hda \<times> mach \<Rightarrow> (bool \<times> hda \<times> mach) option" where
  "hda_init E ub ecam = (\<lambda>(d, m).
     if hda_up d then Some (True, d, m)
     else do {
       (f, m) \<leftarrow> pci_find_device E ecam RVVM_PCI_ID_HDA m;
       case f of
         None \<Rightarrow> do {
           m \<leftarrow> uart_puts E ub (bytes_of (''hda: device not found (start RVVM with -hda_test)'' @ [CHR 0x0A])) m;
           Some (False, d, m) }
       | Some f \<Rightarrow>
           (let (f, m) = pci_setup_bars E f m in
            if bar f ! 0 = 0
            then do { m \<leftarrow> uart_puts E ub (bytes_of (''hda: BAR0 not mapped'' @ [CHR 0x0A])) m; Some (False, d, m) }
            else do {
              let d = d\<lparr>hda_base := bar f ! 0\<rparr>;
              let m = hda_W32 d HDA_REG_GCTL 0 m;
              m \<leftarrow> hda_gctl_wait E False d m;
              let m = hda_W32 d HDA_REG_GCTL 1 m;
              m \<leftarrow> hda_gctl_wait E True d m;
              let (d, m) = hda_rings (d, m);
              let (ok, m) = hda_codec_wait E 1000 d m;
              if \<not> ok
              then do {
                m \<leftarrow> uart_puts E ub (bytes_of (''hda: codec did not announce on STATESTS'' @ [CHR 0x0A])) m;
                Some (False, d, m) }
              else do {
                (_, d, m) \<leftarrow> hda_send_cmd E ub
                  (hda_pack_long 0 RVVM_HDA_BEEP_NID (ucast HDA_VERB_SET_AMP_GAIN_MUTE) hda_amp_payload)
                  (d\<lparr>hda_up := True\<rparr>, m);
                m \<leftarrow> uart_puts E ub (bytes_of (''hda: controller up, beep widget unmuted'' @ [CHR 0x0A])) m;
                Some (True, d, m) } }) })"

definition hda_beep :: "env \<Rightarrow> u64 \<Rightarrow> u8 \<Rightarrow> hda \<times> mach \<Rightarrow> (hda \<times> mach) option" where
  "hda_beep E ub divider s =
     (if \<not> hda_up (fst s) then Some s
      else do { (_, s) \<leftarrow> hda_send_cmd E ub (hda_pack_short 0 RVVM_HDA_BEEP_NID HDA_VERB_SET_BEEP_GENERATION divider) s;
                Some s })"

section \<open>The front layer\<close>

definition HOST_SAMPLE_RATE :: u32 where "HOST_SAMPLE_RATE = 48000"

definition audio_init :: "env \<Rightarrow> u64 \<Rightarrow> u64 \<Rightarrow> hda \<times> mach \<Rightarrow> (bool \<times> hda \<times> mach) option" where
  "audio_init E ub ecam s = hda_init E ub ecam s"

definition audio_shutdown :: "hda \<times> mach \<Rightarrow> hda \<times> mach" where
  "audio_shutdown s = s"

definition audio_sample_rate :: u32 where
  "audio_sample_rate = HOST_SAMPLE_RATE"

definition audio_beep :: "env \<Rightarrow> u64 \<Rightarrow> u32 \<Rightarrow> hda \<times> mach \<Rightarrow> (hda \<times> mach) option" where
  "audio_beep E ub freq_hz s =
     (if \<not> hda_up (fst s) then Some s
      else if freq_hz = 0 then hda_beep E ub 0 s
      else
        (let dv = 12000 div freq_hz;
             dv = (if dv < 1 then 1 else dv);
             dv = (if dv > 255 then 255 else dv)
         in hda_beep E ub (ucast dv) s))"

section \<open>The command ring\<close>

text \<open>A sequence of codec commands.\<close>

fun hda_send_all :: "env \<Rightarrow> u64 \<Rightarrow> u32 list \<Rightarrow> hda \<times> mach \<Rightarrow> (hda \<times> mach) option" where
  "hda_send_all E ub [] s = Some s"
| "hda_send_all E ub (c # cs) s = do { (_, s) \<leftarrow> hda_send_cmd E ub c s; hda_send_all E ub cs s }"

text \<open>Waiting for a response moves the response pointer only.\<close>

lemma hda_wait_response_keeps:
  "hda_wait_response E n (d, m) = (r, d', m') \<Longrightarrow> hda_up d' = hda_up d \<and> corb d' = corb d \<and> corb_wp d' = corb_wp d"
  by (induction n arbitrary: m) (auto simp: Let_def split: prod.splits if_splits)

lemma hda_send_cmd_slot:
  assumes "hda_up d" "length (corb d) = 64" "uart_live E ub" "unat (corb_wp d) < 64"
  shows "if unat (corb_wp d) = 63 then hda_send_cmd E ub c (d, m) = None
    else \<exists>r d' m'. hda_send_cmd E ub c (d, m) = Some (r, d', m') \<and> hda_up d' \<and> length (corb d') = 64 \<and>
      unat (corb_wp d') = unat (corb_wp d) + 1"
proof -
  have n: "unat (corb_wp d + 1) = unat (corb_wp d) + 1" using assms(4) by (subst unat_add_no_wrap) simp_all
  have "(corb_wp d + 1) AND mask 8 = corb_wp d + 1"
    using assms(4) n by (simp add: word_unat_eq_iff unat_and_mask)
  then have w: "(corb_wp d + 1) AND 0xFF = corb_wp d + 1" by (simp add: mask_eq_exp_minus_1)
  show ?thesis
  proof (cases "unat (corb_wp d) = 63")
    case True
    then show ?thesis using assms(1,2) w n by (simp add: hda_send_cmd_def Let_def)
  next
    case False
    define d1 where "d1 = d\<lparr>corb_wp := corb_wp d + 1, corb := (corb d)[unat (corb_wp d + 1) := c]\<rparr>"
    define m1 where "m1 = hda_W16 d1 HDA_REG_CORBWP (corb_wp d1) (mmio_w32 (corb_at d + 4 * ucast (corb_wp d1)) c m)"
    obtain r d2 m2 where r: "hda_wait_response E 100000 (d1, m1) = (r, d2, m2)" by (metis prod_cases3)
    note k = hda_wait_response_keeps [OF r]
    obtain m3 where m3: "uart_puts E ub (bytes_of (''hda: verb response timeout'' @ [CHR 0x0A])) m2 = Some m3"
      using uart.put_all_live [OF assms(3)] uart_puts_put_all by metis
    have "hda_send_cmd E ub c (d, m) = (case r of Some v \<Rightarrow> Some (v, d2, m2) | None \<Rightarrow> Some (0, d2, m3))"
      using assms(1,2,4) False w n r m3
      by (simp add: hda_send_cmd_def Let_def d1_def m1_def hda_W16_def split: option.split)
    then show ?thesis using k False assms(1,2) n by (cases r) (simp_all add: d1_def)
  qed
qed


definition demo_hda :: hda where
  "demo_hda = \<lparr>hda_base = 0x40000000, hda_up = True, corb = replicate 64 0, corb_at = 0x80001000, rirb_at = 0x80002000,
     corb_wp = 0, rirb_rp = 0\<rparr>"


end
