(* ===== verification/Audio.thy ===== *)
theory Audio
  imports Hda Timer
begin

text \<open>
  PCM streaming \<open>src/audio_pcm.c\<close> and the edge-driven speaker \<open>src/audio_edge.c\<close> on top of it.
  Samples are 16-bit words; the ring of the speaker is the driver's array, a list.
\<close>

section \<open>PCM streams\<close>

definition HDA_OUT_NID :: u8 where "HDA_OUT_NID = 2"
definition RVVM_HDA_OUT_SD_BASE :: u64 where "RVVM_HDA_OUT_SD_BASE = 0xA0"
definition HDA_SD_CTL :: u32 where "HDA_SD_CTL = 0x00"
definition HDA_SD_LPIB :: u32 where "HDA_SD_LPIB = 0x04"
definition HDA_SD_CBL :: u32 where "HDA_SD_CBL = 0x08"
definition HDA_SD_LVI :: u32 where "HDA_SD_LVI = 0x0C"
definition HDA_SD_FMT :: u32 where "HDA_SD_FMT = 0x12"
definition HDA_SD_BDPL :: u32 where "HDA_SD_BDPL = 0x18"
definition HDA_SD_BDPU :: u32 where "HDA_SD_BDPU = 0x1C"
definition HDA_FMT_16BIT_MONO_48K :: u16 where "HDA_FMT_16BIT_MONO_48K = 0x0010"
definition HDA_FMT_16BIT_MONO_44K1 :: u16 where "HDA_FMT_16BIT_MONO_44K1 = 0x4010"
definition HDA_FMT_16BIT_MONO_96K :: u16 where "HDA_FMT_16BIT_MONO_96K = 0x0810"
definition HDA_FMT_16BIT_MONO_88K2 :: u16 where "HDA_FMT_16BIT_MONO_88K2 = 0x4810"

record audio_pcm =
  pcm_ring :: u64
  ring_frames :: u32
  sample_rate :: u32
  channels :: u32
  bdl_entries :: u32
  wp_frames :: u32
  total_written :: u32
  stream_tag :: u8
  running :: bool

definition sd_reg :: "hda \<Rightarrow> u32 \<Rightarrow> u64" where
  "sd_reg d off = hda_base d + RVVM_HDA_OUT_SD_BASE + ucast off"
definition SD_R32 :: "env \<Rightarrow> hda \<Rightarrow> u32 \<Rightarrow> mach \<Rightarrow> u32 \<times> mach" where
  "SD_R32 E d off m = mmio_r32 E (sd_reg d off) m"
definition SD_W32 :: "hda \<Rightarrow> u32 \<Rightarrow> u32 \<Rightarrow> mach \<Rightarrow> mach" where
  "SD_W32 d off v m = mmio_w32 (sd_reg d off) v m"
definition SD_W16 :: "hda \<Rightarrow> u32 \<Rightarrow> u16 \<Rightarrow> mach \<Rightarrow> mach" where
  "SD_W16 d off v m = mmio_w16 (sd_reg d off) v m"

definition fmt_for_format :: "u32 \<Rightarrow> u32 \<Rightarrow> u16" where
  "fmt_for_format rate chans =
     (if chans < 1 \<or> chans > 16 then 0
      else if rate = 44100 then HDA_FMT_16BIT_MONO_44K1 OR ucast (chans - 1)
      else if rate = 48000 then HDA_FMT_16BIT_MONO_48K OR ucast (chans - 1)
      else if rate = 88200 then HDA_FMT_16BIT_MONO_88K2 OR ucast (chans - 1)
      else if rate = 96000 then HDA_FMT_16BIT_MONO_96K OR ucast (chans - 1)
      else 0)"

text \<open>The stores of the buffer list at \<open>bdl\<close>.\<close>

definition bdl_writes :: "u64 \<Rightarrow> u64 \<Rightarrow> u32 \<Rightarrow> u32 \<Rightarrow> u32 \<Rightarrow> u32 \<Rightarrow> history" where
  "bdl_writes bdl ring entries frames_per_entry bytes_per_entry chans =
     concat (map (\<lambda>i. let e = bdl + 16 * of_nat i in
       [Wr64 e (ring + 2 * ucast (of_nat i * frames_per_entry * chans)), Wr32 (e + 8) bytes_per_entry, Wr32 (e + 12) 1])
       [0..<unat entries])"

text \<open>Programming the stream once the arguments are accepted.\<close>

definition pcm_program ::
  "env \<Rightarrow> u64 \<Rightarrow> u64 \<Rightarrow> u16 \<Rightarrow> audio_pcm \<times> hda \<times> mach \<Rightarrow> (audio_pcm \<times> hda \<times> mach) option" where
  "pcm_program E ub bdl fmt = (\<lambda>(p, d, m). do {
     let m = SD_W32 d HDA_SD_CTL 0 m;
     (_, d, m) \<leftarrow> hda_send_cmd E ub (hda_pack_long 0 HDA_OUT_NID (ucast HDA_VERB_SET_AMP_GAIN_MUTE) hda_amp_payload) (d, m);
     (_, d, m) \<leftarrow> hda_send_cmd E ub (hda_pack_long 0 HDA_OUT_NID (ucast HDA_VERB_SET_CONV_FMT) fmt) (d, m);
     (_, d, m) \<leftarrow> hda_send_cmd E ub (hda_pack_short 0 HDA_OUT_NID HDA_VERB_SET_CONV_STREAM
       (push_bit 4 (stream_tag p AND 0xF))) (d, m);
     let frames_per_entry = ring_frames p div bdl_entries p;
     let bytes_per_frame = channels p * 2;
     let bytes_per_entry = frames_per_entry * bytes_per_frame;
     let m = emits (bdl_writes bdl (pcm_ring p) (bdl_entries p) frames_per_entry bytes_per_entry (channels p)) m;
     let m = SD_W32 d HDA_SD_BDPL (ucast (bdl AND 0xFFFFFFFF)) m;
     let m = SD_W32 d HDA_SD_BDPU (ucast (drop_bit 32 bdl)) m;
     let m = SD_W32 d HDA_SD_CBL (ring_frames p * bytes_per_frame) m;
     let m = SD_W16 d HDA_SD_LVI (ucast (bdl_entries p - 1)) m;
     let m = SD_W16 d HDA_SD_FMT fmt m;
     let m = SD_W32 d HDA_SD_CTL (push_bit 20 (ucast (stream_tag p)) OR push_bit 1 1) m;
     m \<leftarrow> uart_printf E ub (''audio_pcm: ring %u frames @ %u Hz '' @ [CHR 0xC3, CHR 0x97] @ '' %u ch, '' @
         ''%u BDL entries (%u frames each)'' @ [CHR 0x0A])
       [VWord (ucast (ring_frames p)), VWord (ucast (sample_rate p)), VWord (ucast (channels p)),
        VWord (ucast (bdl_entries p)), VWord (ucast frames_per_entry)] m;
     Some (p\<lparr>running := True\<rparr>, d, m) })"

definition audio_pcm_open ::
  "env \<Rightarrow> u64 \<Rightarrow> u64 \<Rightarrow> u64 \<Rightarrow> u32 \<Rightarrow> u32 \<Rightarrow> u32 \<Rightarrow> u32 \<Rightarrow> audio_pcm \<times> hda \<times> mach \<Rightarrow>
   (bool \<times> audio_pcm \<times> hda \<times> mach) option" where
  "audio_pcm_open E ub bdl ring frames entries rate chans = (\<lambda>(p, d, m).
     if \<not> hda_up d
     then do { m \<leftarrow> uart_puts E ub (bytes_of (''audio_pcm: backend not up; call audio_init() first'' @ [CHR 0x0A])) m;
               Some (False, p, d, m) }
     else if entries = 0 \<or> entries > 8 then Some (False, p, d, m)
     else if frames = 0 \<or> frames mod entries \<noteq> 0
     then do { m \<leftarrow> uart_printf E ub (''audio_pcm: ring_frames=%u must be multiple of bdl_entries=%u'' @ [CHR 0x0A])
                 [VWord (ucast frames), VWord (ucast entries)] m;
               Some (False, p, d, m) }
     else if chans = 0 \<or> chans > 16
     then do { m \<leftarrow> uart_printf E ub (''audio_pcm: bad channel count %u (need 1..16)'' @ [CHR 0x0A])
                 [VWord (ucast chans)] m;
               Some (False, p, d, m) }
     else
       (let fmt = fmt_for_format rate chans in
        if fmt = 0
        then do { m \<leftarrow> uart_printf E ub (''audio_pcm: unsupported format rate=%u ch=%u'' @ [CHR 0x0A])
                    [VWord (ucast rate), VWord (ucast chans)] m;
                  Some (False, p, d, m) }
        else do {
          (p, d, m) \<leftarrow> pcm_program E ub bdl fmt
            (p\<lparr>pcm_ring := ring, ring_frames := frames, sample_rate := rate, channels := chans, bdl_entries := entries,
               wp_frames := 0, total_written := 0, stream_tag := 1, running := False\<rparr>, d, m);
          Some (True, p, d, m) }))"

definition audio_pcm_position :: "env \<Rightarrow> hda \<Rightarrow> audio_pcm \<Rightarrow> mach \<Rightarrow> u32 \<times> mach" where
  "audio_pcm_position E d p m =
     (if \<not> running p then (0, m)
      else
        (let (lpib_bytes, m) = SD_R32 E d HDA_SD_LPIB m;
             bytes_per_frame = channels p * 2
         in ((lpib_bytes div bytes_per_frame) mod ring_frames p, m)))"

definition audio_pcm_writable :: "env \<Rightarrow> hda \<Rightarrow> audio_pcm \<Rightarrow> mach \<Rightarrow> u32 \<times> mach" where
  "audio_pcm_writable E d p m =
     (if \<not> running p then (0, m)
      else
        (let (rd, m) = audio_pcm_position E d p m;
             wp = wp_frames p;
             inflight = (wp + ring_frames p - rd) mod ring_frames p
         in (ring_frames p - 1 - inflight, m)))"

definition audio_pcm_advance :: "u32 \<Rightarrow> audio_pcm \<Rightarrow> audio_pcm" where
  "audio_pcm_advance frames p =
     (if \<not> running p then p
      else p\<lparr>wp_frames := (wp_frames p + frames) mod ring_frames p, total_written := total_written p + frames\<rparr>)"

definition audio_pcm_close :: "hda \<Rightarrow> audio_pcm \<times> mach \<Rightarrow> audio_pcm \<times> mach" where
  "audio_pcm_close d = (\<lambda>(p, m).
     if \<not> running p then (p, m) else (p\<lparr>running := False\<rparr>, SD_W32 d HDA_SD_CTL 0 m))"

section \<open>The edge-driven speaker\<close>

definition EDGE_RING_FRAMES :: u32 where "EDGE_RING_FRAMES = 4800"
definition EDGE_BDL_ENTRIES :: u32 where "EDGE_BDL_ENTRIES = 5"

record audio_edge =
  emulator_hz :: u64
  cycle_origin :: u64
  total_samples :: u64
  current_level :: i16
  events :: "(u64 \<times> i16) list"
  dropped_events :: u32
  e_open :: bool

text \<open>The statics of the file: the ring, the stream and whether it is open.\<close>

record edge_drv =
  edge_ring :: "i16 list"
  edge_ring_at :: u64
  edge_pcm :: audio_pcm
  edge_pcm_open :: bool

definition audio_edge_open ::
  "env \<Rightarrow> u64 \<Rightarrow> u64 \<Rightarrow> u64 \<Rightarrow> audio_edge \<times> edge_drv \<times> hda \<times> mach \<Rightarrow>
   (bool \<times> audio_edge \<times> edge_drv \<times> hda \<times> mach) option" where
  "audio_edge_open E ub bdl hz = (\<lambda>(e, D, d, m).
     if \<not> hda_up d
     then do { m \<leftarrow> uart_puts E ub (bytes_of (''audio_edge: backend not up; call audio_init() first'' @ [CHR 0x0A])) m;
               Some (False, e, D, d, m) }
     else if edge_pcm_open D
     then do { m \<leftarrow> uart_puts E ub (bytes_of (''audio_edge: a channel is already open (only one supported)'' @ [CHR 0x0A])) m;
               Some (False, e, D, d, m) }
     else if hz = 0 then Some (False, e, D, d, m)
     else do {
       let D = D\<lparr>edge_ring := replicate (unat EDGE_RING_FRAMES) 0\<rparr>;
       (ok, p, d, m) \<leftarrow> audio_pcm_open E ub bdl (edge_ring_at D) EDGE_RING_FRAMES EDGE_BDL_ENTRIES audio_sample_rate 1
         (edge_pcm D, d, m);
       if \<not> ok then Some (False, e, D\<lparr>edge_pcm := p\<rparr>, d, m)
       else
         (let p = audio_pcm_advance (EDGE_RING_FRAMES - 1) p in
          Some (True, e\<lparr>emulator_hz := hz, cycle_origin := 0, total_samples := 0, current_level := 0, events := [],
                        dropped_events := 0, e_open := True\<rparr>,
                D\<lparr>edge_pcm := p, edge_pcm_open := True\<rparr>, d, m)) })"

text \<open>The queue of the struct has room for 256 events; \<open>n_events\<close> is the length of the list.\<close>

definition audio_edge_set :: "i16 \<Rightarrow> u64 \<Rightarrow> audio_edge \<Rightarrow> audio_edge" where
  "audio_edge_set level at_cycle e =
     (if \<not> e_open e then e
      else if length (events e) \<ge> 256
      then e\<lparr>dropped_events := dropped_events e + 1, current_level := level\<rparr>
      else e\<lparr>events := events e @ [(at_cycle, level)]\<rparr>)"

definition cycle_to_sample :: "audio_edge \<Rightarrow> u64 \<Rightarrow> u64" where
  "cycle_to_sample e cycle =
     (let delta = cycle - cycle_origin e in (delta * ucast audio_sample_rate) div emulator_hz e)"

text \<open>Waiting for room: at most \<open>n\<close> more rounds of one millisecond.  \<open>False\<close> gives up.\<close>

fun edge_wait :: "priv \<Rightarrow> env \<Rightarrow> plat \<Rightarrow> hda \<Rightarrow> audio_pcm \<Rightarrow> u32 \<Rightarrow> nat \<Rightarrow> u32 \<Rightarrow> mach \<Rightarrow> (bool \<times> mach) option" where
  "edge_wait B E P d p need n free m =
     (if free < need
      then (case n of 0 \<Rightarrow> Some (False, m)
        | Suc n \<Rightarrow> do {
            let (t, m) = time_now E m;
            m \<leftarrow> time_busy_until B E P (t + RVVM_TIME_HZ div 1000) m;
            let (free, m) = audio_pcm_writable E d p m;
            edge_wait B E P d p need n free m })
      else Some (True, m))"

text \<open>One run of equal samples, and the walk over the queued events.\<close>

definition edge_fill :: "u32 \<Rightarrow> i16 \<Rightarrow> u32 \<Rightarrow> u32 \<Rightarrow> i16 list \<Rightarrow> i16 list" where
  "edge_fill wp lvl i j ring =
     fold (\<lambda>s r. r[unat ((wp + of_nat s) mod EDGE_RING_FRAMES) := lvl]) [unat i..<unat j] ring"

definition event_index :: "audio_edge \<Rightarrow> u64 \<Rightarrow> u32 \<Rightarrow> u64 \<Rightarrow> u32" where
  "event_index e now frame_samples cycle =
     (let cycle = (if cycle < cycle_origin e then cycle_origin e else cycle);
          cycle = (if cycle > now then now else cycle);
          t = cycle_to_sample e cycle;
          idx = (if t > total_samples e then ucast (t - total_samples e) else 0)
      in if idx > frame_samples then frame_samples else idx)"

fun edge_render ::
  "audio_edge \<Rightarrow> u64 \<Rightarrow> u32 \<Rightarrow> u32 \<Rightarrow> (u64 \<times> i16) list \<Rightarrow> u32 \<Rightarrow> i16 \<Rightarrow> i16 list \<Rightarrow> i16 list \<times> i16" where
  "edge_render e now n wp [] prev_idx prev_lvl ring = (edge_fill wp prev_lvl prev_idx n ring, prev_lvl)"
| "edge_render e now n wp ((cycle, level) # evs) prev_idx prev_lvl ring =
     (let evt_idx = event_index e now n cycle
      in edge_render e now n wp evs evt_idx level (edge_fill wp prev_lvl prev_idx evt_idx ring))"

definition audio_edge_advance ::
  "priv \<Rightarrow> env \<Rightarrow> u64 \<Rightarrow> plat \<Rightarrow> hda \<Rightarrow> u64 \<Rightarrow> audio_edge \<times> edge_drv \<times> mach \<Rightarrow>
   (audio_edge \<times> edge_drv \<times> mach) option" where
  "audio_edge_advance B E ub P d now = (\<lambda>(e, D, m).
     if \<not> e_open e then Some (e, D, m)
     else
       (let total_now = cycle_to_sample e now in
        if total_now \<le> total_samples e
        then Some (if events e \<noteq> [] then e\<lparr>current_level := snd (last (events e)), events := []\<rparr> else e, D, m)
        else do {
          let n = total_now - total_samples e;
          (n, m) \<leftarrow> (if n > ucast (EDGE_RING_FRAMES - 1)
            then do { m \<leftarrow> uart_printf E ub (''audio_edge: ring overflow (%u frames needed, dropping)'' @ [CHR 0x0A]) [VWord n] m;
                      Some (ucast (EDGE_RING_FRAMES - 1), m) }
            else Some (n, m));
          let n = (ucast n :: u32);
          let (free, m) = audio_pcm_writable E d (edge_pcm D) m;
          (ok, m) \<leftarrow> edge_wait B E P d (edge_pcm D) n 50 free m;
          if \<not> ok
          then do { m \<leftarrow> uart_puts E ub (bytes_of (''audio_edge: host not draining for >50ms; dropping frame'' @ [CHR 0x0A])) m;
                    Some (e\<lparr>events := [], total_samples := total_now\<rparr>, D, m) }
          else
            (let (ring, lvl) = edge_render e now n (wp_frames (edge_pcm D)) (events e) 0 (current_level e) (edge_ring D)
             in Some (e\<lparr>total_samples := total_now, current_level := lvl, events := []\<rparr>,
                  D\<lparr>edge_ring := ring, edge_pcm := audio_pcm_advance n (edge_pcm D)\<rparr>, m)) }))"

definition audio_edge_close :: "hda \<Rightarrow> audio_edge \<times> edge_drv \<times> mach \<Rightarrow> audio_edge \<times> edge_drv \<times> mach" where
  "audio_edge_close d = (\<lambda>(e, D, m).
     if \<not> e_open e then (e, D, m)
     else (let (p, m) = audio_pcm_close d (edge_pcm D, m)
           in (e\<lparr>e_open := False\<rparr>, D\<lparr>edge_pcm := p, edge_pcm_open := False\<rparr>, m)))"

section \<open>The rendered waveform\<close>

definition ring_slot :: "u32 \<Rightarrow> nat \<Rightarrow> nat" where
  "ring_slot wp s = (unat wp + s) mod 4800"

lemma ring_slot_inj: "s < 4800 \<Longrightarrow> t < 4800 \<Longrightarrow> ring_slot wp s = ring_slot wp t \<longleftrightarrow> s = t"
  by (simp add: ring_slot_def mod_shift_inj)

lemma fold_update_nth:
  "set xs \<subseteq> {..<4800} \<Longrightarrow> length ring = 4800 \<Longrightarrow> s < 4800 \<Longrightarrow>
    fold (\<lambda>t r. r[ring_slot wp t := v]) xs ring ! ring_slot wp s = (if s \<in> set xs then v else ring ! ring_slot wp s)"
proof (induction xs arbitrary: ring)
  case (Cons x xs)
  have "ring_slot wp s < 4800" by (simp add: ring_slot_def)
  with Cons show ?case by (auto simp: ring_slot_inj nth_list_update)
qed simp

lemma length_edge_fill [simp]: "length (edge_fill wp l i j ring) = length ring"
proof -
  have "length (fold (\<lambda>s r. r[f s := l]) xs ring) = length ring" for f :: "nat \<Rightarrow> nat" and xs
    by (induction xs arbitrary: ring) simp_all
  then show ?thesis by (simp add: edge_fill_def)
qed

lemma edge_fill_nth:
  assumes "wp < 4800" "unat j \<le> 4800" "length ring = 4800" "s < 4800"
  shows "edge_fill wp l i j ring ! ring_slot wp s = (if unat i \<le> s \<and> s < unat j then l else ring ! ring_slot wp s)"
proof -
  have "unat ((wp + of_nat t) mod EDGE_RING_FRAMES) = ring_slot wp t" if "t < 4800" for t
  proof -
    have t: "unat (of_nat t :: u32) = t" using that by (intro unat_of_nat_small) simp
    have "unat (wp + of_nat t) = unat wp + t"
      using that assms(1) by (subst unat_add_no_wrap) (simp_all add: t word_less_nat_alt)
    then show ?thesis by (simp add: unat_mod ring_slot_def EDGE_RING_FRAMES_def)
  qed
  then have "edge_fill wp l i j ring = fold (\<lambda>t r. r[ring_slot wp t := l]) [unat i..<unat j] ring"
    unfolding edge_fill_def using assms(2) by (intro fold_cong) auto
  moreover have "set [unat i..<unat j] \<subseteq> {..<4800}" using assms(2) by auto
  ultimately show ?thesis using assms(3,4) by (simp add: fold_update_nth)
qed

text \<open>The level a listener hears at sample \<open>s\<close>: that of the last event not after it.\<close>

definition hold :: "(u64 \<Rightarrow> nat) \<Rightarrow> i16 \<Rightarrow> (u64 \<times> i16) list \<Rightarrow> nat \<Rightarrow> i16" where
  "hold idx lvl evs s = last (lvl # map snd (filter (\<lambda>ev. idx (fst ev) \<le> s) evs))"

lemma length_edge_render: "length (fst (edge_render e now n wp evs p l ring)) = length ring"
  by (induction evs arbitrary: p l ring) (auto simp: Let_def)

lemma edge_render_hold:
  fixes e :: audio_edge and idx :: "u64 \<Rightarrow> nat" and now :: u64 and n :: u32
  defines "idx \<equiv> \<lambda>c. unat (event_index e now n c)"
  assumes "wp < 4800" "unat n \<le> 4800" "length ring = 4800" "s < 4800"
    and "sorted (map (\<lambda>ev. idx (fst ev)) evs)" "\<forall>ev\<in>set evs. unat p \<le> idx (fst ev)" "unat p \<le> unat n"
  shows "fst (edge_render e now n wp evs p l ring) ! ring_slot wp s =
      (if unat p \<le> s \<and> s < unat n then hold idx l evs s else ring ! ring_slot wp s)
    \<and> snd (edge_render e now n wp evs p l ring) = last (l # map snd evs)"
  using assms(4-)
proof (induction evs arbitrary: p l ring)
  case Nil
  then show ?case using assms(2,3) by (simp add: edge_fill_nth hold_def)
next
  case (Cons ev evs)
  obtain c v where ev: "ev = (c, v)" by force
  let ?i = "event_index e now n c"
  have i: "unat ?i = idx c" "idx c \<le> unat n"
    by (auto simp: idx_def event_index_def Let_def word_le_nat_alt [symmetric])
  have IH: "fst (edge_render e now n wp evs ?i v (edge_fill wp l p ?i ring)) ! ring_slot wp s =
      (if idx c \<le> s \<and> s < unat n then hold idx v evs s else edge_fill wp l p ?i ring ! ring_slot wp s)
    \<and> snd (edge_render e now n wp evs ?i v (edge_fill wp l p ?i ring)) = last (v # map snd evs)"
    using Cons.IH [of "edge_fill wp l p ?i ring" ?i v] Cons.prems i by (simp add: ev)
  have f: "edge_fill wp l p ?i ring ! ring_slot wp s = (if unat p \<le> s \<and> s < idx c then l else ring ! ring_slot wp s)"
    using edge_fill_nth [OF assms(2) _ Cons.prems(1,2), of ?i l p] i assms(3) by simp
  have h1: "hold idx l ((c, v) # evs) s = hold idx v evs s" if "idx c \<le> s" using that by (simp add: hold_def)
  have h2: "hold idx l ((c, v) # evs) s = l" if "s < idx c"
  proof -
    have "filter (\<lambda>ev. idx (fst ev) \<le> s) ((c, v) # evs) = []"
      using that Cons.prems(3) by (auto simp: ev filter_empty_conv)
    then show ?thesis unfolding hold_def by simp
  qed
  have p: "unat p \<le> idx c" using Cons.prems(4) by (simp add: ev)
  show ?case
    using IH f h1 h2 p i(2) by (cases "idx c \<le> s") (auto simp: ev Let_def)
qed

text \<open>The sample a cycle falls on, counted from the origin; cycles outside the elapsed time are
  moved to its ends.\<close>

definition sample_of :: "audio_edge \<Rightarrow> u64 \<Rightarrow> u64 \<Rightarrow> nat" where
  "sample_of e now c =
     (min (max (unat c) (unat (cycle_origin e))) (unat now) - unat (cycle_origin e)) * 48000 div unat (emulator_hz e)"

lemma cycle_to_sample_val:
  assumes "cycle_origin e \<le> c" "c \<le> now" "(unat now - unat (cycle_origin e)) * 48000 < 2 ^ 64"
  shows "unat (cycle_to_sample e c) = sample_of e now c"
proof -
  have le: "unat (cycle_origin e) \<le> unat c" "unat c \<le> unat now" using assms by (simp_all add: word_le_nat_alt)
  then have d: "unat (c - cycle_origin e) = unat c - unat (cycle_origin e)" using assms(1) by (simp add: unat_sub)
  have "(unat c - unat (cycle_origin e)) * 48000 < 2 ^ 64"
    using assms(3) le by (meson diff_le_mono le_less_trans mult_le_mono1)
  then have "unat ((c - cycle_origin e) * 48000) = (unat c - unat (cycle_origin e)) * 48000"
    by (subst unat_mult_no_wrap) (simp_all add: d)
  then show ?thesis using le
    by (simp add: cycle_to_sample_def Let_def audio_sample_rate_def HOST_SAMPLE_RATE_def unat_div_distrib sample_of_def)
qed

lemma sample_of_mono: "unat c \<le> unat c' \<Longrightarrow> sample_of e now c \<le> sample_of e now c'"
  by (auto simp: sample_of_def intro!: div_le_mono)

lemma sample_of_now: "sample_of e now c \<le> sample_of e now now" if "cycle_origin e \<le> now"
  using that by (auto simp: sample_of_def word_le_nat_alt intro!: div_le_mono)

lemma event_index_val:
  assumes "cycle_origin e \<le> now" "(unat now - unat (cycle_origin e)) * 48000 < 2 ^ 64"
    and "sample_of e now now - unat (total_samples e) = unat n"
  shows "unat (event_index e now n c) = sample_of e now c - unat (total_samples e)"
proof -
  define c1 where "c1 = (let c = (if c < cycle_origin e then cycle_origin e else c) in if c > now then now else c)"
  have c1: "cycle_origin e \<le> c1" "c1 \<le> now" using assms(1) by (auto simp: c1_def Let_def not_less)
  have s: "sample_of e now c1 = sample_of e now c"
    using assms(1) by (auto simp: sample_of_def c1_def Let_def word_le_nat_alt word_less_nat_alt not_less min_def max_def)
  have v: "unat (cycle_to_sample e c1) = sample_of e now c" using cycle_to_sample_val [OF c1 assms(2)] s by simp
  have le: "sample_of e now c - unat (total_samples e) \<le> unat n" using sample_of_now [OF assms(1), of c] assms(3) by linarith
  define t where "t = cycle_to_sample e c1"
  have i: "event_index e now n c = (let idx = (if t > total_samples e then ucast (t - total_samples e) else 0)
      in if idx > n then n else idx)"
    by (simp add: event_index_def c1_def t_def Let_def)
  show ?thesis
  proof (cases "total_samples e < t")
    case True
    then have "unat (t - total_samples e) = sample_of e now c - unat (total_samples e)"
      using v by (simp add: unat_sub t_def)
    then have "unat (ucast (t - total_samples e) :: u32) = sample_of e now c - unat (total_samples e)"
      using le unat_u32_less [of n] by (simp add: unsigned_ucast_eq take_bit_nat_eq_self)
    then show ?thesis using True le by (auto simp: i Let_def word_less_nat_alt)
  next
    case False
    then show ?thesis using v by (simp add: i Let_def t_def word_less_nat_alt not_less)
  qed
qed

text \<open>C39: advancing the speaker to cycle \<open>now\<close>, for edges queued in the order of their cycles and
  with room in the ring: sample by sample, the ring from the write position on holds the level of
  the last edge at or before that sample, or the level before the first edge; no other slot
  changes; the level carried on is that of the last edge, and the queue is empty.\<close>

theorem audio_edge_advance_renders:
  fixes e :: audio_edge and now :: u64 and n :: nat and D :: edge_drv
  defines "n \<equiv> sample_of e now now - unat (total_samples e)"
  assumes "e_open e" "cycle_origin e \<le> now" "(unat now - unat (cycle_origin e)) * 48000 < 2 ^ 64"
    and "sorted (map fst (events e))"
    and "0 < n" "n \<le> 4799"
    and "audio_pcm_writable E d (edge_pcm D) m = (free, m1)" "n \<le> unat free"
    and "wp_frames (edge_pcm D) < 4800" "length (edge_ring D) = 4800"
  shows "\<exists>ring. audio_edge_advance B E ub P d now (e, D, m) =
      Some (e\<lparr>total_samples := total_samples e + of_nat n, current_level := last (current_level e # map snd (events e)),
              events := []\<rparr>,
            D\<lparr>edge_ring := ring, edge_pcm := audio_pcm_advance (of_nat n) (edge_pcm D)\<rparr>, m1) \<and>
    length ring = 4800 \<and>
    (\<forall>s\<in>{..<4800}. ring ! ((unat (wp_frames (edge_pcm D)) + s) mod 4800) =
      (if s < n then hold (\<lambda>c. sample_of e now c - unat (total_samples e)) (current_level e) (events e) s
       else edge_ring D ! ((unat (wp_frames (edge_pcm D)) + s) mod 4800)))"
proof -
  define w where "w = (of_nat n :: u32)"
  have w: "unat w = n" using assms(7) unfolding w_def by (intro unat_of_nat_small) simp
  define T where "T = cycle_to_sample e now"
  have T: "unat T = sample_of e now now" using cycle_to_sample_val [OF assms(3) _ assms(4)] by (simp add: T_def)
  have gt: "\<not> T \<le> total_samples e" using assms(6) T by (simp add: n_def word_le_nat_alt)
  then have d: "unat (T - total_samples e) = n" using T by (simp add: unat_sub n_def)
  then have "T - total_samples e = of_nat n" by (metis of_nat_unat ucast_id)
  then have Te: "T = total_samples e + of_nat n" by (simp add: algebra_simps)
  let ?p = "edge_pcm D"
  have idx: "unat (event_index e now w c) = sample_of e now c - unat (total_samples e)" for c
    by (rule event_index_val [OF assms(3,4)]) (simp add: w n_def)
  have srt: "sorted (map (\<lambda>ev. unat (event_index e now w (fst ev))) (events e))"
  proof -
    have "sample_of e now a - unat (total_samples e) \<le> sample_of e now b - unat (total_samples e)" if "a \<le> b" for a b
      using sample_of_mono [of a b e now] that by (simp add: word_le_nat_alt diff_le_mono)
    then show ?thesis unfolding idx using assms(5)
      by (auto simp: sorted_map intro: sorted_wrt_mono_rel [of _ "\<lambda>x y. fst x \<le> fst y"])
  qed
  obtain ring lvl where r: "edge_render e now w (wp_frames ?p) (events e) 0 (current_level e) (edge_ring D) = (ring, lvl)"
    by (cases "edge_render e now w (wp_frames ?p) (events e) 0 (current_level e) (edge_ring D)")
  have len: "length ring = 4800"
    using length_edge_render [of e now w "wp_frames ?p" "events e" 0 "current_level e" "edge_ring D"] r assms(11) by simp
  have h: "ring ! ring_slot (wp_frames ?p) s = (if s < n
        then hold (\<lambda>c. sample_of e now c - unat (total_samples e)) (current_level e) (events e) s
        else edge_ring D ! ring_slot (wp_frames ?p) s) \<and> lvl = last (current_level e # map snd (events e))"
    if "s < 4800" for s
    using edge_render_hold [OF assms(10) _ assms(11) that srt, of 0 "current_level e"] assms(7) w r by (simp add: idx)
  have n32: "\<not> ucast (EDGE_RING_FRAMES - 1) < T - total_samples e"
    using d assms(7) by (simp add: word_less_nat_alt EDGE_RING_FRAMES_def)
  have "unat (ucast (T - total_samples e) :: u32) = n" using d assms(7) by (simp add: unsigned_ucast_eq take_bit_nat_eq_self)
  then have tw: "(ucast (T - total_samples e) :: u32) = w" using w by (simp add: word_unat_eq_iff)
  have room: "\<not> free < w" using assms(9) w by (simp add: word_less_nat_alt not_less)
  have wt: "edge_wait B E P d ?p w 50 free m1 = Some (True, m1)" using room by (subst edge_wait.simps) simp
  have "audio_edge_advance B E ub P d now (e, D, m) =
      Some (e\<lparr>total_samples := T, current_level := lvl, events := []\<rparr>,
        D\<lparr>edge_ring := ring, edge_pcm := audio_pcm_advance w ?p\<rparr>, m1)"
    using assms(2,8) gt n32 tw wt r by (simp add: audio_edge_advance_def T_def [symmetric] del: edge_wait.simps)
  then show ?thesis using h len h [of 0] by (intro exI [of _ ring]) (simp add: Te w_def ring_slot_def)
qed

definition demo_edge :: audio_edge where
  "demo_edge = \<lparr>emulator_hz = 96000, cycle_origin = 0, total_samples = 0, current_level = 0,
     events = [(2, 5), (4, 7)], dropped_events = 0, e_open = True\<rparr>"

definition demo_drv :: edge_drv where
  "demo_drv = \<lparr>edge_ring = replicate 4800 0, edge_ring_at = 0,
     edge_pcm = \<lparr>pcm_ring = 0, ring_frames = 4800, sample_rate = 48000, channels = 1, bdl_entries = 5, wp_frames = 0,
       total_written = 0, stream_tag = 1, running = True\<rparr>, edge_pcm_open = True\<rparr>"

lemma audio_edge_advance_renders_witness:
  "\<exists>e' D'. audio_edge_advance MMode (\<lambda>h a. 0) 0 plat_reset \<lparr>hda_base = 0, hda_up = True, corb = [], corb_at = 0, rirb_at = 0, corb_wp = 0, rirb_rp = 0\<rparr>
      8 (demo_edge, demo_drv, mach0) = Some (e', D', emits [Rd32 0xA4] mach0) \<and>
    edge_ring D' ! 0 = 0 \<and> edge_ring D' ! 1 = 5 \<and> edge_ring D' ! 3 = 7"
proof -
  let ?d = "\<lparr>hda_base = 0, hda_up = True, corb = [], corb_at = 0, rirb_at = 0, corb_wp = 0, rirb_rp = 0\<rparr>"
  have "audio_pcm_writable (\<lambda>h a. 0) ?d (edge_pcm demo_drv) mach0 = (4799, emits [Rd32 0xA4] mach0)"
    by (simp add: audio_pcm_writable_def audio_pcm_position_def SD_R32_def sd_reg_def mmio_r32_def demo_drv_def
        RVVM_HDA_OUT_SD_BASE_def HDA_SD_LPIB_def emit_emits)
  moreover have "sample_of demo_edge 8 8 - unat (total_samples demo_edge) = 4" by (simp add: sample_of_def demo_edge_def)
  ultimately obtain ring where r: "audio_edge_advance MMode (\<lambda>h a. 0) 0 plat_reset ?d 8 (demo_edge, demo_drv, mach0) =
      Some (demo_edge\<lparr>total_samples := 4, current_level := 7, events := []\<rparr>,
        demo_drv\<lparr>edge_ring := ring, edge_pcm := audio_pcm_advance 4 (edge_pcm demo_drv)\<rparr>, emits [Rd32 0xA4] mach0)"
    "\<forall>s\<in>{..<4800}. ring ! (s mod 4800) = (if s < 4
       then hold (\<lambda>c. sample_of demo_edge 8 c - 0) 0 [(2, 5), (4, 7)] s else edge_ring demo_drv ! (s mod 4800))"
    using audio_edge_advance_renders [of demo_edge 8 "\<lambda>h a. 0" ?d demo_drv mach0 4799 "emits [Rd32 0xA4] mach0" MMode 0 plat_reset]
    by (auto simp: demo_edge_def demo_drv_def)
  have "ring ! 0 = 0" "ring ! 1 = 5" "ring ! 3 = 7"
    using bspec [OF r(2), of 0] bspec [OF r(2), of 1] bspec [OF r(2), of 3] by (simp_all add: hold_def sample_of_def demo_edge_def)
  with r(1) show ?thesis by simp
qed

section \<open>The ring of a stream\<close>

text \<open>The slots between the play position and the write position, which the device has still to read.\<close>

definition in_flight :: "nat \<Rightarrow> nat \<Rightarrow> nat \<Rightarrow> nat set" where
  "in_flight n rd wp = (\<lambda>j. (rd + j) mod n) ` {..<(wp + n - rd) mod n}"

lemma in_flight_extend:
  assumes "rd < n" "wp < n" "q = (wp + n - rd) mod n" "q + k < n"
  shows "(\<lambda>i. (wp + i) mod n) ` {..<k} \<inter> in_flight n rd wp = {}"
    and "in_flight n rd ((wp + k) mod n) = in_flight n rd wp \<union> (\<lambda>i. (wp + i) mod n) ` {..<k}"
    and "card (in_flight n rd wp) = q"
proof -
  have w: "(rd + q) mod n = wp"
  proof -
    have "(rd + q) mod n = (rd + (wp + n - rd)) mod n" by (simp add: assms(3) mod_add_right_eq)
    also have "rd + (wp + n - rd) = wp + n" using assms(1) by simp
    finally show ?thesis using assms(2) by simp
  qed
  have slot: "(wp + i) mod n = (rd + (q + i)) mod n" for i
    using mod_add_left_eq [of "rd + q" n i] by (simp add: w add.assoc)
  have new: "(\<lambda>i. (wp + i) mod n) ` {..<k} = (\<lambda>j. (rd + j) mod n) ` {q..<q + k}"
    unfolding slot lessThan_atLeast0 image_image [of "\<lambda>j. (rd + j) mod n" "(+) q", symmetric] by (simp add: add.commute [of k q])
  have inj: "inj_on (\<lambda>j. (rd + j) mod n) {..<n}"
    by (rule inj_onI) (simp add: mod_shift_inj)
  have old: "in_flight n rd wp = (\<lambda>j. (rd + j) mod n) ` {..<q}" by (simp add: in_flight_def assms(3))
  show "(\<lambda>i. (wp + i) mod n) ` {..<k} \<inter> in_flight n rd wp = {}"
    unfolding new old using assms(4) inj by (subst inj_on_image_Int [OF inj, symmetric]) auto
  show "card (in_flight n rd wp) = q" unfolding old using assms(4)
    by (subst card_image) (auto intro: inj_on_subset [OF inj])
  have "((wp + k) mod n + n - rd) mod n = q + k"
  proof -
    have "((wp + k) mod n + n - rd) mod n = ((wp + k) mod n + (n - rd)) mod n" using assms(1) by simp
    also have "\<dots> = (wp + k + (n - rd)) mod n" by (simp add: mod_add_left_eq)
    also have "wp + k + (n - rd) = (wp + n - rd) + k" using assms(1) by simp
    also have "((wp + n - rd) + k) mod n = (q + k) mod n" by (simp add: assms(3) mod_add_left_eq)
    finally show ?thesis using assms(4) by simp
  qed
  moreover have "{..<q + k} = {..<q} \<union> {q..<q + k}" by auto
  ultimately show "in_flight n rd ((wp + k) mod n) = in_flight n rd wp \<union> (\<lambda>i. (wp + i) mod n) ` {..<k}"
    by (simp add: in_flight_def [of n rd "(wp + k) mod n"] new old image_Un)
qed

lemma pcm_writable_count:
  fixes E :: env and d :: hda and p :: audio_pcm and m :: mach
  assumes "running p" "unat (ring_frames p) \<le> 2 ^ 31" "wp_frames p < ring_frames p"
  defines "rd \<equiv> fst (audio_pcm_position E d p m)"
  shows "unat rd < unat (ring_frames p)"
    and "unat (fst (audio_pcm_writable E d p m)) =
      unat (ring_frames p) - 1 - (unat (wp_frames p) + unat (ring_frames p) - unat rd) mod unat (ring_frames p)"
proof -
  let ?N = "unat (ring_frames p)"
  have w: "unat (wp_frames p) < ?N" using assms(3) by (simp add: word_less_nat_alt)
  have "rd = (fst (SD_R32 E d HDA_SD_LPIB m) div (channels p * 2)) mod ring_frames p"
    using assms(1) by (simp add: rd_def audio_pcm_position_def split: prod.split)
  then show r: "unat rd < ?N" using w by (simp add: unat_mod)
  define q where "q = (wp_frames p + ring_frames p - rd) mod ring_frames p"
  have "unat (wp_frames p + ring_frames p) = unat (wp_frames p) + ?N"
    using w assms(2) by (intro unat_add_no_wrap) simp
  then have "unat (wp_frames p + ring_frames p - rd) = unat (wp_frames p) + ?N - unat rd"
    using r by (subst unat_sub_no_wrap) (simp_all add: word_le_nat_alt)
  then have q: "unat q = (unat (wp_frames p) + ?N - unat rd) mod ?N" by (simp add: q_def unat_mod)
  have "fst (audio_pcm_writable E d p m) = ring_frames p - 1 - q"
    using assms(1) by (simp add: audio_pcm_writable_def rd_def q_def Let_def split: prod.split)
  moreover have "unat (ring_frames p - 1) = ?N - 1" using w by (subst unat_sub_no_wrap) (simp_all add: word_le_nat_alt)
  moreover have "unat q \<le> ?N - 1" using w mod_less_divisor [of ?N "unat (wp_frames p) + ?N - unat rd"] unfolding q by linarith
  ultimately show "unat (fst (audio_pcm_writable E d p m)) = ?N - 1 - (unat (wp_frames p) + ?N - unat rd) mod ?N"
    by (simp add: unat_sub_no_wrap word_le_nat_alt q [symmetric])
qed

text \<open>C11: a running stream with a ring of at most 2 to the 31 frames: the frames reported as writable and those the
  device has still to play make up the ring less one.  Filling any number of them from the write position on
  and advancing by that number touches no frame still to be played and queues exactly the
  frames filled, and the write position stays inside the ring.\<close>

theorem pcm_ring_discipline:
  fixes E :: env and d :: hda and p :: audio_pcm and m :: mach
  assumes "running p" "unat (ring_frames p) \<le> 2 ^ 31" "wp_frames p < ring_frames p"
  defines "N \<equiv> unat (ring_frames p)" and "rd \<equiv> unat (fst (audio_pcm_position E d p m))"
    and "wp \<equiv> unat (wp_frames p)" and "free \<equiv> unat (fst (audio_pcm_writable E d p m))"
  shows "free + card (in_flight N rd wp) = N - 1 \<and>
    (\<forall>k \<le> free. let filled = (\<lambda>i. (wp + i) mod N) ` {..<k}; wp' = unat (wp_frames (audio_pcm_advance (of_nat k) p))
      in filled \<inter> in_flight N rd wp = {} \<and> in_flight N rd wp' = in_flight N rd wp \<union> filled \<and> wp' < N)"
proof -
  define q where "q = (wp + N - rd) mod N"
  note c = pcm_writable_count [OF assms(1-3), of E d m, folded N_def wp_def rd_def free_def, folded q_def]
  have w: "wp < N" using assms(3) by (simp add: wp_def N_def word_less_nat_alt)
  have q: "q < N" using w by (simp add: q_def)
  note x = in_flight_extend [OF c(1) w q_def]
  have "free + card (in_flight N rd wp) = N - 1" using x(3) [of 0] c(2) q by simp
  moreover have "unat (wp_frames (audio_pcm_advance (of_nat k) p)) = (wp + k) mod N" if "k \<le> free" for k
  proof -
    have "k < 2 ^ 31" using that c(2) assms(2) w unfolding N_def by linarith
    then have "unat (of_nat k :: u32) = k" by (intro unat_of_nat_small) simp
    then show ?thesis using assms(1,2) w \<open>k < 2 ^ 31\<close>
      by (simp add: audio_pcm_advance_def unat_add_mod wp_def N_def)
  qed
  ultimately show ?thesis using x(1,2) c(2) q by (auto simp: Let_def)
qed

text \<open>A device that has played two frames of a full ring: one frame is writable, and filling it leaves
  one slot between the newest frame and the oldest one.\<close>

lemma pcm_ring_discipline_witness:
  "\<forall>d m. unat (fst (audio_pcm_writable (\<lambda>h a. 4) d (edge_pcm demo_drv) m)) = 1 \<and>
     in_flight 4800 2 1 = insert 0 (in_flight 4800 2 0)"
proof (intro allI)
  fix d :: hda and m :: mach
  let ?E = "\<lambda>h a. 4 :: u64"
  let ?p = "edge_pcm demo_drv"
  have p: "running ?p" "ring_frames ?p = 4800" "wp_frames ?p = 0" "channels ?p = 1" by (simp_all add: demo_drv_def)
  have rd: "unat (fst (audio_pcm_position ?E d ?p m)) = 2"
    by (simp add: p audio_pcm_position_def SD_R32_def Let_def unat_div unat_mod)
  have free: "unat (fst (audio_pcm_writable ?E d ?p m)) = 1"
    using pcm_writable_count(2) [of ?p ?E d m] by (simp add: p rd)
  have "unat (wp_frames (audio_pcm_advance (of_nat 1) ?p)) = 1" by (simp add: audio_pcm_advance_def p)
  then show "unat (fst (audio_pcm_writable ?E d ?p m)) = 1 \<and> in_flight 4800 2 1 = insert 0 (in_flight 4800 2 0)"
    using pcm_ring_discipline [of ?p ?E d m] free by (auto simp: p rd Let_def dest: spec [of _ 1])
qed

end
