(* ===== verification/Net.thy ===== *)
theory Net
  imports Eth Timer
begin

text \<open>
  The lwIP glue, \<open>src/net.c\<close>.  lwIP is not part of the repository: what the glue calls of it is
  a record of functions over the stack's own state \<open>'s\<close>, and since the stack may send frames
  from inside a call, over the interface and the hart as well.  Packet buffers are handles.
\<close>

datatype err = ERR_OK | ERR_BUF | ERR_IF | ERR_OTHER

record netif =
  nif_name :: "u8 list"
  mtu :: u16
  nif_flags :: u8
  hwaddr :: "u8 list"

type_synonym 's net_state = "'s \<times> eth \<times> mach"

record 's lwip =
  tot_len :: "u64 \<Rightarrow> 's net_state \<Rightarrow> u16"
  pbuf_copy_partial :: "u64 \<Rightarrow> u16 \<Rightarrow> 's net_state \<Rightarrow> u8 list"
  pbuf_alloc :: "u16 \<Rightarrow> 's net_state \<Rightarrow> u64 \<times> 's net_state"
  pbuf_take :: "u64 \<Rightarrow> u8 list \<Rightarrow> 's net_state \<Rightarrow> err \<times> 's net_state"
  pbuf_free :: "u64 \<Rightarrow> 's net_state \<Rightarrow> 's net_state"
  netif_input :: "u64 \<Rightarrow> 's net_state \<Rightarrow> err \<times> 's net_state"
  sys_check_timeouts :: "'s net_state \<Rightarrow> 's net_state"
  lwip_init :: "'s net_state \<Rightarrow> 's net_state"
  netif_add :: "netif \<Rightarrow> 's net_state \<Rightarrow> bool \<times> 's net_state"
  netif_bring_up :: "'s net_state \<Rightarrow> 's net_state"
  NETIF_FLAGS :: u8

definition sys_now :: "env \<Rightarrow> mach \<Rightarrow> u32 \<times> mach" where
  "sys_now E m = (let (t, m) = ask E Rdtime m in (ucast (t div (RVVM_TIME_HZ div 1000)), m))"

text \<open>The transmit hook of the interface.\<close>

definition linkoutput :: "env \<Rightarrow> 's lwip \<Rightarrow> u64 \<Rightarrow> 's net_state \<Rightarrow> err \<times> 's net_state" where
  "linkoutput E L p s =
     (if ucast (tot_len L p s) > ETH_BUFFER_SIZE then (ERR_IF, s)
      else
        (let staging = pbuf_copy_partial L p (tot_len L p s) s in
         if length staging \<noteq> unat (tot_len L p s) then (ERR_BUF, s)
         else
           (case s of (st, e, m) \<Rightarrow>
              (let (ok, e, m) = eth_send E e staging (of_nat (length staging)) m
               in (if \<not> ok then ERR_IF else ERR_OK, st, e, m)))))"

text \<open>What the initialiser fills in; lwIP runs it inside \<open>netif_add\<close>.\<close>

definition netif_init_cb :: "'s lwip \<Rightarrow> eth \<Rightarrow> netif" where
  "netif_init_cb L e = \<lparr>nif_name = bytes_of ''en'', mtu = 1500, nif_flags = NETIF_FLAGS L, hwaddr = eth_mac e\<rparr>"

text \<open>One received frame on its way into the stack.\<close>

definition net_deliver :: "'s lwip \<Rightarrow> u8 list \<Rightarrow> 's net_state \<Rightarrow> 's net_state" where
  "net_deliver L buf s =
     (let (p, s) = pbuf_alloc L (of_nat (length buf)) s in
      if p = 0 then s
      else
        (let (r, s) = pbuf_take L p buf s in
         if r \<noteq> ERR_OK then pbuf_free L p s
         else (let (r, s) = netif_input L p s in if r \<noteq> ERR_OK then pbuf_free L p s else s)))"

text \<open>\<open>frame_at\<close> is the address of the stack buffer.\<close>

partial_function (option) net_drain :: "env \<Rightarrow> u64 \<Rightarrow> 's lwip \<Rightarrow> 's net_state \<Rightarrow> 's net_state option" where
  "net_drain E frame_at L s = (case s of (st, e, m) \<Rightarrow>
     (let (buf, e, m) = eth_recv E e frame_at ETH_BUFFER_SIZE m
      in if length buf = 0 then Some (st, e, m) else net_drain E frame_at L (net_deliver L buf (st, e, m))))"

definition net_poll :: "env \<Rightarrow> u64 \<Rightarrow> 's lwip \<Rightarrow> bool \<Rightarrow> 's net_state \<Rightarrow> 's net_state option" where
  "net_poll E frame_at L inited s =
     (if \<not> inited then Some s
      else do { s \<leftarrow> net_drain E frame_at L s; Some (sys_check_timeouts L s) })"

text \<open>The interface is \<open>None\<close> for a null pointer; the result has the new \<open>inited\<close> flag.\<close>

definition net_init ::
  "env \<Rightarrow> u64 \<Rightarrow> 's lwip \<Rightarrow> bool \<Rightarrow> eth option \<Rightarrow> 's \<times> mach \<Rightarrow> (bool \<times> bool \<times> 's \<times> eth option \<times> mach) option" where
  "net_init E ub L inited nic = (\<lambda>(st, m).
     case nic of
       Some e \<Rightarrow>
         if \<not> up e
         then do { m \<leftarrow> uart_puts E ub (bytes_of (''net_init: eth_t isn'' @ [CHR 0x27] @ ''t initialised or link is down'' @ [CHR 0x0A])) m;
                   Some (False, inited, st, nic, m) }
         else if inited then Some (True, inited, st, nic, m)
         else
           (let s = lwip_init L (st, e, m);
                (ok, s) = netif_add L (netif_init_cb L e) s in
            if \<not> ok
            then (case s of (st, e, m) \<Rightarrow> do {
                m \<leftarrow> uart_puts E ub (bytes_of (''net_init: netif_add failed'' @ [CHR 0x0A])) m;
                Some (False, inited, st, Some e, m) })
            else (case netif_bring_up L s of (st, e, m) \<Rightarrow> Some (True, True, st, Some e, m)))
     | None \<Rightarrow> do {
         m \<leftarrow> uart_puts E ub (bytes_of (''net_init: eth_t isn'' @ [CHR 0x27] @ ''t initialised or link is down'' @ [CHR 0x0A])) m;
         Some (False, inited, st, nic, m) })"

text \<open>\<open>net_if\<close> is the address of the interface's object.\<close>

definition net_default_netif :: "u64 \<Rightarrow> bool \<Rightarrow> u64" where
  "net_default_netif net_if inited = (if inited then net_if else 0)"

section \<open>The driver's object stays well formed\<close>

text \<open>Both ring positions name a descriptor, so every descriptor and buffer address the driver
  computes lies inside its object.\<close>

definition nic_ok :: "eth \<Rightarrow> bool" where
  "nic_ok e \<longleftrightarrow> rx_head e < 16 \<and> tx_head e < 16 \<and> length (mac e) = 6"

lemma nic_ok_zero: "nic_ok (eth_zero a)"
  by (simp add: nic_ok_def eth_zero_def)

lemma eth_send_ok: "eth_send E e frame len m = (r, e', m') \<Longrightarrow> nic_ok e \<Longrightarrow> nic_ok e'"
  by (auto simp: eth_send_def nic_ok_def Let_def ETH_RING_DEPTH_def word_mod_less_divisor split: prod.splits if_splits)

lemma eth_recv_ok: "eth_recv E e out maxlen m = (bs, e', m') \<Longrightarrow> nic_ok e \<Longrightarrow> nic_ok e'"
  by (auto simp: eth_recv_def nic_ok_def Let_def ETH_RING_DEPTH_def word_mod_less_divisor split: prod.splits if_splits)

lemma eth_start_ok: "eth_start E ub e m = Some (r, e', m') \<Longrightarrow> nic_ok e \<Longrightarrow> nic_ok e'"
  by (auto simp: eth_start_def nic_ok_def Let_def bind_eq_Some_conv split: prod.splits if_splits)

lemma eth_init_ok:
  assumes "eth_init E ub ecam e m = Some (r, e', m')"
  shows "nic_ok e'"
proof -
  have z: "nic_ok (eth_zero (e_at e)\<lparr>pf := f, e_bar := b\<rparr>)" for f b using nic_ok_zero [of "e_at e"] by (simp add: nic_ok_def)
  obtain f m1 where "pci_find_device E ecam RVVM_PCI_ID_RTL8168
      (emits (map (\<lambda>i. Wr8 (e_at e + of_nat i) 0) [0..<ETH_T_SIZE]) m) = Some (f, m1)"
    using assms by (auto simp: eth_init_def Let_def bind_eq_Some_conv)
  note f = this
  show ?thesis
  proof (cases f)
    case None
    then show ?thesis using assms f nic_ok_zero [of "e_at e"] by (auto simp: eth_init_def Let_def bind_eq_Some_conv)
  next
    case (Some g)
    obtain g' m2 where "pci_setup_bars E g m1 = (g', m2)" by (cases "pci_setup_bars E g m1")
    moreover define e1 where "e1 = eth_zero (e_at e)\<lparr>pf := g', e_bar := first_bar (pci_func.bar g')\<rparr>"
    ultimately have "e' = e1 \<or> eth_start E ub e1 m2 = Some (r, e', m')"
      using assms f Some by (auto simp: eth_init_def Let_def bind_eq_Some_conv split: if_splits)
    then show ?thesis using z e1_def eth_start_ok by blast
  qed
qed

definition net_ok :: "'s net_state \<Rightarrow> bool" where
  "net_ok s \<longleftrightarrow> nic_ok (fst (snd s))"

text \<open>The stack owns no part of the driver's object: what it does to it, it does through the
  transmit hook, which keeps the object well formed.\<close>

definition stack_keeps :: "'s lwip \<Rightarrow> bool" where
  "stack_keeps L \<longleftrightarrow> (\<forall>s. net_ok s \<longrightarrow>
     (\<forall>n. net_ok (snd (pbuf_alloc L n s))) \<and> (\<forall>p bs. net_ok (snd (pbuf_take L p bs s))) \<and>
     (\<forall>p. net_ok (pbuf_free L p s)) \<and> (\<forall>p. net_ok (snd (netif_input L p s))) \<and>
     net_ok (sys_check_timeouts L s) \<and> net_ok (lwip_init L s) \<and> (\<forall>c. net_ok (snd (netif_add L c s))) \<and>
     net_ok (netif_bring_up L s))"

lemma linkoutput_ok: "net_ok s \<Longrightarrow> net_ok (snd (linkoutput E L p s))"
  by (cases s) (auto simp: linkoutput_def net_ok_def Let_def eth_send_ok split: prod.splits)

lemma net_deliver_ok:
  assumes "stack_keeps L" "net_ok s"
  shows "net_ok (net_deliver L buf s)"
proof -
  obtain p s1 where 1: "pbuf_alloc L (of_nat (length buf)) s = (p, s1)" by (cases "pbuf_alloc L (of_nat (length buf)) s")
  obtain r s2 where 2: "pbuf_take L p buf s1 = (r, s2)" by (cases "pbuf_take L p buf s1")
  obtain q s3 where 3: "netif_input L p s2 = (q, s3)" by (cases "netif_input L p s2")
  have k1: "net_ok s1" using assms 1 unfolding stack_keeps_def by (metis snd_conv)
  have k2: "net_ok s2" using assms(1) k1 2 unfolding stack_keeps_def by (metis snd_conv)
  have k3: "net_ok s3" using assms(1) k2 3 unfolding stack_keeps_def by (metis snd_conv)
  have "net_ok (pbuf_free L p x)" if "net_ok x" for x using assms(1) that unfolding stack_keeps_def by blast
  with k1 k2 k3 assms(2) show ?thesis by (simp add: net_deliver_def 1 2 3)
qed

lemma net_drain_ok:
  assumes "net_drain E at L s = Some s'" "stack_keeps L" "net_ok s"
  shows "net_ok s'"
proof -
  have "stack_keeps L \<longrightarrow> net_ok s \<longrightarrow> net_ok s'"
  proof (rule net_drain.raw_induct [where P = "\<lambda>E at L s s'. stack_keeps L \<longrightarrow> net_ok s \<longrightarrow> net_ok s'", OF _ assms(1)], intro impI)
    fix loop :: "env \<Rightarrow> u64 \<Rightarrow> 's lwip \<Rightarrow> 's net_state \<Rightarrow> 's net_state option" and E at L s s'
    assume IH: "\<And>E at L s s'. loop E at L s = Some s' \<Longrightarrow> stack_keeps L \<longrightarrow> net_ok s \<longrightarrow> net_ok s'"
      and k: "stack_keeps L" "net_ok s"
      and b: "(case s of (st, e, m) \<Rightarrow>
        (let (buf, e, m) = eth_recv E e at ETH_BUFFER_SIZE m
         in if length buf = 0 then Some (st, e, m) else loop E at L (net_deliver L buf (st, e, m)))) = Some s'"
    obtain st e m buf e1 m1 where s: "s = (st, e, m)" "eth_recv E e at ETH_BUFFER_SIZE m = (buf, e1, m1)"
      by (metis prod_cases3)
    then have "net_ok (st, e1, m1)" using k(2) eth_recv_ok by (auto simp: net_ok_def)
    then show "net_ok s'" using b s IH [of E at L "net_deliver L buf (st, e1, m1)" s'] net_deliver_ok [OF k(1)] k(1)
      by (auto split: if_splits)
  qed
  with assms(2,3) show ?thesis by simp
qed

lemma eth_drain_ok:
  assumes "eth_drain E at cb s = Some s'" "nic_ok (fst (snd s))"
  shows "nic_ok (fst (snd s'))"
proof -
  have "nic_ok (fst (snd s)) \<longrightarrow> nic_ok (fst (snd s'))"
  proof (rule eth_drain.raw_induct [where P = "\<lambda>E at cb s s'. nic_ok (fst (snd s)) \<longrightarrow> nic_ok (fst (snd s'))", OF _ assms(1)], intro impI)
    fix loop :: "env \<Rightarrow> u64 \<Rightarrow> (u8 list \<Rightarrow> 'c \<Rightarrow> 'c) \<Rightarrow> 'c \<times> eth \<times> mach \<Rightarrow> ('c \<times> eth \<times> mach) option" and E at cb s s'
    assume IH: "\<And>E at cb s s'. loop E at cb s = Some s' \<Longrightarrow> nic_ok (fst (snd s)) \<longrightarrow> nic_ok (fst (snd s'))"
      and k: "nic_ok (fst (snd s))"
      and b: "(case s of (c, e, m) \<Rightarrow>
        (let (bs, e, m) = eth_recv E e at ETH_BUFFER_SIZE m
         in if 0 < length bs then loop E at cb (cb bs c, e, m) else Some (c, e, m))) = Some s'"
    obtain c e m bs e1 m1 where s: "s = (c, e, m)" "eth_recv E e at ETH_BUFFER_SIZE m = (bs, e1, m1)" by (metis prod_cases3)
    then have "nic_ok e1" using k eth_recv_ok by auto
    then show "nic_ok (fst (snd s'))" using b s IH [of E at cb "(cb bs c, e1, m1)" s'] by (auto split: if_splits)
  qed
  with assms(2) show ?thesis by simp
qed


text \<open>A stack without packet buffers, and a card whose head descriptor is never released.\<close>

definition demo_stack :: "unit lwip" where
  "demo_stack = \<lparr>tot_len = (\<lambda>p s. 60), pbuf_copy_partial = (\<lambda>p n s. replicate 60 0), pbuf_alloc = (\<lambda>n s. (0, s)),
     pbuf_take = (\<lambda>p bs s. (ERR_OK, s)), pbuf_free = (\<lambda>p s. s), netif_input = (\<lambda>p s. (ERR_OK, s)),
     sys_check_timeouts = (\<lambda>s. s), lwip_init = (\<lambda>s. s), netif_add = (\<lambda>c s. (True, s)), netif_bring_up = (\<lambda>s. s),
     NETIF_FLAGS = 0\<rparr>"


end
