(* ===== verification/Hammer.thy ===== *)
theory Hammer
  imports Sync
begin

text \<open>
  The concurrency torture of \<open>examples/smp/main.c\<close> on top of the spin lock of \<open>Sync\<close>: every hart
  repeats an atomic add on one counter and, inside the lock, an unprotected load and store on
  another.  The step relation interleaves the single memory accesses of all harts, including the
  load-reserved and store-conditional attempts inside \<open>mutex_lock\<close>.
\<close>

section \<open>The interleaved program\<close>

definition ITERS_PER_HART :: nat where "ITERS_PER_HART = 50000"

text \<open>Where a hart is in the body of the loop; between the load and the store it holds the value
  it has read.\<close>

datatype phase = AtAdd | AtLock | AtLoad | AtStore u32 | AtUnlock | Finished

record hammer_sys =
  lk :: lock_sys
  atomic_counter :: u32
  mutex_counter :: u32
  phase :: "u32 \<Rightarrow> phase"
  iters_left :: "u32 \<Rightarrow> nat"

text \<open>The harts of \<open>H\<close> start the loop, with \<open>n\<close> iterations to do; the others do not take part.\<close>

definition hammer_init :: "nat \<Rightarrow> u32 set \<Rightarrow> hammer_sys" where
  "hammer_init n H = \<lparr>lk = lock_init, atomic_counter = 0, mutex_counter = 0,
     phase = (\<lambda>h. if h \<in> H \<and> n \<noteq> 0 then AtAdd else Finished), iters_left = (\<lambda>h. n)\<rparr>"

text \<open>A step of the lock that moves at most hart \<open>h\<close>.\<close>

definition lock_step_of :: "u32 \<Rightarrow> lock_sys \<Rightarrow> lock_sys \<Rightarrow> bool" where
  "lock_step_of h L L' \<longleftrightarrow> lock_step L L' \<and> (\<forall>h'. h' \<noteq> h \<longrightarrow> pc L' h' = pc L h')"

inductive hammer_step :: "hammer_sys \<Rightarrow> hammer_sys \<Rightarrow> bool" where
  add: "phase s h = AtAdd \<Longrightarrow>
    hammer_step s (s\<lparr>atomic_counter := atomic_counter s + 1, phase := (phase s)(h := AtLock)\<rparr>)"
| spin: "phase s h = AtLock \<Longrightarrow> pc (lk s) h \<noteq> Inside \<Longrightarrow> lock_step_of h (lk s) L \<Longrightarrow> hammer_step s (s\<lparr>lk := L\<rparr>)"
| acquired: "phase s h = AtLock \<Longrightarrow> pc (lk s) h = Inside \<Longrightarrow> hammer_step s (s\<lparr>phase := (phase s)(h := AtLoad)\<rparr>)"
| load: "phase s h = AtLoad \<Longrightarrow> hammer_step s (s\<lparr>phase := (phase s)(h := AtStore (mutex_counter s))\<rparr>)"
| store: "phase s h = AtStore v \<Longrightarrow>
    hammer_step s (s\<lparr>mutex_counter := v + 1, phase := (phase s)(h := AtUnlock)\<rparr>)"
| release: "phase s h = AtUnlock \<Longrightarrow> lock_step_of h (lk s) L \<Longrightarrow> pc L h = Outside \<Longrightarrow>
    hammer_step s (s\<lparr>lk := L, iters_left := (iters_left s)(h := iters_left s h - 1),
      phase := (phase s)(h := if iters_left s h = 1 then Finished else AtAdd)\<rparr>)"

inductive hammer_reach :: "nat \<Rightarrow> u32 set \<Rightarrow> hammer_sys \<Rightarrow> bool" for n H where
  init: "hammer_reach n H (hammer_init n H)"
| step: "hammer_reach n H s \<Longrightarrow> hammer_step s t \<Longrightarrow> hammer_reach n H t"

section \<open>What the counters hold\<close>

definition in_section :: "phase \<Rightarrow> bool" where
  "in_section p \<longleftrightarrow> p = AtLoad \<or> (\<exists>v. p = AtStore v) \<or> p = AtUnlock"

text \<open>The increments hart \<open>h\<close> has made so far.\<close>

definition added :: "nat \<Rightarrow> hammer_sys \<Rightarrow> u32 \<Rightarrow> nat" where
  "added n s h = n - iters_left s h + (if phase s h = AtAdd \<or> phase s h = Finished then 0 else 1)"

definition stored :: "nat \<Rightarrow> hammer_sys \<Rightarrow> u32 \<Rightarrow> nat" where
  "stored n s h = n - iters_left s h + (if phase s h = AtUnlock then 1 else 0)"

definition hart_ok :: "nat \<Rightarrow> u32 set \<Rightarrow> hammer_sys \<Rightarrow> u32 \<Rightarrow> bool" where
  "hart_ok n H s h \<longleftrightarrow> iters_left s h \<le> n \<and> (phase s h \<noteq> Finished \<longrightarrow> h \<in> H \<and> 0 < iters_left s h) \<and>
     (h \<in> H \<longrightarrow> phase s h = Finished \<longrightarrow> iters_left s h = 0) \<and>
     (in_section (phase s h) \<longrightarrow> pc (lk s) h = Inside) \<and> (\<forall>v. phase s h = AtStore v \<longrightarrow> v = mutex_counter s)"

definition hammer_inv :: "nat \<Rightarrow> u32 set \<Rightarrow> hammer_sys \<Rightarrow> bool" where
  "hammer_inv n H s \<longleftrightarrow> lock_inv (lk s) \<and> (\<forall>h. hart_ok n H s h) \<and>
     atomic_counter s = of_nat (\<Sum>h\<in>H. added n s h) \<and> mutex_counter s = of_nat (\<Sum>h\<in>H. stored n s h)"

lemma hammer_inv_init: "hammer_inv n H (hammer_init n H)"
  by (auto simp: hammer_inv_def hart_ok_def hammer_init_def lock_inv_init in_section_def added_def stored_def)

lemma sum_bump:
  fixes f g :: "u32 \<Rightarrow> nat"
  assumes "finite H" "h \<in> H" "g h = f h + d" "\<And>x. x \<noteq> h \<Longrightarrow> g x = f x"
  shows "sum g H = sum f H + d"
proof -
  have "sum g (H - {h}) = sum f (H - {h})" using assms(4) by (intro sum.cong) auto
  then show ?thesis using sum.remove [OF assms(1,2), of f] sum.remove [OF assms(1,2), of g] assms(3) by simp
qed

text \<open>A step that changes the phase of one hart only changes the increments of that hart.\<close>

lemma counts_bump:
  assumes "finite H" "h \<in> H"
    and "\<And>x. x \<noteq> h \<Longrightarrow> phase t x = phase s x \<and> iters_left t x = iters_left s x"
    and "added n t h = added n s h + a" "stored n t h = stored n s h + b"
  shows "(\<Sum>h\<in>H. added n t h) = (\<Sum>h\<in>H. added n s h) + a" "(\<Sum>h\<in>H. stored n t h) = (\<Sum>h\<in>H. stored n s h) + b"
  using assms by (auto intro!: sum_bump simp: added_def stored_def)

lemma hammer_inv_keep:
  assumes "hammer_inv n H s" "finite H" "h \<in> H" "lock_inv (lk t)"
    and "\<And>x. x \<noteq> h \<Longrightarrow> phase t x = phase s x \<and> iters_left t x = iters_left s x"
    and "\<And>x. x \<noteq> h \<Longrightarrow> in_section (phase s x) \<Longrightarrow> pc (lk t) x = Inside \<and> mutex_counter t = mutex_counter s"
    and "hart_ok n H t h"
    and "added n t h = added n s h + a" "atomic_counter t = atomic_counter s + of_nat a"
    and "stored n t h = stored n s h + b" "mutex_counter t = mutex_counter s + of_nat b"
  shows "hammer_inv n H t"
proof -
  have "hart_ok n H t x" for x
  proof (cases "x = h")
    case False
    moreover have "hart_ok n H s x" using assms(1) by (simp add: hammer_inv_def)
    ultimately show ?thesis using assms(5,6) [OF False] by (auto simp: hart_ok_def in_section_def)
  qed (use assms(7) in simp)
  then show ?thesis using assms(1,4,9,11) counts_bump [OF assms(2,3,5,8,10)] by (simp add: hammer_inv_def)
qed

lemma hammer_inv_step:
  assumes "hammer_step s t" "hammer_inv n H s" "finite H"
  shows "hammer_inv n H t"
proof -
  have L: "lock_inv (lk s)" and ok: "hart_ok n H s x" for x using assms(2) by (simp_all add: hammer_inv_def)
  have ins: "pc (lk s) x = Inside" if "in_section (phase s x)" for x using ok [of x] that by (simp add: hart_ok_def)
  have only: "x = y" if "in_section (phase s x)" "in_section (phase s y)" for x y
    using lock_inv_unique [OF L ins ins] that by blast
  have mem: "h \<in> H" if "phase s h \<noteq> Finished" for h using ok [of h] that by (simp add: hart_ok_def)
  note keep = hammer_inv_keep [OF assms(2,3)]
  from assms(1) show ?thesis
  proof (cases rule: hammer_step.cases)
    case (add h)
    show ?thesis
      by (rule keep [of h _ 1 0]) (use add L mem [of h] ins ok [of h] in \<open>auto simp: hart_ok_def added_def stored_def in_section_def\<close>)
  next
    case (spin h K)
    then have K: "lock_inv K" "\<And>x. x \<noteq> h \<Longrightarrow> pc K x = pc (lk s) x" using lock_inv_step L by (auto simp: lock_step_of_def)
    show ?thesis
      by (rule keep [of h _ 0 0]) (use spin K mem [of h] ins ok [of h] in \<open>auto simp: hart_ok_def added_def stored_def in_section_def\<close>)
  next
    case (acquired h)
    show ?thesis
      by (rule keep [of h _ 0 0]) (use acquired L mem [of h] ins ok [of h] in \<open>auto simp: hart_ok_def added_def stored_def in_section_def\<close>)
  next
    case (load h)
    show ?thesis
      by (rule keep [of h _ 0 0]) (use load L mem [of h] ins ok [of h] in \<open>auto simp: hart_ok_def added_def stored_def in_section_def\<close>)
  next
    case (store h v)
    then have "in_section (phase s h)" "v = mutex_counter s" using ok [of h] by (simp_all add: in_section_def hart_ok_def)
    show ?thesis
      by (rule keep [of h _ 0 1])
        (use store L mem [of h] ins ok [of h] only [of h] \<open>in_section (phase s h)\<close> \<open>v = mutex_counter s\<close>
          in \<open>auto simp: hart_ok_def added_def stored_def in_section_def\<close>)
  next
    case (release h K)
    then have K: "lock_inv K" "\<And>x. x \<noteq> h \<Longrightarrow> pc K x = pc (lk s) x" using lock_inv_step L by (auto simp: lock_step_of_def)
    have i: "0 < iters_left s h" "iters_left s h \<le> n" using ok [of h] release by (simp_all add: hart_ok_def)
    show ?thesis
      by (rule keep [of h _ 0 0]) (use release K mem [of h] ins ok [of h] i in \<open>auto simp: hart_ok_def added_def stored_def in_section_def\<close>)
  qed
qed

lemma hammer_reach_inv: "hammer_reach n H s \<Longrightarrow> finite H \<Longrightarrow> hammer_inv n H s"
  by (induction rule: hammer_reach.induct) (auto intro: hammer_inv_init hammer_inv_step)

lemma card_below: "card {..<n :: u32} = unat n"
proof -
  have "unat ` {..<n} = {..<unat n}"
  proof (rule set_eqI)
    fix k
    have "k \<in> unat ` {..<n}" if "k < unat n"
      using that unat_u32_less [of n]
      by (intro image_eqI [of _ _ "of_nat k"]) (simp_all add: unat_of_nat_small word_less_nat_alt)
    then show "k \<in> unat ` {..<n} \<longleftrightarrow> k \<in> {..<unat n}" by (auto simp: word_less_nat_alt)
  qed
  moreover have "inj_on unat {..<n}" by (auto intro: inj_onI simp: word_unat_eq_iff)
  ultimately show ?thesis using card_image [of unat "{..<n}"] by simp
qed

section \<open>A schedule that finishes\<close>

definition quiet :: "hammer_sys \<Rightarrow> bool" where
  "quiet s \<longleftrightarrow> (\<forall>h. pc (lk s) h = Outside) \<and> holder (lk s) = 0"

lemma hammer_turn:
  assumes "hammer_reach n H s" "quiet s" "phase s h = AtAdd" "h < 8"
  shows "\<exists>t. hammer_reach n H t \<and> quiet t \<and> iters_left t = (iters_left s)(h := iters_left s h - 1) \<and>
    phase t = (phase s)(h := if iters_left s h = 1 then Finished else AtAdd)"
proof -
  define L1 where "L1 = (lk s)\<lparr>pc := (pc (lk s))(h := AtLr 32)\<rparr>"
  define L2 where "L2 = L1\<lparr>reserved := (reserved L1)(h := True), pc := (pc L1)(h := AtSc 31)\<rparr>"
  define L3 where "L3 = L2\<lparr>holder := h + 1, reserved := (\<lambda>_. False), pc := (pc L2)(h := Inside)\<rparr>"
  define L4 where "L4 = L3\<lparr>holder := 0, reserved := (\<lambda>_. False), pc := (pc L3)(h := Outside)\<rparr>"
  have st: "lock_step (lk s) L1" "lock_step L1 L2" "lock_step L2 L3" "lock_step L3 L4"
    using assms(2,4) lock_step.enter [of "lk s" h] lock_step.lr_free [of L1 h 31] lock_step.sc_ok [of L2 h 31]
      lock_step.unlock [of L3 h]
    by (simp_all add: quiet_def L1_def L2_def L3_def L4_def)
  have pcs: "pc (lk s) h = Outside" "pc L1 h = AtLr 32" "pc L2 h = AtSc 31" "pc L3 h = Inside" "pc L4 h = Outside"
    "x \<noteq> h \<Longrightarrow> pc L1 x = pc (lk s) x \<and> pc L2 x = pc L1 x \<and> pc L3 x = pc L2 x \<and> pc L4 x = pc L3 x" for x
    using assms(2) by (simp_all add: quiet_def L1_def L2_def L3_def L4_def)
  then have ls: "lock_step_of h (lk s) L1" "lock_step_of h L1 L2" "lock_step_of h L2 L3" "lock_step_of h L3 L4"
    using st by (simp_all add: lock_step_of_def)
  define s1 where "s1 = s\<lparr>atomic_counter := atomic_counter s + 1, phase := (phase s)(h := AtLock)\<rparr>"
  define s4 where "s4 = s1\<lparr>lk := L3\<rparr>"
  define s5 where "s5 = s4\<lparr>phase := (phase s4)(h := AtLoad)\<rparr>"
  define s6 where "s6 = s5\<lparr>phase := (phase s5)(h := AtStore (mutex_counter s5))\<rparr>"
  define s7 where "s7 = s6\<lparr>mutex_counter := mutex_counter s5 + 1, phase := (phase s6)(h := AtUnlock)\<rparr>"
  define s8 where "s8 = s7\<lparr>lk := L4, iters_left := (iters_left s7)(h := iters_left s7 h - 1),
      phase := (phase s7)(h := if iters_left s7 h = 1 then Finished else AtAdd)\<rparr>"
  note go = hammer_reach.step
  have "hammer_reach n H s1" unfolding s1_def by (rule go [OF assms(1)], rule hammer_step.add, rule assms(3))
  then have "hammer_reach n H (s1\<lparr>lk := L1\<rparr>)"
    by (rule go, intro hammer_step.spin [of _ h]) (use ls pcs in \<open>simp_all add: s1_def\<close>)
  then have "hammer_reach n H (s1\<lparr>lk := L1\<rparr>\<lparr>lk := L2\<rparr>)"
    by (rule go, intro hammer_step.spin [of _ h]) (use ls pcs in \<open>simp_all add: s1_def\<close>)
  then have "hammer_reach n H (s1\<lparr>lk := L1\<rparr>\<lparr>lk := L2\<rparr>\<lparr>lk := L3\<rparr>)"
    by (rule go, intro hammer_step.spin [of _ h]) (use ls pcs in \<open>simp_all add: s1_def\<close>)
  then have "hammer_reach n H s4" by (simp add: s4_def)
  then have "hammer_reach n H s5" unfolding s5_def
    by (rule go, intro hammer_step.acquired) (use pcs in \<open>simp_all add: s4_def s1_def\<close>)
  then have "hammer_reach n H s6" unfolding s6_def by (rule go, intro hammer_step.load) (simp add: s5_def)
  then have "hammer_reach n H s7" unfolding s7_def by (rule go, intro hammer_step.store) (simp add: s6_def)
  then have "hammer_reach n H s8" unfolding s8_def
    by (rule go, intro hammer_step.release) (use ls pcs in \<open>simp_all add: s7_def s6_def s5_def s4_def s1_def\<close>)
  moreover have "quiet s8" using assms(2) pcs by (simp add: quiet_def s8_def L4_def L3_def L2_def L1_def)
  ultimately show ?thesis
    by (intro exI [of _ s8]) (simp add: s8_def s7_def s6_def s5_def s4_def s1_def fun_upd_twist)
qed

lemma hammer_hart_finishes:
  assumes "hammer_reach n H s" "quiet s" "phase s h = AtAdd" "h < 8" "iters_left s h = Suc k"
  shows "\<exists>t. hammer_reach n H t \<and> quiet t \<and> phase t = (phase s)(h := Finished) \<and> (\<forall>x. x \<noteq> h \<longrightarrow> iters_left t x = iters_left s x)"
  using assms
proof (induction k arbitrary: s)
  case 0
  then obtain t where t: "hammer_reach n H t" "quiet t" "iters_left t = (iters_left s)(h := 0)" "phase t = (phase s)(h := Finished)"
    using hammer_turn [OF 0(1-4)] by auto
  then show ?case by (intro exI [of _ t]) simp
next
  case (Suc k)
  obtain t where t: "hammer_reach n H t" "quiet t" "iters_left t = (iters_left s)(h := Suc k)" "phase t = (phase s)(h := AtAdd)"
    using hammer_turn [OF Suc.prems(1-4)] Suc.prems(5) by auto
  have "phase t h = AtAdd" "iters_left t h = Suc k" by (simp_all add: t(3,4))
  from Suc.IH [OF t(1,2) this(1) Suc.prems(4) this(2)] obtain u where u: "hammer_reach n H u" "quiet u"
    "phase u = (phase t)(h := Finished)" "\<forall>x. x \<noteq> h \<longrightarrow> iters_left u x = iters_left t x" by blast
  have "phase u = (phase s)(h := Finished)" unfolding u(3) t(4) by simp
  with u(1,2,4) t(3) show ?case by (intro exI [of _ u]) simp
qed

lemma hammer_finishes:
  assumes "finite F" "F \<subseteq> H" "H \<subseteq> {..<8}"
  shows "\<exists>s. hammer_reach (Suc k) H s \<and> quiet s \<and> phase s = (\<lambda>h. if h \<in> H - F then AtAdd else Finished) \<and>
    (\<forall>h\<in>H - F. iters_left s h = Suc k)"
  using assms(1,2)
proof (induction F rule: finite_induct)
  case empty
  have "quiet (hammer_init (Suc k) H)" "phase (hammer_init (Suc k) H) = (\<lambda>h. if h \<in> H - {} then AtAdd else Finished)"
    "\<forall>h\<in>H - {}. iters_left (hammer_init (Suc k) H) h = Suc k"
    by (simp_all add: quiet_def hammer_init_def lock_init_def)
  then show ?case using hammer_reach.init [of "Suc k" H] by blast
next
  case (insert h F)
  then obtain s where s: "hammer_reach (Suc k) H s" "quiet s" "phase s = (\<lambda>h. if h \<in> H - F then AtAdd else Finished)"
    "\<forall>h\<in>H - F. iters_left s h = Suc k" by auto
  have h: "phase s h = AtAdd" "h < 8" "iters_left s h = Suc k" using insert assms(3) s(3,4) by auto
  obtain t where "hammer_reach (Suc k) H t" "quiet t" "phase t = (phase s)(h := Finished)"
    "\<forall>x. x \<noteq> h \<longrightarrow> iters_left t x = iters_left s x"
    using hammer_hart_finishes [OF s(1,2) h] by blast
  then show ?case using s(3,4) by (intro exI [of _ t]) (auto simp: fun_eq_iff)
qed

section \<open>The property\<close>

text \<open>C3: no update is lost: however the harts \<open>0\<close> to \<open>n - 1\<close> interleave their memory accesses, once
  all of them have left the loop both counters hold \<open>50000 * n\<close>, the total the demo announces: the
  lock makes the separate load and store of the second counter as good as the atomic add.\<close>

theorem hammer_totals:
  assumes "hammer_reach ITERS_PER_HART {..<n} s" "\<forall>h. phase s h = Finished"
  shows "atomic_counter s = of_nat ITERS_PER_HART * n \<and> mutex_counter s = of_nat ITERS_PER_HART * n"
proof -
  have i: "hammer_inv ITERS_PER_HART {..<n} s" by (rule hammer_reach_inv [OF assms(1)]) simp
  then have "added ITERS_PER_HART s h = ITERS_PER_HART \<and> stored ITERS_PER_HART s h = ITERS_PER_HART" if "h \<in> {..<n}" for h
    using that assms(2) by (simp add: hammer_inv_def hart_ok_def added_def stored_def)
  then show ?thesis using i by (simp add: hammer_inv_def card_below mult.commute)
qed

lemma hammer_totals_witness:
  "\<exists>s. hammer_reach ITERS_PER_HART {..<4} s \<and> atomic_counter s = 200000 \<and> mutex_counter s = 200000"
proof -
  have "ITERS_PER_HART = Suc 49999" by (simp add: ITERS_PER_HART_def)
  then obtain s where "hammer_reach ITERS_PER_HART {..<4} s" "phase s = (\<lambda>h. if h \<in> {..<4} - {..<4 :: u32} then AtAdd else Finished)"
    using hammer_finishes [of "{..<4}" "{..<4}" 49999] by auto
  with hammer_totals [of 4 s] show ?thesis by (auto simp: ITERS_PER_HART_def)
qed

end
