(* ===== verification/Demos.thy ===== *)
theory Demos
  imports Hda Timer Smp Net
begin

text \<open>
  What the small programs under \<open>src/examples\<close> and the C library hooks add to the drivers they
  are made of.  The picolibc streams of \<open>src/src/picolibc_hooks.c\<close>; the whole of
  \<open>audio-beep\<close>; the handlers and printers of \<open>probe\<close>; the greeting of \<open>smp\<close>, whose concurrency
  torture is the theory \<open>Hammer\<close>; the ARP request and the timer tick of \<open>eth-hello\<close>; the handler of
  \<open>ipi-hello\<close> and the wait for it.  The endless \<open>wfi\<close> loops that
  end the programs are the points where the definitions return.
\<close>

section \<open>C library streams\<close>

text \<open>Plain \<open>char\<close> is unsigned on this target; end of file is never reported.\<close>

definition uart_putc_io :: "env \<Rightarrow> u64 \<Rightarrow> u8 \<Rightarrow> mach \<Rightarrow> (int \<times> mach) option" where
  "uart_putc_io E ub c m = do { m \<leftarrow> uart_putc E ub c m; Some (uint c, m) }"

definition uart_getc_io :: "env \<Rightarrow> u64 \<Rightarrow> mach \<Rightarrow> (int \<times> mach) option" where
  "uart_getc_io E ub m = do {
     (c, m) \<leftarrow> uart_getc E ub m;
     Some (if c = 13 then 10 else uint c, m) }"

section \<open>Discovery\<close>

text \<open>The first register address of a compatible node, with the variable the code presets to 0.\<close>

definition dt_base :: "mem \<Rightarrow> fdt \<Rightarrow> string \<Rightarrow> u64 option" where
  "dt_base M fdt cname = do {
     off \<leftarrow> fdt_find_compatible M fdt (bytes_of cname);
     reg \<leftarrow> fdt_node_reg64 M fdt off 0;
     Some (case reg of Some (at, _) \<Rightarrow> at | None \<Rightarrow> 0) }"

definition dt_timebase :: "mem \<Rightarrow> fdt \<Rightarrow> u32 option" where
  "dt_timebase M fdt = do {
     cpus \<leftarrow> fdt_find_node_named M fdt (bytes_of ''cpus'');
     if cpus = UINT32_MAX then Some 0
     else do {
       hz \<leftarrow> fdt_node_prop_u32 M fdt cpus (bytes_of ''timebase-frequency'');
       Some (case hz of Some v \<Rightarrow> v | None \<Rightarrow> 0) } }"

section \<open>audio-beep\<close>

definition scale :: "(u32 \<times> string) list" where
  "scale = [(262, ''C4''), (294, ''D4''), (330, ''E4''), (349, ''F4''), (392, ''G4''), (440, ''A4''), (494, ''B4''), (523, ''C5'')]"

definition sleep_ms :: "priv \<Rightarrow> env \<Rightarrow> plat \<Rightarrow> u32 \<Rightarrow> mach \<Rightarrow> mach option" where
  "sleep_ms B E P ms m =
     (let (t, m) = time_now E m in time_busy_until B E P (t + ucast ms * (RVVM_TIME_HZ div 1000)) m)"

fun play_scale :: "priv \<Rightarrow> env \<Rightarrow> u64 \<Rightarrow> plat \<Rightarrow> (u32 \<times> string) list \<Rightarrow> hda \<times> mach \<Rightarrow> (hda \<times> mach) option" where
  "play_scale B E ub P [] s = Some s"
| "play_scale B E ub P ((hz, name) # notes) (d, m) = do {
     m \<leftarrow> uart_printf E ub (''  %s (%u Hz)'' @ [CHR 0x0A]) [VStr (bytes_of name), VWord (ucast hz)] m;
     (d, m) \<leftarrow> audio_beep E ub hz (d, m);
     m \<leftarrow> sleep_ms B E P 250 m;
     play_scale B E ub P notes (d, m) }"

text \<open>The drivers are brought up at the addresses of the device tree, when there is one: the
  console, the configuration space and the timer.\<close>

definition beep_discover ::
  "priv \<Rightarrow> env \<Rightarrow> mem \<Rightarrow> u64 \<Rightarrow> u64 \<times> u64 \<times> plat \<times> mach \<Rightarrow> (u64 \<times> u64 \<times> plat \<times> mach) option" where
  "beep_discover B E M fdt_addr = (\<lambda>(ub, ecam, P, m).
     case fdt_init M fdt_addr of None \<Rightarrow> Some (ub, ecam, P, m)
     | Some fdt \<Rightarrow> do {
         u_at \<leftarrow> dt_base M fdt ''ns16550a'';
         p_at \<leftarrow> dt_base M fdt ''pci-host-ecam-generic'';
         c_at \<leftarrow> dt_base M fdt ''sifive,clint0'';
         let (ub, m) = uart_init ub u_at m;
         let ecam = pci_init p_at ecam;
         hz \<leftarrow> dt_timebase M fdt;
         Some (ub, ecam, fst (time_init B c_at (ucast hz) P RVVM_TIME_HZ), m) })"

definition audio_beep_main :: "priv \<Rightarrow> env \<Rightarrow> mem \<Rightarrow> u64 \<Rightarrow> u64 \<Rightarrow> hda \<times> mach \<Rightarrow> (hda \<times> mach) option" where
  "audio_beep_main B E M hartid fdt_addr = (\<lambda>(d, m). do {
     let (ub, m) = uart_init RVVM_UART_BASE 0 m;
     m \<leftarrow> uart_puts E ub (bytes_of ([CHR 0x0A] @ ''=== audio-beep: codec beep widget demo ==='' @ [CHR 0x0A])) m;
     m \<leftarrow> uart_printf E ub (''hart=%u  fdt=%p'' @ [CHR 0x0A]) [VWord hartid, VWord fdt_addr] m;
     (ub, ecam, P, m) \<leftarrow> beep_discover B E M fdt_addr (ub, RVVM_PCI_ECAM_BASE, plat_reset, m);
     (ok, d, m) \<leftarrow> audio_init E ub ecam (d, m);
     if \<not> ok
     then do {
       m \<leftarrow> uart_puts E ub (bytes_of ''audio_init failed '' @ [0xE2, 0x80, 0x94] @ bytes_of ('' start RVVM with -hda_test'' @ [CHR 0x0A])) m;
       Some (d, m) }
     else do {
       m \<leftarrow> uart_puts E ub (bytes_of ([CHR 0x0A] @ ''playing C major scale (250 ms/note):'' @ [CHR 0x0A])) m;
       (d, m) \<leftarrow> play_scale B E ub P scale (d, m);
       (d, m) \<leftarrow> audio_beep E ub 0 (d, m);
       m \<leftarrow> uart_puts E ub (bytes_of (''  silence'' @ [CHR 0x0A])) m;
       m \<leftarrow> sleep_ms B E P 1000 m;
       m \<leftarrow> uart_puts E ub (bytes_of ([CHR 0x0A] @ ''done.'' @ [CHR 0x0A])) m;
       Some (d, m) } })"

section \<open>probe\<close>

definition list_compat :: "env \<Rightarrow> u64 \<Rightarrow> mem \<Rightarrow> fdt \<Rightarrow> string \<Rightarrow> mach \<Rightarrow> mach option" where
  "list_compat E ub M fdt cname m = do {
     off \<leftarrow> fdt_find_compatible M fdt (bytes_of cname);
     if off = UINT32_MAX
     then uart_printf E ub (''  (none)  %s'' @ [CHR 0x0A]) [VStr (bytes_of cname)] m
     else do {
       reg \<leftarrow> fdt_node_reg64 M fdt off 0;
       let (at, sz) = (case reg of Some r \<Rightarrow> r | None \<Rightarrow> (0, 0));
       uart_printf E ub (''  %s @ %p  size=%x'' @ [CHR 0x0A]) [VStr (bytes_of cname), VWord at, VWord sz] m } }"

definition on_key :: "env \<Rightarrow> u64 \<Rightarrow> u8 \<Rightarrow> bool \<Rightarrow> mach \<Rightarrow> mach option" where
  "on_key E ub usage pressed m =
     uart_printf E ub (''  hid: usage=0x%x %s'' @ [CHR 0x0A])
       [VWord (ucast usage), VStr (bytes_of (if pressed then ''DOWN'' else ''up''))] m"

text \<open>The interrupt handler of the console: it empties the receiver and echoes each byte.\<close>

partial_function (option) on_uart_rx :: "env \<Rightarrow> u64 \<Rightarrow> u32 \<Rightarrow> mach \<Rightarrow> mach option" where
  "on_uart_rx E ub source m =
     (let (c, m) = uart_getc_nb E ub m in
      if c \<ge> 0
      then do {
        m \<leftarrow> uart_printf E ub (''[irq #%u] got byte 0x%x ('' @ [CHR 0x27] @ ''%c'' @ [CHR 0x27] @ '')'' @ [CHR 0x0A])
          [VWord (ucast source), VWord (of_int c), VWord (if c \<ge> 0x20 \<and> c < 0x7F then of_int c else 46)] m;
        on_uart_rx E ub source m }
      else Some m)"

section \<open>smp\<close>

definition greet :: "priv \<Rightarrow> env \<Rightarrow> u64 \<Rightarrow> plat \<Rightarrow> u64 \<Rightarrow> u64 \<Rightarrow> mach \<Rightarrow> mach option" where
  "greet B E ub P hartid arg m =
     (let (self, m) = smp_this_hart B E P m in
      uart_printf E ub (''  [hart %u] hello! arg=%p, mhartid via CSR = %u'' @ [CHR 0x0A])
        [VWord hartid, VWord arg, VWord (ucast self)] m)"

section \<open>eth-hello\<close>

text \<open>The frame, and its length.\<close>

definition be32_bytes :: "u32 \<Rightarrow> u8 list" where
  "be32_bytes v = map (\<lambda>k. ucast (drop_bit k v AND 0xFF)) [24, 16, 8, 0]"

definition build_arp_request :: "u8 list \<Rightarrow> u32 \<Rightarrow> u32 \<Rightarrow> u8 list \<times> nat" where
  "build_arp_request hw my_ip target_ip =
     (let frame = replicate 6 0xFF @ hw @ [0x08, 0x06];
          body = [0x00, 0x01] @ [0x08, 0x00] @ [6] @ [4] @ [0x00, 0x01] @ hw @ be32_bytes my_ip @ replicate 6 0 @
            be32_bytes target_ip
      in (frame @ body, 14 + 28))"

text \<open>The length returned is that of the frame, which carries the sender's address twice and both
  protocol addresses most significant byte first.\<close>

lemma build_arp_request_frame:
  assumes "length hw = 6"
  shows "length (fst (build_arp_request hw a b)) = snd (build_arp_request hw a b)"
    and "take 6 (drop 6 (fst (build_arp_request hw a b))) = hw" "take 6 (drop 22 (fst (build_arp_request hw a b))) = hw"
    and "take 4 (drop 28 (fst (build_arp_request hw a b))) = be32_bytes a" "drop 38 (fst (build_arp_request hw a b)) = be32_bytes b"
  using assms by (simp_all add: build_arp_request_def be32_bytes_def)

section \<open>Interrupt handlers\<close>

text \<open>The timer tick of \<open>eth-hello\<close> arms the next frame deadline.\<close>

definition on_tick :: "priv \<Rightarrow> env \<Rightarrow> plat \<Rightarrow> u64 \<Rightarrow> mach \<Rightarrow> mach" where
  "on_tick B E P time_hz_v m =
     (let (t, m) = time_now E m in plat_timer_set_deadline B E P (t + time_ticks_per_frame time_hz_v) m)"

text \<open>The software interrupt handler of \<open>ipi-hello\<close>, and the wait for it: \<open>obs i\<close> is the counter as the
  \<open>i\<close>-th poll reads it, and at most a million polls are made.\<close>

definition on_ipi :: "env \<Rightarrow> u64 \<Rightarrow> u64 \<Rightarrow> u32 \<times> mach \<Rightarrow> (u32 \<times> mach) option" where
  "on_ipi E ub ctx = (\<lambda>(ipi_count, m). do {
     let ipi_count = ipi_count + 1;
     m \<leftarrow> uart_printf E ub (''  [ipi handler] fired #%u, ctx=%p'' @ [CHR 0x0A]) [VWord (ucast ipi_count), VWord ctx] m;
     Some (ipi_count, m) })"

fun ping_poll :: "(nat \<Rightarrow> u32) \<Rightarrow> u32 \<Rightarrow> nat \<Rightarrow> nat \<Rightarrow> bool" where
  "ping_poll obs expect i 0 = False"
| "ping_poll obs expect i (Suc n) = (if obs i \<ge> expect then True else ping_poll obs expect (Suc i) n)"

definition ping_self :: "priv \<Rightarrow> env \<Rightarrow> plat \<Rightarrow> (nat \<Rightarrow> u32) \<Rightarrow> u32 \<Rightarrow> mach \<Rightarrow> bool \<times> mach" where
  "ping_self B E P obs expect m =
     (let (self, m) = plat_this_hart B E P m;
          m = plat_ipi_send B E P self m
      in (ping_poll obs expect 0 1000000, m))"

text \<open>The wait sees the handler exactly when one of its polls does.\<close>

lemma ping_poll_iff: "ping_poll obs expect i n \<longleftrightarrow> (\<exists>k<n. obs (i + k) \<ge> expect)"
proof (induction n arbitrary: i)
  case (Suc n)
  have "(\<exists>k<Suc n. obs (i + k) \<ge> expect) \<longleftrightarrow> obs i \<ge> expect \<or> (\<exists>k<n. obs (Suc i + k) \<ge> expect)"
    by (auto simp: less_Suc_eq_0_disj)
  then show ?case using Suc.IH [of "Suc i"] by simp
qed simp

end
