(* ===== verification/AudioDemos.thy ===== *)
theory AudioDemos
  imports Audio Demos
begin

text \<open>
  The two streaming programs: \<open>examples/audio-edge\<close>, which drives the edge-timed speaker from the
  clock of a fictional emulator, and \<open>examples/audio-pcm\<close>, which feeds the ring of a stream just
  behind the play position.  Each is the composition of the device tree walker, the timer, the
  console and the audio components, up to the \<open>wfi\<close> loop that ends it.
\<close>

section \<open>audio-edge\<close>

definition EMULATOR_HZ :: u64 where "EMULATOR_HZ = 3500000"
definition FRAME_HZ :: u64 where "FRAME_HZ = 50"
definition CYCLES_PER_FRAME :: u64 where "CYCLES_PER_FRAME = EMULATOR_HZ div FRAME_HZ"
definition TICKS_PER_FRAME :: u64 where "TICKS_PER_FRAME = RVVM_TIME_HZ div FRAME_HZ"
definition LEVEL_HIGH :: i16 where "LEVEL_HIGH = 0x4000"
definition LEVEL_LOW :: i16 where "LEVEL_LOW = - 0x4000"

text \<open>The toggles inside one frame: the next one, the level and the speaker.\<close>

partial_function (option) toggles :: "u64 \<Rightarrow> u64 \<Rightarrow> u64 \<times> i16 \<times> audio_edge \<Rightarrow> (u64 \<times> i16 \<times> audio_edge) option" where
  "toggles cycles_per_half frame_end s = (case s of (next_toggle, level, e) \<Rightarrow>
     if next_toggle < frame_end
     then (let level = (if level = LEVEL_HIGH then LEVEL_LOW else LEVEL_HIGH);
               e = audio_edge_set level next_toggle e
           in toggles cycles_per_half frame_end (next_toggle + cycles_per_half, level, e))
     else Some (next_toggle, level, e))"

text \<open>\<open>n\<close> more frames, each paced by the clock.\<close>

fun tone_frames ::
  "priv \<Rightarrow> env \<Rightarrow> u64 \<Rightarrow> plat \<Rightarrow> hda \<Rightarrow> u64 \<Rightarrow> nat \<Rightarrow> u64 \<Rightarrow> u64 \<times> u64 \<times> i16 \<times> audio_edge \<times> edge_drv \<times> mach \<Rightarrow>
   (u64 \<times> u64 \<times> i16 \<times> audio_edge \<times> edge_drv \<times> mach) option" where
  "tone_frames B E ub P d half 0 deadline s = Some s"
| "tone_frames B E ub P d half (Suc n) deadline (cycle, next_toggle, level, e, D, m) =
     (let frame_end = cycle + CYCLES_PER_FRAME in do {
        (next_toggle, level, e) \<leftarrow>
          (if half \<noteq> 0 then toggles half frame_end (next_toggle, level, e) else Some (next_toggle, level, e));
        (e, D, m) \<leftarrow> audio_edge_advance B E ub P d frame_end (e, D, m);
        m \<leftarrow> time_busy_until B E P deadline m;
        tone_frames B E ub P d half n (deadline + TICKS_PER_FRAME) (frame_end, next_toggle, level, e, D, m) })"

definition run_tone ::
  "priv \<Rightarrow> env \<Rightarrow> u64 \<Rightarrow> plat \<Rightarrow> hda \<Rightarrow> nat \<Rightarrow> u32 \<Rightarrow> u64 \<times> audio_edge \<times> edge_drv \<times> mach \<Rightarrow>
   (u64 \<times> audio_edge \<times> edge_drv \<times> mach) option" where
  "run_tone B E ub P d duration_seconds tone_hz = (\<lambda>(cycle, e, D, m).
     let half = (if tone_hz \<noteq> 0 then EMULATOR_HZ div (2 * ucast tone_hz) else 0);
         n_frames = duration_seconds * unat FRAME_HZ;
         (t, m) = time_now E m
     in do {
       (cycle, _, _, e, D, m) \<leftarrow> tone_frames B E ub P d half n_frames (t + TICKS_PER_FRAME)
         (cycle, cycle + half, LEVEL_LOW, e, D, m);
       Some (cycle, e, D, m) })"

definition edge_tones :: "(string \<times> u32) list" where
  "edge_tones = [(''  1000 Hz (1 s)'', 1000), (''   440 Hz (1 s)'', 440), (''   220 Hz (1 s)'', 220), (''   silence (1 s)'', 0)]"

fun play_tones ::
  "priv \<Rightarrow> env \<Rightarrow> u64 \<Rightarrow> plat \<Rightarrow> hda \<Rightarrow> (string \<times> u32) list \<Rightarrow> u64 \<times> audio_edge \<times> edge_drv \<times> mach \<Rightarrow>
   (u64 \<times> audio_edge \<times> edge_drv \<times> mach) option" where
  "play_tones B E ub P d [] s = Some s"
| "play_tones B E ub P d ((name, hz) # tones) (cycle, e, D, m) = do {
     m \<leftarrow> uart_puts E ub (bytes_of (name @ [CHR 0x0A])) m;
     s \<leftarrow> run_tone B E ub P d 1 hz (cycle, e, D, m);
     play_tones B E ub P d tones s }"

fun play_rounds ::
  "priv \<Rightarrow> env \<Rightarrow> u64 \<Rightarrow> plat \<Rightarrow> hda \<Rightarrow> nat list \<Rightarrow> u64 \<times> audio_edge \<times> edge_drv \<times> mach \<Rightarrow>
   (u64 \<times> audio_edge \<times> edge_drv \<times> mach) option" where
  "play_rounds B E ub P d [] s = Some s"
| "play_rounds B E ub P d (k # ks) (cycle, e, D, m) = do {
     m \<leftarrow> uart_printf E ub (''[round %d]'' @ [CHR 0x0A]) [VWord (of_nat (k + 1))] m;
     s \<leftarrow> play_tones B E ub P d edge_tones (cycle, e, D, m);
     play_rounds B E ub P d ks s }"

text \<open>\<open>bdl\<close> is the address of the driver's buffer list.  The console and timer are found as in
  \<open>audio-beep\<close>.\<close>

definition audio_edge_main ::
  "priv \<Rightarrow> env \<Rightarrow> mem \<Rightarrow> u64 \<Rightarrow> u64 \<Rightarrow> u64 \<Rightarrow> audio_edge \<times> edge_drv \<times> hda \<times> mach \<Rightarrow>
   (audio_edge \<times> edge_drv \<times> hda \<times> mach) option" where
  "audio_edge_main B E M bdl hartid fdt_addr = (\<lambda>(e, D, d, m). do {
     let (ub, m) = uart_init RVVM_UART_BASE 0 m;
     m \<leftarrow> uart_puts E ub (bytes_of ([CHR 0x0A] @ ''=== audio-edge: emulator-cycle-driven 1-bit speaker ==='' @ [CHR 0x0A])) m;
     m \<leftarrow> uart_printf E ub (''hart=%u  fdt=%p'' @ [CHR 0x0A]) [VWord hartid, VWord fdt_addr] m;
     (ub, ecam, P, m) \<leftarrow> beep_discover B E M fdt_addr (ub, RVVM_PCI_ECAM_BASE, plat_reset, m);
     (ok, d, m) \<leftarrow> audio_init E ub ecam (d, m);
     if \<not> ok
     then do {
       m \<leftarrow> uart_puts E ub (bytes_of ''audio_init failed '' @ [0xE2, 0x80, 0x94] @ bytes_of ('' start RVVM with -hda_test'' @ [CHR 0x0A])) m;
       Some (e, D, d, m) }
     else do {
       (ok, e, D, d, m) \<leftarrow> audio_edge_open E ub bdl EMULATOR_HZ (e, D, d, m);
       if \<not> ok
       then do {
         m \<leftarrow> uart_puts E ub (bytes_of (''audio_edge_open failed'' @ [CHR 0x0A])) m;
         Some (e, D, d, m) }
       else do {
         m \<leftarrow> uart_puts E ub (bytes_of ([CHR 0x0A] @ ''playing:'' @ [CHR 0x0A])) m;
         (_, e, D, m) \<leftarrow> play_rounds B E ub P d [0..<3] (0, e, D, m);
         m \<leftarrow> (if dropped_events e \<noteq> 0
           then uart_printf E ub (''warning: dropped %u events to overflow'' @ [CHR 0x0A]) [VWord (ucast (dropped_events e))] m
           else Some m);
         m \<leftarrow> uart_puts E ub (bytes_of ([CHR 0x0A] @ ''done.'' @ [CHR 0x0A])) m;
         let (e, D, m) = audio_edge_close d (e, D, m);
         Some (e, D, d, m) } } })"

section \<open>audio-pcm\<close>

definition RING_FRAMES :: u32 where "RING_FRAMES = 4800"
definition BDL_ENTRIES :: u32 where "BDL_ENTRIES = 5"
definition SAMPLE_RATE :: u32 where "SAMPLE_RATE = 48000"

definition gen_480 :: "u32 \<Rightarrow> i16" where
  "gen_480 p = (if (p div 50) AND 1 \<noteq> 0 then - 0x4000 else 0x4000)"
definition gen_240 :: "u32 \<Rightarrow> i16" where
  "gen_240 p = (if (p div 100) AND 1 \<noteq> 0 then - 0x4000 else 0x4000)"
definition gen_silence :: "u32 \<Rightarrow> i16" where
  "gen_silence p = 0"

text \<open>The inner loop of one pass: \<open>n\<close> frames from slot \<open>i\<close> of the pass on.\<close>

fun feed_fill :: "audio_pcm \<Rightarrow> (u32 \<Rightarrow> i16) \<Rightarrow> nat \<Rightarrow> u32 \<Rightarrow> i16 list \<times> u32 \<Rightarrow> i16 list \<times> u32" where
  "feed_fill p gen 0 i s = s"
| "feed_fill p gen (Suc n) i (ring, phase) =
     (let idx = (wp_frames p + i) mod ring_frames p
      in feed_fill p gen n (i + 1) (ring[unat idx := gen phase], phase + 1))"

partial_function (option) feed_until ::
  "priv \<Rightarrow> env \<Rightarrow> plat \<Rightarrow> hda \<Rightarrow> u64 \<Rightarrow> (u32 \<Rightarrow> i16) \<Rightarrow> i16 list \<times> u32 \<times> audio_pcm \<times> mach \<Rightarrow>
   (i16 list \<times> u32 \<times> audio_pcm \<times> mach) option" where
  "feed_until B E P d deadline gen s = (case s of (ring, phase, p, m) \<Rightarrow>
     let (t, m) = time_now E m in
     if t < deadline
     then (let (free, m) = audio_pcm_writable E d p m in
       if free = 0
       then do {
         let (t, m) = time_now E m;
         m \<leftarrow> time_busy_until B E P (t + RVVM_TIME_HZ div 1000) m;
         feed_until B E P d deadline gen (ring, phase, p, m) }
       else
         (let free = (if free > 512 then 512 else free);
              (ring, phase) = feed_fill p gen (unat free) 0 (ring, phase);
              p = audio_pcm_advance free p
          in feed_until B E P d deadline gen (ring, phase, p, m)))
     else Some (ring, phase, p, m))"

text \<open>One segment: the announcement, and the tone until \<open>secs\<close> seconds from now.\<close>

definition feed_segment ::
  "priv \<Rightarrow> env \<Rightarrow> u64 \<Rightarrow> plat \<Rightarrow> hda \<Rightarrow> string \<Rightarrow> u64 \<Rightarrow> (u32 \<Rightarrow> i16) \<Rightarrow> u32 \<Rightarrow> i16 list \<times> audio_pcm \<times> mach \<Rightarrow>
   (i16 list \<times> audio_pcm \<times> mach) option" where
  "feed_segment B E ub P d name secs gen phase = (\<lambda>(ring, p, m). do {
     m \<leftarrow> uart_puts E ub (bytes_of (name @ [CHR 0x0A])) m;
     let (t, m) = time_now E m;
     (ring, _, p, m) \<leftarrow> feed_until B E P d (t + secs * RVVM_TIME_HZ) gen (ring, phase, p, m);
     Some (ring, p, m) })"

fun feed_rounds ::
  "priv \<Rightarrow> env \<Rightarrow> u64 \<Rightarrow> plat \<Rightarrow> hda \<Rightarrow> nat list \<Rightarrow> i16 list \<times> audio_pcm \<times> mach \<Rightarrow> (i16 list \<times> audio_pcm \<times> mach) option" where
  "feed_rounds B E ub P d [] s = Some s"
| "feed_rounds B E ub P d (k # ks) (ring, p, m) = do {
     m \<leftarrow> uart_printf E ub (''[round %d]'' @ [CHR 0x0A]) [VWord (of_nat (k + 1))] m;
     s \<leftarrow> feed_segment B E ub P d ''  480 Hz square (4 s)'' 4 gen_480 (if k = 0 then wp_frames p else 0) (ring, p, m);
     s \<leftarrow> feed_segment B E ub P d ''  240 Hz square (4 s)'' 4 gen_240 0 s;
     s \<leftarrow> feed_segment B E ub P d ''  silence (2 s)'' 2 gen_silence 0 s;
     feed_rounds B E ub P d ks s }"

text \<open>The timer is not brought up by this program.\<close>

definition pcm_discover :: "env \<Rightarrow> mem \<Rightarrow> u64 \<Rightarrow> u64 \<times> u64 \<times> mach \<Rightarrow> (u64 \<times> u64 \<times> mach) option" where
  "pcm_discover E M fdt_addr = (\<lambda>(ub, ecam, m).
     case fdt_init M fdt_addr of None \<Rightarrow> Some (ub, ecam, m)
     | Some fdt \<Rightarrow> do {
         u_at \<leftarrow> dt_base M fdt ''ns16550a'';
         p_at \<leftarrow> dt_base M fdt ''pci-host-ecam-generic'';
         let (ub, m) = uart_init ub u_at m;
         Some (ub, pci_init p_at ecam, m) })"

text \<open>\<open>ring_at\<close> is the address of the static ring, \<open>p\<close> the uninitialised stream on the stack.\<close>

definition audio_pcm_main ::
  "priv \<Rightarrow> env \<Rightarrow> mem \<Rightarrow> u64 \<Rightarrow> u64 \<Rightarrow> u64 \<Rightarrow> u64 \<Rightarrow> audio_pcm \<times> i16 list \<times> hda \<times> mach \<Rightarrow>
   (audio_pcm \<times> i16 list \<times> hda \<times> mach) option" where
  "audio_pcm_main B E M bdl ring_at hartid fdt_addr = (\<lambda>(p, ring, d, m). do {
     let (ub, m) = uart_init RVVM_UART_BASE 0 m;
     m \<leftarrow> uart_puts E ub (bytes_of ([CHR 0x0A] @ ''=== audio-pcm: HDA PCM streaming demo ==='' @ [CHR 0x0A])) m;
     m \<leftarrow> uart_printf E ub (''hart=%u  fdt=%p'' @ [CHR 0x0A]) [VWord hartid, VWord fdt_addr] m;
     (ub, ecam, m) \<leftarrow> pcm_discover E M fdt_addr (ub, RVVM_PCI_ECAM_BASE, m);
     (ok, d, m) \<leftarrow> audio_init E ub ecam (d, m);
     if \<not> ok
     then do {
       m \<leftarrow> uart_puts E ub (bytes_of ''audio_init failed '' @ [0xE2, 0x80, 0x94] @ bytes_of ('' start RVVM with -hda_test'' @ [CHR 0x0A])) m;
       Some (p, ring, d, m) }
     else do {
       let ring = map (\<lambda>i. gen_480 (of_nat i)) [0..<unat RING_FRAMES];
       (ok, p, d, m) \<leftarrow> audio_pcm_open E ub bdl ring_at RING_FRAMES BDL_ENTRIES SAMPLE_RATE 1 (p, d, m);
       if \<not> ok
       then do {
         m \<leftarrow> uart_puts E ub (bytes_of (''audio_pcm_open failed'' @ [CHR 0x0A])) m;
         Some (p, ring, d, m) }
       else do {
         let p = audio_pcm_advance (RING_FRAMES - 1) p;
         m \<leftarrow> uart_puts E ub (bytes_of ([CHR 0x0A] @ ''playing (continuous-feed pattern, no in-place overwrite):'' @ [CHR 0x0A])) m;
         (ring, p, m) \<leftarrow> feed_rounds B E ub plat_reset d [0..<3] (ring, p, m);
         m \<leftarrow> uart_puts E ub (bytes_of ([CHR 0x0A] @ ''stopping stream.'' @ [CHR 0x0A])) m;
         let (p, m) = audio_pcm_close d (p, m);
         m \<leftarrow> uart_puts E ub (bytes_of (''done. spinning forever.'' @ [CHR 0x0A])) m;
         Some (p, ring, d, m) } } })"

section \<open>The toggles end\<close>

text \<open>As long as the emulated clock is a half period away from wrapping, the toggles of a frame come
  to an end at the first one behind it.\<close>

lemma toggles_end:
  assumes "half \<noteq> 0" "unat frame_end + unat half < 2 ^ 64" "next_toggle < frame_end + half"
  shows "\<exists>n l e'. toggles half frame_end (next_toggle, level, e) = Some (n, l, e') \<and> frame_end \<le> n \<and> n < frame_end + half"
  using assms(3)
proof (induction "unat frame_end - unat next_toggle" arbitrary: next_toggle level e rule: less_induct)
  case less
  show ?case
  proof (cases "next_toggle < frame_end")
    case False
    then show ?thesis using less.prems by (subst toggles.simps) auto
  next
    case True
    have n: "unat (next_toggle + half) = unat next_toggle + unat half"
      using True assms(2) by (intro unat_add_no_wrap) (simp add: word_less_nat_alt)
    have "unat (frame_end + half) = unat frame_end + unat half" using assms(2) by (intro unat_add_no_wrap) simp
    then have "next_toggle + half < frame_end + half" using True n by (simp add: word_less_nat_alt)
    moreover have "unat frame_end - unat (next_toggle + half) < unat frame_end - unat next_toggle"
      using True n unat_gt_0 [of half] assms(1) unfolding word_less_nat_alt by linarith
    ultimately show ?thesis using less.hyps True by (subst toggles.simps) (simp add: Let_def)
  qed
qed

section \<open>What one pass writes\<close>

text \<open>A pass stores the tone from the write position on and leaves every other slot alone.\<close>

lemma feed_fill_slots:
  assumes "wp_frames p < ring_frames p" "unat (ring_frames p) \<le> 2 ^ 31" "unat i + n \<le> unat (ring_frames p)"
    and "length ring = unat (ring_frames p)"
  defines "slot \<equiv> \<lambda>j. (unat (wp_frames p) + unat i + j) mod unat (ring_frames p)"
  shows "\<forall>x. x \<notin> slot ` {..<n} \<longrightarrow> fst (feed_fill p gen n i (ring, ph)) ! x = ring ! x"
    and "\<forall>j<n. fst (feed_fill p gen n i (ring, ph)) ! slot j = gen (ph + of_nat j)"
  unfolding slot_def using assms(3,4)
proof (induction n arbitrary: i ring ph)
  case 0
  { case 1 then show ?case by simp }
  { case 2 then show ?case by simp }
next
  case (Suc n)
  let ?N = "unat (ring_frames p)"
  let ?s = "\<lambda>i j. (unat (wp_frames p) + unat (i :: u32) + j) mod ?N"
  have w: "unat (wp_frames p) < ?N" using assms(1) by (simp add: word_less_nat_alt)
  have i: "unat (i + 1) = unat i + 1" if "unat i + Suc n \<le> ?N" for i :: u32
    using that assms(2) by (subst unat_add_no_wrap) simp_all
  have idx: "unat ((wp_frames p + i) mod ring_frames p) = ?s i 0" if "unat i + Suc n \<le> ?N" for i
    using that assms(2) w by (subst unat_add_mod) simp_all
  have shift: "?s (i + 1) j = ?s i (Suc j)" if "unat i + Suc n \<le> ?N" for i j using i [OF that] by simp
  { case 1
    have le: "unat (i + 1) + n \<le> ?N" using i [OF 1(1)] 1(1) by simp
    have out: "x \<noteq> ?s i 0 \<and> x \<notin> ?s (i + 1) ` {..<n}" if "x \<notin> ?s i ` {..<Suc n}" for x
      using that unfolding lessThan_Suc_eq_insert_0 image_insert image_image shift [OF 1(1)] by blast
    have l: "length (ring[?s i 0 := gen ph]) = ?N" using 1 by simp
    show ?case
    proof (intro allI impI)
      fix x assume "x \<notin> ?s i ` {..<Suc n}"
      with out have x: "x \<noteq> ?s i 0" "x \<notin> ?s (i + 1) ` {..<n}" by blast+
      show "fst (feed_fill p gen (Suc n) i (ring, ph)) ! x = ring ! x"
        using Suc.IH(1) [OF le l, of "ph + 1"] x idx [OF 1(1)] by (simp add: Let_def)
    qed
  }
  { case 2
    have le: "unat (i + 1) + n \<le> ?N" using i [OF 2(1)] 2(1) by simp
    have l: "length (ring[?s i 0 := gen ph]) = ?N" using 2 by simp
    have first: "?s i 0 \<notin> ?s (i + 1) ` {..<n}"
    proof
      assume "?s i 0 \<in> ?s (i + 1) ` {..<n}"
      then obtain j where "j < n" "?s i 0 = ?s i (Suc j)" using shift [OF 2(1)] by auto
      with 2(1) show False using mod_shift_inj [of 0 ?N "Suc j" "unat (wp_frames p) + unat i"] by simp
    qed
    have "fst (feed_fill p gen (Suc n) i (ring, ph)) ! ?s i j = gen (ph + of_nat j)" if "j < Suc n" for j
    proof (cases j)
      case 0
      have "?s i 0 < ?N" using w by simp
      with 0 show ?thesis using Suc.IH(1) [OF le l, of "ph + 1"] first idx [OF 2(1)] 2(2) by (simp add: Let_def)
    next
      case (Suc k)
      then show ?thesis using Suc.IH(2) [OF le l, of "ph + 1"] shift [OF 2(1), of k] idx [OF 2(1)] that
        by (auto simp: Let_def add.assoc)
    qed
    then show ?case by blast
  }
qed

text \<open>So a pass that fills no more than the writable frames overwrites nothing still to be played:
  what the program's description promises.\<close>

lemma feed_pass_keeps_in_flight:
  assumes "running p" "wp_frames p < ring_frames p" "unat (ring_frames p) \<le> 2 ^ 31" "length ring = unat (ring_frames p)"
    and "n \<le> unat (fst (audio_pcm_writable E d p m))"
    and "x \<in> in_flight (unat (ring_frames p)) (unat (fst (audio_pcm_position E d p m))) (unat (wp_frames p))"
  shows "fst (feed_fill p gen n 0 (ring, ph)) ! x = ring ! x"
proof -
  let ?N = "unat (ring_frames p)"
  note c = pcm_writable_count [OF assms(1,3,2), of E d m]
  have w: "unat (wp_frames p) < ?N" using assms(2) by (simp add: word_less_nat_alt)
  have q: "(unat (wp_frames p) + ?N - unat (fst (audio_pcm_position E d p m))) mod ?N + n < ?N"
    using c(2) assms(5) w mod_less_divisor [of ?N "unat (wp_frames p) + ?N - unat (fst (audio_pcm_position E d p m))"]
    by linarith
  have "x \<notin> (\<lambda>j. (unat (wp_frames p) + unat (0 :: u32) + j) mod ?N) ` {..<n}"
    using in_flight_extend(1) [OF c(1) w refl q] assms(6) by auto
  then show ?thesis using feed_fill_slots(1) [OF assms(2,3), of 0 n ring gen ph] q assms(4) by simp
qed

end
