(* ===== verification/ProbeS.thy ===== *)
theory ProbeS
  imports Demos FwCfg Gfx
begin

text \<open>
  The S-mode probe \<open>examples/probe-s\<close>, section by section: the device list, the measured frame
  waits, the configuration port's directory, the two flash banks, the test picture and the walk over
  the whole device tree.  Each section is a definition over the state it changes.  The keyboard
  section is left out: its callback prints, and the callback of \<open>Hid\<close> is a function on the caller's
  context only.
\<close>

section \<open>Handlers and power\<close>

definition probe_on_key :: "env \<Rightarrow> u64 \<Rightarrow> u8 \<Rightarrow> bool \<Rightarrow> mach \<Rightarrow> mach option" where
  "probe_on_key E ub u pressed m =
     uart_printf E ub (''  hid: usage=0x%x %s'' @ [CHR 0x0A])
       [VWord (ucast u), VStr (bytes_of (if pressed then ''DOWN'' else ''up''))] m"

definition SBI_EID_SRST :: u64 where "SBI_EID_SRST = 0x53525354"

definition sbi_shutdown :: "mach \<Rightarrow> mach" where
  "sbi_shutdown m = emit (Ecall SBI_EID_SRST 0 [0, 0]) m"

section \<open>Devices and time\<close>

definition want :: "string list" where
  "want = [''ns16550a'', ''sifive,plic-1.0.0'', ''sifive,clint0'', ''google,goldfish-rtc'', ''syscon'']"

fun list_devices :: "env \<Rightarrow> u64 \<Rightarrow> mem \<Rightarrow> fdt \<Rightarrow> string list \<Rightarrow> mach \<Rightarrow> mach option" where
  "list_devices E ub M fdt [] m = Some m"
| "list_devices E ub M fdt (p # ps) m = do { m \<leftarrow> list_compat E ub M fdt p m; list_devices E ub M fdt ps m }"

text \<open>One measured wait: the ticks slept beyond a frame.\<close>

definition frame_overhead :: "env \<Rightarrow> plat \<Rightarrow> u64 \<Rightarrow> mach \<Rightarrow> (u64 \<times> mach) option" where
  "frame_overhead E P hz m =
     (let (t0, m) = time_now E m in do {
        m \<leftarrow> time_busy_until SMode E P (t0 + time_ticks_per_frame hz) m;
        let (t1, m) = time_now E m;
        Some ((t1 - t0) - time_ticks_per_frame hz, m) })"

fun overhead_loop :: "env \<Rightarrow> plat \<Rightarrow> u64 \<Rightarrow> nat \<Rightarrow> u64 \<Rightarrow> mach \<Rightarrow> (u64 \<times> mach) option" where
  "overhead_loop E P hz 0 acc m = Some (acc, m)"
| "overhead_loop E P hz (Suc n) acc m = do {
     (v, m) \<leftarrow> frame_overhead E P hz m;
     overhead_loop E P hz n (acc + v) m }"

definition probe_time :: "env \<Rightarrow> u64 \<Rightarrow> mem \<Rightarrow> fdt \<Rightarrow> plat \<times> u64 \<times> mach \<Rightarrow> (plat \<times> u64 \<times> mach) option" where
  "probe_time E ub M fdt = (\<lambda>(P, time_hz_v, m). do {
     hz \<leftarrow> dt_timebase M fdt;
     let (P, time_hz_v) = time_init SMode 0 (ucast hz) P time_hz_v;
     let (t, m) = time_now E m;
     m \<leftarrow> uart_printf E ub ([CHR 0x0A] @ ''time: %u Hz; time_now() = %x'' @ [CHR 0x0A]) [VWord (time_hz time_hz_v), VWord t] m;
     m \<leftarrow> uart_puts E ub (bytes_of (''time: sleeping one frame...'' @ [CHR 0x0A])) m;
     let (before, m) = time_now E m;
     m \<leftarrow> time_busy_until SMode E P (before + time_ticks_per_frame time_hz_v) m;
     let (after, m) = time_now E m;
     m \<leftarrow> uart_printf E ub (''time: woke after %u ticks (target %u, overhead %u)'' @ [CHR 0x0A])
       [VWord (after - before), VWord (time_ticks_per_frame time_hz_v),
        VWord ((after - before) - time_ticks_per_frame time_hz_v)] m;
     (acc, m) \<leftarrow> overhead_loop E P time_hz_v 50 0 m;
     m \<leftarrow> uart_printf E ub (''time: avg overhead over %u frames = %u ticks (%u us)'' @ [CHR 0x0A])
       [VWord 50, VWord (acc div 50), VWord (acc div 50 div 10)] m;
     Some (P, time_hz_v, m) })"

section \<open>The configuration port\<close>

definition FW_CFG_ID :: u16 where "FW_CFG_ID = 0x0001"
definition FW_CFG_NB_CPUS :: u16 where "FW_CFG_NB_CPUS = 0x0005"

text \<open>The directory, entry by entry as it streams in.  A name without terminator would be printed
  past its field; the list ends there.\<close>

fun probe_files :: "env \<Rightarrow> u64 \<Rightarrow> fw_cfg \<Rightarrow> nat \<Rightarrow> mach \<Rightarrow> mach option" where
  "probe_files E ub d 0 m = Some m"
| "probe_files E ub d (Suc n) m =
     (let (e, m) = fw_cfg_read E d 64 m;
          sz = be32_of (e ! 0) (e ! 1) (e ! 2) (e ! 3);
          sel = be16_of (e ! 4) (e ! 5)
      in do {
        m \<leftarrow> uart_printf E ub (''  [sel=%x size=%u]  %s'' @ [CHR 0x0A])
          [VWord (ucast sel), VWord (ucast sz), VStr (f_name (file_of_bytes e))] m;
        probe_files E ub d n m })"

definition probe_fw_cfg :: "env \<Rightarrow> u64 \<Rightarrow> mem \<Rightarrow> fdt \<Rightarrow> fw_cfg \<times> mach \<Rightarrow> (fw_cfg \<times> mach) option" where
  "probe_fw_cfg E ub M fdt = (\<lambda>(d, m). do {
     (ok, d, m) \<leftarrow> fw_cfg_init_fdt E M fdt (d, m);
     if ok
     then do {
       m \<leftarrow> uart_puts E ub (bytes_of ([CHR 0x0A] @ ''fw-cfg: '')) m;
       let m = fw_cfg_select d FW_CFG_SIGNATURE m;
       let (sig, m) = fw_cfg_read E d 4 m;
       m \<leftarrow> uart_printf E ub (''signature='' @ [CHR 0x27] @ ''%s'' @ [CHR 0x27] @ '' '') [VStr (sig @ [0])] m;
       let m = fw_cfg_select d FW_CFG_ID m;
       let (b, m) = fw_cfg_read E d 4 m;
       m \<leftarrow> uart_printf E ub ''id=%x '' [VWord (ucast (be32_of (b ! 3) (b ! 2) (b ! 1) (b ! 0)))] m;
       let m = fw_cfg_select d FW_CFG_NB_CPUS m;
       let (b, m) = fw_cfg_read E d 2 m;
       m \<leftarrow> uart_printf E ub (''nb_cpus=%u'' @ [CHR 0x0A]) [VWord (ucast (be16_of (b ! 1) (b ! 0)))] m;
       let m = fw_cfg_select d FW_CFG_FILE_DIR m;
       let (cb, m) = fw_cfg_read E d 4 m;
       let count = be32_of (cb ! 0) (cb ! 1) (cb ! 2) (cb ! 3);
       m \<leftarrow> uart_printf E ub (''fw-cfg: %u file(s):'' @ [CHR 0x0A]) [VWord (ucast count)] m;
       m \<leftarrow> probe_files E ub d (unat count) m;
       Some (d, m) }
     else do {
       m \<leftarrow> uart_puts E ub (bytes_of ([CHR 0x0A] @ ''fw-cfg: not present (RVVM or non-QEMU host)'' @ [CHR 0x0A])) m;
       Some (d, m) } })"

section \<open>The flash\<close>

fun print_hex_bytes :: "env \<Rightarrow> u64 \<Rightarrow> u8 list \<Rightarrow> mach \<Rightarrow> mach option" where
  "print_hex_bytes E ub [] m = Some m"
| "print_hex_bytes E ub (b # bs) m = do {
     m \<leftarrow> uart_printf E ub ''%x '' [VWord (ucast b)] m;
     print_hex_bytes E ub bs m }"

text \<open>\<open>flash0\<close> is the uninitialised object on the stack and \<open>head0\<close>, \<open>head1\<close> the sixteen bytes of the
  two stack buffers, which a shorter read leaves in place.\<close>

definition probe_flash :: "env \<Rightarrow> u64 \<Rightarrow> mem \<Rightarrow> fdt \<Rightarrow> cfi \<Rightarrow> u8 list \<Rightarrow> u8 list \<Rightarrow> mach \<Rightarrow> mach option" where
  "probe_flash E ub M fdt flash0 head0 head1 m = do {
     (ok, f, m) \<leftarrow> cfi_init_fdt E M fdt (flash0, m);
     m \<leftarrow> (if ok \<and> cfi_ok f
       then do {
         m \<leftarrow> uart_printf E ub (''cfi-flash: %u MiB, cmdset=%x at %p (bank-width=%u)'' @ [CHR 0x0A])
           [VWord (ucast (drop_bit 20 (size_bytes f))), VWord (ucast (cmdset f)), VWord (cfi_base f), VWord (ucast (bank_width f))] m;
         let (_, bs, m) = cfi_read E f 0 16 m;
         m \<leftarrow> uart_puts E ub (bytes_of ''cfi-flash: first 16 bytes: '') m;
         m \<leftarrow> print_hex_bytes E ub (bs @ drop (length bs) head0) m;
         uart_putc E ub 10 m }
       else uart_puts E ub (bytes_of (''cfi-flash: no QRY signature (unbacked or absent)'' @ [CHR 0x0A])) m);
     let (ok, f, m) = cfi_init E 0x22000000 4 m;
     if ok \<and> cfi_ok f
     then do {
       let (_, bs, m) = cfi_read E f 0 16 m;
       m \<leftarrow> uart_printf E ub ''cfi-flash bank1: %u MiB, first 16: '' [VWord (ucast (drop_bit 20 (size_bytes f)))] m;
       m \<leftarrow> print_hex_bytes E ub (bs @ drop (length bs) head1) m;
       uart_putc E ub 10 m }
     else Some m }"

section \<open>The test picture\<close>

definition backend_name :: "gfx_backend \<Rightarrow> string" where
  "backend_name b = (case b of GFX_BACKEND_BOCHS \<Rightarrow> ''bochs'' | GFX_BACKEND_SIMPLEFB \<Rightarrow> ''simplefb''
     | GFX_BACKEND_VIRTIO_GPU \<Rightarrow> ''virtio-gpu'' | GFX_BACKEND_NONE \<Rightarrow> ''?'')"

definition colours :: "u32 list" where
  "colours = [0x00FF0000, 0x0000FF00, 0x000000FF, 0x00FFFFFF]"

fun draw_bars :: "env \<Rightarrow> u8 list \<Rightarrow> gfx \<Rightarrow> u32 \<Rightarrow> u32 list \<Rightarrow> mem \<times> gfx_drv \<times> mach \<Rightarrow> (mem \<times> gfx_drv \<times> mach) option" where
  "draw_bars E okb g i [] s = Some s"
| "draw_bars E okb g i (c # cs) s = do {
     let bw = g_width g div 4;
     s \<leftarrow> gfx_rect E okb g (i * bw) 0 bw (g_height g) c s;
     draw_bars E okb g (i + 1) cs s }"

definition probe_gfx ::
  "env \<Rightarrow> u64 \<Rightarrow> u64 \<Rightarrow> u8 list \<Rightarrow> fdt \<Rightarrow> gfx \<times> mem \<times> gfx_drv \<times> mach \<Rightarrow> (gfx \<times> mem \<times> gfx_drv \<times> mach) option" where
  "probe_gfx E ub ecam okb fdt = (\<lambda>(g, M, D, m). do {
     (ok, g, D, m) \<leftarrow> gfx_init_fdt E ub ecam M fdt 640 400 okb (g, D, m);
     if ok
     then do {
       m \<leftarrow> uart_printf E ub ([CHR 0x0A] @ ''gfx: %s backend, %ux%u'' @ [CHR 0x0A])
         [VStr (bytes_of (backend_name (backend g))), VWord (ucast (g_width g)), VWord (ucast (g_height g))] m;
       (M, D, m) \<leftarrow> draw_bars E okb g 0 colours (M, D, m);
       m \<leftarrow> uart_puts E ub (bytes_of (''gfx: 4-bar test pattern drawn'' @ [CHR 0x0A])) m;
       Some (g, M, D, m) }
     else do {
       m \<leftarrow> uart_puts E ub (bytes_of ([CHR 0x0A] @ ''gfx: no display backend'' @ [CHR 0x0A])) m;
       Some (g, M, D, m) } })"

section \<open>The walk over the tree\<close>

text \<open>A string in memory, up to its terminator.\<close>

partial_function (option) cstr :: "mem \<Rightarrow> u64 \<Rightarrow> u8 list option" where
  "cstr M a = (if M a = 0 then Some [] else do { s \<leftarrow> cstr M (a + 1); Some (M a # s) })"

fun put_bytes :: "env \<Rightarrow> u64 \<Rightarrow> u8 list \<Rightarrow> mach \<Rightarrow> mach option" where
  "put_bytes E ub [] m = Some m"
| "put_bytes E ub (c # cs) m = do { m \<leftarrow> uart_putc E ub c m; put_bytes E ub cs m }"

definition first_compat :: "mem \<Rightarrow> u64 \<Rightarrow> u32 \<Rightarrow> u8 list" where
  "first_compat M p clen = takeWhile (\<lambda>c. c \<noteq> 0) (map (\<lambda>i. M (p + of_nat i)) [0..<unat clen])"

definition print_node :: "env \<Rightarrow> u64 \<Rightarrow> mem \<Rightarrow> fdt \<Rightarrow> nat \<Rightarrow> u32 \<Rightarrow> mach \<Rightarrow> mach option" where
  "print_node E ub M fdt depth walk m = do {
     name \<leftarrow> cstr M (fdt_node_name fdt walk);
     cp \<leftarrow> fdt_node_prop M fdt walk (bytes_of ''compatible'');
     reg \<leftarrow> fdt_node_reg64 M fdt walk 0;
     m \<leftarrow> uart_puts E ub (concat (replicate depth (bytes_of ''  ''))) m;
     m \<leftarrow> uart_puts E ub (if name \<noteq> [] then name else bytes_of ''/'') m;
     m \<leftarrow> (case reg of Some (at, sz) \<Rightarrow> uart_printf E ub '' @%p (size=%x)'' [VWord at, VWord sz] m | None \<Rightarrow> Some m);
     m \<leftarrow> (case cp of Some (p, clen) \<Rightarrow>
         (if clen \<noteq> 0
          then do { m \<leftarrow> uart_puts E ub (bytes_of ''  compat='') m; put_bytes E ub (first_compat M p clen) m }
          else Some m)
       | None \<Rightarrow> Some m);
     uart_putc E ub 10 m }"

partial_function (option) walk_name :: "mem \<Rightarrow> fdt \<Rightarrow> u32 \<Rightarrow> u32 option" where
  "walk_name M fdt walk =
     (if walk < struct_size fdt \<and> M (struct_blob fdt + ucast walk) \<noteq> 0 then walk_name M fdt (walk + 1) else Some walk)"

partial_function (option) walk_tree :: "env \<Rightarrow> u64 \<Rightarrow> mem \<Rightarrow> fdt \<Rightarrow> u32 \<Rightarrow> nat \<Rightarrow> mach \<Rightarrow> mach option" where
  "walk_tree E ub M fdt walk depth m =
     (if walk < struct_size fdt
      then (let tok = fdt_read_be32 M (struct_blob fdt) walk in
        if tok = FDT_BEGIN_NODE
        then do {
          m \<leftarrow> print_node E ub M fdt depth walk m;
          walk \<leftarrow> walk_name M fdt (walk + 4);
          walk_tree E ub M fdt ((walk + 4) AND NOT 3) (depth + 1) m }
        else if tok = FDT_END_NODE then walk_tree E ub M fdt (walk + 4) (depth - 1) m
        else if tok = FDT_PROP
        then (let plen = fdt_read_be32 M (struct_blob fdt) (walk + 4)
              in walk_tree E ub M fdt (walk + (12 + align4 plen)) depth m)
        else if tok = FDT_NOP then walk_tree E ub M fdt (walk + 4) depth m
        else Some m)
      else Some m)"

section \<open>What the walk prints\<close>

text \<open>The nodes of a token list with their depth and offset, in the order of the blob, and their
  printing one after the other.\<close>

fun tree_nodes :: "u32 \<Rightarrow> nat \<Rightarrow> token list \<Rightarrow> (nat \<times> u32) list" where
  "tree_nodes off depth [] = []"
| "tree_nodes off depth (t # ts) = (case t of
     TBegin nm \<Rightarrow> (depth, off) # tree_nodes (off + tsize t) (depth + 1) ts
   | TEnd \<Rightarrow> tree_nodes (off + tsize t) (depth - 1) ts
   | TFin \<Rightarrow> []
   | _ \<Rightarrow> tree_nodes (off + tsize t) depth ts)"

fun print_nodes :: "env \<Rightarrow> u64 \<Rightarrow> mem \<Rightarrow> fdt \<Rightarrow> (nat \<times> u32) list \<Rightarrow> mach \<Rightarrow> mach option" where
  "print_nodes E ub M fdt [] m = Some m"
| "print_nodes E ub M fdt ((depth, off) # ns) m = do {
     m \<leftarrow> print_node E ub M fdt depth off m;
     print_nodes E ub M fdt ns m }"

lemma walk_name_scan_at:
  assumes "bytes_at M (struct_blob fdt + ucast p) (s @ 0 # bs)" "0 \<notin> set s" "unat p + length s < unat (struct_size fdt)"
  shows "walk_name M fdt p = Some (p + of_nat (length s))"
  using assms
proof (induction s arbitrary: p)
  case Nil
  then show ?case by (subst walk_name.simps) simp
next
  case (Cons c s)
  have p1: "(ucast (p + 1) :: u64) = ucast p + 1" "unat (p + 1) = unat p + 1"
    using ucast_add_of_nat [of p 1] Cons.prems(3) unat_u32_less [of "struct_size fdt"] by simp_all
  have "walk_name M fdt (p + 1) = Some (p + 1 + of_nat (length s))"
    by (rule Cons.IH) (use Cons.prems p1 in \<open>simp_all add: algebra_simps\<close>)
  moreover have "p < struct_size fdt" using Cons.prems(3) by (simp add: word_less_nat_alt)
  ultimately show ?case using Cons.prems by (subst walk_name.simps) (simp add: algebra_simps)
qed

lemma walk_name_at:
  assumes h: "holds M fdt off (TBegin nm # ts)"
  obtains q where "walk_name M fdt (off + 4) = Some q" "(q + 4) AND NOT 3 = off + tsize (TBegin nm)"
proof -
  have len: "length (enc (TBegin nm)) = 4 + (length nm + 4) div 4 * 4" by (simp add: length_pad4)
  note b = holds_bound [OF h, unfolded len]
  have o4: "(ucast (off + 4) :: u64) = ucast off + 4" "unat (off + 4) = unat off + 4"
    using ucast_add_of_nat [of off 4] b by simp_all
  have at: "bytes_at M (struct_blob fdt + ucast (off + 4))
      (nm @ 0 # replicate ((4 - Suc (length nm) mod 4) mod 4) 0 @ enc_all ts)"
    using h by (simp add: holds_def bytes_at_append pad4_def o4 algebra_simps)
  have nm: "0 \<notin> set nm" using h by (simp add: holds_def)
  have "unat off + length (enc_all (TBegin nm # ts)) = unat (struct_size fdt)" using h unfolding holds_def by blast
  then have "unat off + (4 + (length nm + 4) div 4 * 4) \<le> unat (struct_size fdt)" using len by simp
  moreover have "length nm < (length nm + 4) div 4 * 4" by presburger
  ultimately have room: "unat (off + 4) + length nm < unat (struct_size fdt)" using o4(2) by linarith
  then have small: "unat (off + 4) + length nm < 2 ^ 32" using unat_u32_less [of "struct_size fdt"] by simp
  have "skip_name_scan M fdt (off + 4) = Some (off + 4 + of_nat (length nm))"
    by (rule skip_name_scan_at [OF at nm small])
  then have "align4 (off + 4 + of_nat (length nm) + 1) = off + tsize (TBegin nm)"
    using skip_name_at [OF h] by (simp add: skip_name_def)
  then show thesis using that [OF walk_name_scan_at [OF at nm room]] by (simp add: align4_def add.assoc)
qed

text \<open>On a well-formed blob the walk prints every node once, at its depth, in the order of the blob,
  and stops at the end of the tree.\<close>

lemma walk_tree_prints:
  "holds M fdt off ts \<Longrightarrow> walk_tree E ub M fdt off depth m = print_nodes E ub M fdt (tree_nodes off depth ts) m"
proof (induction ts arbitrary: off depth m)
  case Nil
  then show ?case by (subst walk_tree.simps) (simp add: holds_end)
next
  case (Cons t ts)
  note lt = holds_less [OF Cons.prems] and tg = holds_tag [OF Cons.prems] and IH = Cons.IH [OF holds_next [OF Cons.prems]]
  show ?case
  proof (cases t)
    case (TBegin nm)
    obtain q where q: "walk_name M fdt (off + 4) = Some q" "(q + 4) AND NOT 3 = off + tsize (TBegin nm)"
      by (rule walk_name_at [OF Cons.prems [unfolded TBegin]])
    show ?thesis using lt tg TBegin IH q by (subst walk_tree.simps) (simp add: fdt_tokens)
  next
    case (TProp nameoff d)
    show ?thesis using lt tg TProp IH prop_fields(1,4) [OF Cons.prems [unfolded TProp]]
      by (subst walk_tree.simps) (simp add: fdt_tokens Let_def)
  qed (use lt tg IH in \<open>subst walk_tree.simps, simp add: fdt_tokens Let_def\<close>)+
qed

end
