(* ===== verification/UiHello.thy ===== *)
theory UiHello
  imports Menu
begin

text \<open>
  The menu program \<open>examples/ui-hello\<close>: its top-level menu and the three entries, on the menus,
  dialogs and picker of \<open>Ui\<close>.  Bringing up the drivers before the menu is left out.
\<close>

section \<open>The entries\<close>

definition demo_pick_file ::
  "(u8 list \<Rightarrow> ui_world \<Rightarrow> i32 \<times> 'd \<times> ui_world) \<Rightarrow> ('d \<Rightarrow> ui_world \<Rightarrow> i32 \<times> FILINFO \<times> 'd \<times> ui_world) \<Rightarrow>
   ('d \<Rightarrow> ui_world \<Rightarrow> ui_world) \<Rightarrow> env \<Rightarrow> u64 \<Rightarrow> ui_world \<Rightarrow> ui_world option" where
  "demo_pick_file od rd cd E ub w = do {
     (ok, path, w) \<leftarrow> ui_pick_file od rd cd E ub (Some [47]) None 128 w;
     if ok
     then (let msg = takeWhile (\<lambda>c. c \<noteq> 0) (snprintf_bytes 160 (bytes_of ''picked: '' @ takeWhile (\<lambda>c. c \<noteq> 0) path))
           in ui_message E ub (Some msg) w)
     else Some w }"

definition demo_confirm :: "env \<Rightarrow> u64 \<Rightarrow> ui_world \<Rightarrow> ui_world option" where
  "demo_confirm E ub w = do {
     (yes, w) \<leftarrow> ui_confirm E ub (Some (bytes_of ''Reboot now?'')) w;
     if yes then ui_message E ub (Some (bytes_of ''(would reboot)'')) w
     else ui_message E ub (Some (bytes_of ''(cancelled)'')) w }"

section \<open>The menu\<close>

definition hello_menu :: "bool \<Rightarrow> ui_menu" where
  "hello_menu fs_ok = \<lparr>title = Some (bytes_of ''ui-hello''),
     items = [\<lparr>i_label = Some (bytes_of ''Pick a file''), i_id = 1, disabled = \<not> fs_ok,
                hint = (if fs_ok then None else Some (bytes_of ''no FS attached''))\<rparr>,
              plain_item ''Confirm dialog'' 2, plain_item ''Show message'' 3, plain_item ''Quit'' 4],
     m_count = 4, selected = 0\<rparr>"

text \<open>The \<open>switch\<close> on an answer: whether the program goes on, and the state.\<close>

definition hello_case ::
  "(u8 list \<Rightarrow> ui_world \<Rightarrow> i32 \<times> 'd \<times> ui_world) \<Rightarrow> ('d \<Rightarrow> ui_world \<Rightarrow> i32 \<times> FILINFO \<times> 'd \<times> ui_world) \<Rightarrow>
   ('d \<Rightarrow> ui_world \<Rightarrow> ui_world) \<Rightarrow> env \<Rightarrow> u64 \<Rightarrow> int \<Rightarrow> ui_world \<Rightarrow> (bool \<times> ui_world) option" where
  "hello_case od rd cd E ub ans w =
     (if ans = 1 then do { w \<leftarrow> demo_pick_file od rd cd E ub w; Some (True, w) }
      else if ans = 2 then do { w \<leftarrow> demo_confirm E ub w; Some (True, w) }
      else if ans = 3
      then do {
        w \<leftarrow> ui_message E ub (Some (bytes_of ''rvvm-hal v1.0 '' @ [0xE2, 0x80, 0x94] @ bytes_of '' menu primitives demo'')) w;
        Some (True, w) }
      else if ans = 4 \<or> ans = -1
      then do {
        m \<leftarrow> uart_puts E ub ([27] @ bytes_of ''[2J'' @ [27] @ bytes_of ''[Hbye.'' @ [10]) (w_mach w);
        Some (False, w\<lparr>w_mach := m\<rparr>) }
      else Some (True, w))"

text \<open>One round of the loop, and the loop; the operations of FatFs are \<open>od\<close>, \<open>rd\<close> and \<open>cd\<close>.\<close>

definition hello_round ::
  "(u8 list \<Rightarrow> ui_world \<Rightarrow> i32 \<times> 'd \<times> ui_world) \<Rightarrow> ('d \<Rightarrow> ui_world \<Rightarrow> i32 \<times> FILINFO \<times> 'd \<times> ui_world) \<Rightarrow>
   ('d \<Rightarrow> ui_world \<Rightarrow> ui_world) \<Rightarrow> env \<Rightarrow> u64 \<Rightarrow> ui_menu \<times> ui_world \<Rightarrow> (bool \<times> ui_menu \<times> ui_world) option" where
  "hello_round od rd cd E ub = (\<lambda>(menu, w). do {
     (ans, menu, w) \<leftarrow> ui_menu_run E ub menu w;
     (go, w) \<leftarrow> hello_case od rd cd E ub ans w;
     Some (go, menu, w) })"

partial_function (option) hello_loop :: "('s \<Rightarrow> (bool \<times> 's) option) \<Rightarrow> 's \<Rightarrow> 's option" where
  "hello_loop round s = do {
     (go, s) \<leftarrow> round s;
     if go then hello_loop round s else Some s }"

definition hello_run ::
  "(u8 list \<Rightarrow> ui_world \<Rightarrow> i32 \<times> 'd \<times> ui_world) \<Rightarrow> ('d \<Rightarrow> ui_world \<Rightarrow> i32 \<times> FILINFO \<times> 'd \<times> ui_world) \<Rightarrow>
   ('d \<Rightarrow> ui_world \<Rightarrow> ui_world) \<Rightarrow> env \<Rightarrow> u64 \<Rightarrow> bool \<Rightarrow> ui_world \<Rightarrow> ui_world option" where
  "hello_run od rd cd E ub fs_ok w = do {
     (_, w) \<leftarrow> hello_loop (hello_round od rd cd E ub) (hello_menu fs_ok, w);
     Some w }"

text \<open>Without a file system the picker's entry is never chosen, and every answer of the menu is one
  of the cases of the loop.\<close>

lemma hello_menu_answers:
  assumes "ui_menu_run E ub menu w = Some (r, menu', w')" "items menu = items (hello_menu fs_ok)" "m_count menu = 4"
  shows "r \<in> {1, 2, 3, 4, -1} \<and> (r = 1 \<longrightarrow> fs_ok) \<and> items menu' = items (hello_menu fs_ok)"
proof -
  have n: "unat (m_count menu) = length (items menu)" using assms(2,3) by (simp add: hello_menu_def)
  have p: "picked menu r menu'" using ui_menu_run_picked [OF assms(1) n] assms(3) by simp
  then have "unat (selected menu') < 4" using assms(2) by (simp add: picked_def hello_menu_def)
  then have "unat (selected menu') \<in> {0, 1, 2, 3}" by auto
  with p assms(2) show ?thesis by (auto simp: picked_def hello_menu_def plain_item_def)
qed

end
