(* ===== verification/Spec2Isabelle.thy ===== *)
theory Spec2Isabelle
  imports StringC Uart Fdt Timer Irq Sync Smp VirtioInput Nvme Eth Menu FwCfg Calendar Panic Audio Net Hammer Demos
    AudioDemos ProbeS UiHello
begin

text \<open>
  A verification development for the RVVM hardware abstraction layer (\<open>rvvm-hal\<close>), the bare-metal
  C library under \<open>src/src\<close> and \<open>src/include\<close>, with the example programs of \<open>src/examples\<close> that add
  code of their own.  The library is a set of drivers that a firmware calls directly: no kernel, no
  allocation, static state per driver, polling with \<open>wfi\<close>, one interrupt dispatcher, and up to eight
  harts.  Paths below are relative to \<open>src/\<close>.

  How the program is read

  A hart is a record \<open>mach\<close> (theory \<open>Machine\<close>): the chronological list of the accesses it has made
  (volatile loads and stores of each width, fences, \<open>wfi\<close>, reads of the time register, SBI calls, CSR
  reads and writes that hardware answers, calls through function pointers, atomic instructions) and
  the two CSRs that software alone changes.  What an access returns is decided by an environment \<open>E\<close>, a
  function of the whole history and of the access.  It stands for every device, for memory that devices
  write, and for the firmware below the library; a theorem for all \<open>E\<close> holds against every device.  A driver's
  statics and objects are a record with the C fields; a driver function takes the record and the hart
  and returns them updated.  Integers are words of their C width, and arithmetic wraps as in C.  Memory
  that only the program touches is a function \<open>mem\<close> from addresses to bytes (device tree, frame buffers,
  the memory primitives); memory shared with a device is written through the trace, and \<open>Dma\<close> rebuilds
  from a trace what the device sees.

  A result \<open>None\<close> is a run with no result: a loop that never ends (\<open>partial_function\<close>), or an access
  outside a static array, which C leaves undefined (the PRP list of \<open>Nvme\<close>, the command ring of \<open>Hda\<close>, the
  descriptor table of \<open>Virtio\<close>).  Errors the code reports are values: a Boolean, a short count, an option,
  a status word.  Loops that the code bounds recurse on the code's own bound: 16 million completion polls
  of the NVMe driver, 48 hops of the PCI capability walk, 32 store-conditional attempts, 1000 polls of the
  I2C, RTL8169 and codec waits, 100000 polls for a codec response, 50 waits of a millisecond for room in the
  speaker's ring.  No other fuel is used, so nothing depends on a fuel chosen here.

  The two builds (M-mode over CLINT, S-mode over SBI) are the type \<open>priv\<close>, the first argument of
  everything that differs between them; \<open>plat\<close> holds the statics of the platform layer.

  Theories and sources

  \<^item> \<open>Prelude\<close>: word arithmetic, byte order, options, lists; \<open>Machine\<close>: \<open>include/mmio.h\<close>, \<open>include/priv.h\<close>.
  \<^item> \<open>StringC\<close>: \<open>src/string.c\<close>, loop by loop (alignment head, words, tail).
  \<^item> \<open>Uart\<close>: \<open>src/uart.c\<close>; \<open>Fdt\<close>: \<open>src/fdt.c\<close>; \<open>Plat\<close>: \<open>src/plat_m_clint.c\<close> (suffix \<open>_m\<close>),
    \<open>src/plat_s_sbi.c\<close> (suffix \<open>_s\<close>) and their selection at link time.
  \<^item> \<open>Irq\<close>: \<open>src/irq.c\<close>; \<open>Timer\<close>: \<open>src/time.c\<close>, \<open>src/rtc.c\<close>; \<open>Panic\<close>: \<open>src/panic.c\<close>.
  \<^item> \<open>Sync\<close>: \<open>include/atomic.h\<close>, \<open>include/mutex.h\<close>; \<open>Smp\<close>: \<open>src/smp.c\<close>; \<open>Hammer\<close>: the torture loop of
    \<open>examples/smp\<close>.
  \<^item> \<open>Virtio\<close>, \<open>VirtioInput\<close>, \<open>Gpu\<close>: \<open>src/virtio.c\<close>, \<open>src/virtio_input.c\<close>, \<open>src/virtio_gpu.c\<close>.
  \<^item> \<open>Pci\<close>, \<open>Nvme\<close>, \<open>Eth\<close>: \<open>src/pci.c\<close>, \<open>src/nvme.c\<close>, \<open>src/eth_rtl8169.c\<close>, over \<open>Dma\<close>.
  \<^item> \<open>Gfx\<close>, \<open>GfxText\<close>: \<open>src/bochs.c\<close>, \<open>src/gfx.c\<close>, \<open>src/gfx_text.c\<close>; \<open>I2c\<close>, \<open>Hid\<close>: \<open>src/i2c.c\<close>, \<open>src/hid.c\<close>;
    \<open>Ui\<close>, \<open>Menu\<close>: \<open>src/ui.c\<close> and its properties.
  \<^item> \<open>FwCfg\<close>: \<open>src/fw_cfg.c\<close>, \<open>src/cfi.c\<close>; \<open>Fatfs\<close>, \<open>Calendar\<close>: \<open>src/fatfs_disk.c\<close> and its time stamps.
  \<^item> \<open>Hda\<close>, \<open>Audio\<close>: \<open>src/hda.c\<close>, \<open>src/audio.c\<close>, \<open>src/audio_pcm.c\<close>, \<open>src/audio_edge.c\<close>; \<open>Net\<close>: \<open>src/net.c\<close>.
  \<^item> \<open>Demos\<close>, \<open>AudioDemos\<close>, \<open>ProbeS\<close>, \<open>UiHello\<close>: \<open>src/picolibc_hooks.c\<close> and the programs that compose the
    drivers.

  Interaction follows the calls: everything prints through \<open>Uart\<close> and is found through \<open>Fdt\<close> or \<open>Pci\<close>;
  \<open>Irq\<close> claims through \<open>Plat\<close> and calls the handlers that \<open>Eth\<close> and \<open>Hid\<close> register; \<open>Smp\<close> wakes harts through
  \<open>Plat\<close>; \<open>Fatfs\<close> runs on \<open>Nvme\<close>, \<open>Net\<close> on \<open>Eth\<close>, \<open>Gfx\<close> on three displays, \<open>Hid\<close> on two keyboards, \<open>Ui\<close> on \<open>Uart\<close>,
  \<open>Gfx\<close> and \<open>Hid\<close>.  Where a component rests on what another promises, the promise is a locale: \<open>byte_sink\<close>
  (printing over a console), \<open>intc\<close> (claim and complete), \<open>plat_timer\<close> (enable, arm, disable), \<open>desc_pool\<close>
  (descriptor allocation); each is interpreted on the model of the code that provides it.

  What the lemmas show

  \<^item> Concurrency: mutual exclusion of the spin lock over every interleaving of load-reserved and
    store-conditional steps, no lost update in the torture program that uses it, and execution of every
    accepted command once and in order.  Each is an inductive step relation, an invariant and its preservation
    by rule inversion.
  \<^item> Block and network I/O: the PRP lists of a transfer, read back as the NVMe specification says, name the
    pages of the buffer; a write is the sequence of commands for consecutive ranges; transmit and receive rings
    of the RTL8169 keep their order, hand-over and bounds, through the interrupt drain and the lwIP glue.
  \<^item> Discovery: the device tree searches agree with a search over the token list that the blob encodes; the
    PCI search is the n-th match in depth-first order; address registers read back; the capability budget suffices.
  \<^item> Memory, text and pixels: the memory primitives against byte-wise specifications for every alignment and
    overlap; formatted output against a rendering function, and back to the numbers; rectangles against the
    set of clipped pixels.
  \<^item> Time: the idle wait ends at the first clock reading at the deadline, and only then; FAT time stamps
    against a reference calendar.
  \<^item> Interfaces with people: cursor movement, selection and picking in menus; keyboard reports; the waveform
    of the speaker; the ring of a stream, whose filled part is never overwritten before it is played.
  \<^item> Bounds and faults: where the code itself leaves its arrays (the command ring of the codec, the PRP list
    of a misaligned transfer, an index a device supplies), a theorem says exactly when.

  Hypotheses of the theorems describe callers and devices: a console that drains (\<open>uart_live\<close>), a blob that
  encodes tokens (\<open>holds\<close>), handlers that leave the interrupt controller alone (\<open>polite\<close>).  Each property
  with hypotheses is applied once to a concrete state, after it.

  Not modelled

  Assembly (\<open>start.S\<close>, \<open>start_s.S\<close>, \<open>trap.S\<close>, \<open>string_asm.S\<close>) has no C semantics to translate; the park
  loop, the trap frame and the register arguments appear as the steps and arguments of \<open>Smp\<close>, \<open>Irq\<close> and \<open>Panic\<close>.
  FatFs, lwIP and picolibc are third-party code: their functions are parameters.  Interrupts are taken where the
  models call the dispatcher, not between any two instructions.  Weaker-than-sequential memory order is not
  modelled: fences are entries of the trace, and the concurrent relations interleave whole accesses.  The
  examples that print with picolibc, time floating-point code or test the emulator (\<open>fs-hello\<close>, \<open>net-hello\<close>,
  \<open>picolibc-hello\<close>, \<open>bench\<close>, \<open>fp-bench\<close>, \<open>linpack\<close>, \<open>rmm-test\<close>), the Rust bindings and the build
  files add no logic of the library.  The keyboard section of \<open>probe-s\<close> and the endless loop of \<open>probe\<close> are left out, because
  their callbacks print, while the callbacks of the drivers are functions on the caller's context; of \<open>smp\<close>,
  \<open>eth-hello\<close> and \<open>ipi-hello\<close> the handlers and loops are modelled, not the \<open>kmain\<close> that waits for other
  harts and interrupts.
\<close>

end
